(* ===== verification/Prelude.thy ===== *)
theory Prelude
  imports Main "HOL-Library.Word"
begin

unbundle bit_operations_syntax

section \<open>Shared types, lemma collections and generic lemmas\<close>

text \<open>
  Vocabulary of the whole development: Rust's fixed-width integers, the panics a kernel
  path can raise, the ordered map of Rust's standard library, the arithmetic of the ring
  buffers the kernel keeps, and the contract of a bounded log that several components
  provide. Component theories import this one and extend the lemma collections below.
\<close>

subsection \<open>Machine integers\<close>

type_synonym u8 = "8 word"
type_synonym u16 = "16 word"
type_synonym u32 = "32 word"
type_synonym u64 = "64 word"

text \<open>
  Rust's \<^verbatim>\<open>usize\<close> counters that only count kernel objects (pages, queue entries, list
  lengths) are modelled by \<^typ>\<open>nat\<close>: each is bounded by the memory that holds the objects.
  Everything the code shifts, masks, xors, compares as an address or lets wrap is a word.
\<close>

text \<open>Collections the component theories fill: \<open>kinv\<close> holds facts that an operation keeps
  an invariant, \<open>kframe\<close> holds facts on what an operation leaves alone.\<close>

named_theorems kinv
named_theorems kframe

datatype panic = IndexOutOfBounds | ArithmeticOverflow | ExpectFailed | SliceOutOfRange

type_synonym 'a rust = "panic + 'a"

definition saturating_sub :: "'a::len word \<Rightarrow> 'a word \<Rightarrow> 'a word" where
  "saturating_sub a b = (if a < b then 0 else a - b)"

lemma unat_saturating_sub: "unat (saturating_sub a b) = unat a - unat b"
  by (simp add: saturating_sub_def word_less_nat_alt unat_sub_if')

subsection \<open>Aligned addresses and buddies\<close>

lemma word_bits_eq: "(x::u64) = y \<longleftrightarrow> (\<forall>m<64. bit x m = bit y m)"
  by (auto intro: bit_word_eqI)

lemma take_bit_unat: "take_bit n (unat (a::u64)) = unat (take_bit n a)"
  by (simp add: unsigned_take_bit_eq)

lemma aligned_dvd: "take_bit n (a::u64) = 0 \<longleftrightarrow> 2 ^ n dvd unat a"
  by (metis take_bit_unat take_bit_eq_0_iff unat_eq_zero unsigned_0)

lemma aligned_end:
  assumes "take_bit n (a::u64) = 0" and "n \<le> 64"
  shows "unat a + 2 ^ n \<le> 2 ^ 64"
proof -
  obtain q where q: "unat a = 2 ^ n * q" using assms(1) aligned_dvd by (auto elim: dvdE)
  have "(2::nat) ^ 64 = 2 ^ n * 2 ^ (64 - n)" using assms(2) by (simp flip: power_add)
  moreover have "unat a < 2 ^ 64" using unsigned_less [of a] by simp
  ultimately have "2 ^ n * q < 2 ^ n * 2 ^ (64 - n)" using q by simp
  then have "q < 2 ^ (64 - n)" by simp
  then have "2 ^ n * (q + 1) \<le> (2::nat) ^ n * 2 ^ (64 - n)" by (intro mult_le_mono) simp_all
  then show ?thesis using q \<open>(2::nat) ^ 64 = _\<close> by (simp add: algebra_simps)
qed

lemma xor_bit_clear:
  assumes "\<not> bit (b::u64) n"
  shows "b XOR push_bit n 1 = b + push_bit n 1"
proof -
  have "b AND push_bit n 1 = 0" using assms by (auto simp: word_bits_eq bit_simps)
  then show ?thesis by (simp add: disjunctive_add_eq_xor)
qed

lemma aligned_Suc:
  assumes "take_bit n (b::u64) = 0" and "\<not> bit b n"
  shows "take_bit (Suc n) b = 0"
  using assms by (auto simp: word_bits_eq bit_simps less_Suc_eq)

lemma unat_push_bit_1: "n < 64 \<Longrightarrow> unat (push_bit n (1::u64)) = 2 ^ n"
proof -
  assume "n < 64"
  then have "(2::nat) ^ n < 2 ^ 64" by (intro power_strict_increasing) simp_all
  moreover have "push_bit n (1::u64) = of_nat (2 ^ n)" by (simp add: push_bit_eq_mult)
  ultimately show ?thesis by (simp add: unat_of_nat del: push_bit_of_1 of_nat_power)
qed

lemma unat_add_block:
  assumes "take_bit (Suc n) (b::u64) = 0" and "Suc n \<le> 64"
  shows "unat (b + push_bit n 1) = unat b + 2 ^ n"
proof -
  have p: "unat (push_bit n (1::u64)) = 2 ^ n" by (rule unat_push_bit_1) (use assms(2) in simp)
  have "unat b + 2 ^ n < unat b + 2 ^ Suc n" by simp
  also have "\<dots> \<le> 2 ^ 64" by (rule aligned_end [OF assms])
  finally have "unat b + unat (push_bit n (1::u64)) < 2 ^ LENGTH(64)" using p by simp
  then show ?thesis using unat_add_lem [of b "push_bit n 1"] p by simp
qed

lemma buddy_cases:
  fixes a :: u64
  assumes "take_bit n a = 0" and "Suc n \<le> 64"
  shows "(min a (a XOR push_bit n 1) = a \<and> unat (a XOR push_bit n 1) = unat a + 2 ^ n \<and>
           take_bit (Suc n) a = 0)
       \<or> (min a (a XOR push_bit n 1) = a XOR push_bit n 1 \<and> unat a = unat (a XOR push_bit n 1) + 2 ^ n \<and>
           take_bit (Suc n) (a XOR push_bit n 1) = 0)"
proof (cases "bit a n")
  case False
  have al: "take_bit (Suc n) a = 0" by (rule aligned_Suc [OF assms(1) False])
  have "unat (a XOR push_bit n 1) = unat a + 2 ^ n"
    using xor_bit_clear [OF False] unat_add_block [OF al assms(2)] by simp
  moreover then have "min a (a XOR push_bit n 1) = a" by (simp add: min_def word_le_nat_alt)
  ultimately show ?thesis using al by blast
next
  case True
  let ?b = "a XOR push_bit n 1"
  have nb: "\<not> bit ?b n" using True assms(2) by (auto simp: bit_simps)
  have "take_bit n ?b = 0" using assms(1) by (auto simp: word_bits_eq bit_simps)
  then have al: "take_bit (Suc n) ?b = 0" using nb by (rule aligned_Suc)
  have "?b XOR push_bit n 1 = a" by (simp add: xor.assoc)
  then have "unat a = unat ?b + 2 ^ n"
    using xor_bit_clear [OF nb] unat_add_block [OF al assms(2)] by simp
  moreover then have "min a ?b = ?b" by (simp add: min_def word_le_nat_alt)
  ultimately show ?thesis using al by blast
qed

lemma and_mask: "(a::u64) AND (push_bit n 1 - 1) = take_bit n a"
  by (simp add: take_bit_eq_mask mask_eq_exp_minus_1)

lemma and_not_mask: "(a::u64) AND NOT (push_bit n 1 - 1) = push_bit n (drop_bit n a)"
proof -
  have "push_bit n (1::u64) - 1 = mask n" by (simp add: mask_eq_exp_minus_1)
  then show ?thesis by (simp add: word_bits_eq bit_simps) auto
qed

lemma take_bit_push_drop: "take_bit n (push_bit n (drop_bit n (a::u64))) = 0"
  by (auto simp: word_bits_eq bit_simps)

lemma unat_push_drop: "unat (push_bit n (drop_bit n (a::u64))) = unat a div 2 ^ n * 2 ^ n"
proof -
  have "unat a div 2 ^ n * 2 ^ n \<le> unat a" by (simp add: div_times_less_eq_dividend)
  also have "\<dots> < 2 ^ 64" using unsigned_less [of a] by simp
  finally have "take_bit 64 (push_bit n (drop_bit n (unat a))) = unat a div 2 ^ n * 2 ^ n"
    by (simp add: push_bit_eq_mult drop_bit_eq_div take_bit_nat_eq_self)
  moreover have "take_bit 64 (unat a) = unat a"
    using unsigned_less [of a, where ?'a = nat] by (simp add: take_bit_nat_eq_self)
  ultimately show ?thesis by (simp only: unsigned_push_bit_eq unsigned_drop_bit_eq) simp
qed

subsection \<open>FNV-1a, used by the sharded map and by the password hash\<close>

definition fnv1a_step :: "u64 \<Rightarrow> u8 \<Rightarrow> u64" where
  "fnv1a_step hash b = (hash XOR ucast b) * 0x100000001b3"

definition fnv1a :: "u8 list \<Rightarrow> u64" where
  "fnv1a bs = foldl fnv1a_step 0xcbf29ce484222325 bs"

subsection \<open>The ordered map of the standard library\<close>

text \<open>
  Rust's \<^verbatim>\<open>BTreeMap\<close> is an association list in ascending key order. Lookups after updates
  need no well-formedness; the iteration order does.
\<close>

type_synonym ('k, 'v) btree = "('k \<times> 'v) list"

abbreviation bt_get :: "('k, 'v) btree \<Rightarrow> 'k \<Rightarrow> 'v option" where
  "bt_get \<equiv> map_of"

fun bt_insert :: "'k::linorder \<Rightarrow> 'v \<Rightarrow> ('k, 'v) btree \<Rightarrow> ('k, 'v) btree" where
  "bt_insert k v [] = [(k, v)]"
| "bt_insert k v ((k', v') # m) =
     (if k < k' then (k, v) # (k', v') # m
      else if k = k' then (k, v) # m
      else (k', v') # bt_insert k v m)"

definition bt_remove :: "'k \<Rightarrow> ('k, 'v) btree \<Rightarrow> ('k, 'v) btree" where
  "bt_remove k m = filter (\<lambda>e. fst e \<noteq> k) m"

definition bt_modify :: "'k \<Rightarrow> ('v \<Rightarrow> 'v) \<Rightarrow> ('k, 'v) btree \<Rightarrow> ('k, 'v) btree" where
  "bt_modify k f m = map (\<lambda>(k', v). (k', if k' = k then f v else v)) m"

definition bt_wf :: "('k::linorder, 'v) btree \<Rightarrow> bool" where
  "bt_wf m \<longleftrightarrow> sorted_wrt (<) (map fst m)"

lemma bt_get_insert [simp]: "bt_get (bt_insert k v m) = (bt_get m)(k \<mapsto> v)"
  by (induction k v m rule: bt_insert.induct) (auto simp: fun_eq_iff)

lemma bt_get_remove [simp]: "bt_get (bt_remove k m) = (bt_get m)(k := None)"
  by (induction m) (auto simp: bt_remove_def fun_eq_iff)

lemma bt_get_modify [simp]:
  "bt_get (bt_modify k f m) = (bt_get m)(k := map_option f (bt_get m k))"
  by (induction m) (auto simp: bt_modify_def fun_eq_iff)

lemma bt_keys_modify [simp]: "map fst (bt_modify k f m) = map fst m"
  by (auto simp: bt_modify_def)

lemma bt_set_keys_insert [simp]: "fst ` set (bt_insert k v m) = insert k (fst ` set m)"
  by (induction k v m rule: bt_insert.induct) auto

lemma bt_set_keys_remove [simp]: "fst ` set (bt_remove k m) = fst ` set m - {k}"
  by (auto simp: bt_remove_def)

lemma bt_wf_Nil [simp]: "bt_wf []"
  by (simp add: bt_wf_def)

lemma bt_wf_insert [kinv]: "bt_wf m \<Longrightarrow> bt_wf (bt_insert k v m)"
proof (induction k v m rule: bt_insert.induct)
  case (2 k v k' v' m)
  then show ?case
    using bt_set_keys_insert [of k v m] by (fastforce simp: bt_wf_def)
qed (simp add: bt_wf_def)

lemma bt_wf_remove [kinv]: "bt_wf m \<Longrightarrow> bt_wf (bt_remove k m)"
  by (induction m) (auto simp: bt_wf_def bt_remove_def)

lemma bt_wf_modify [kinv]: "bt_wf m \<Longrightarrow> bt_wf (bt_modify k f m)"
  by (simp add: bt_wf_def)

lemma bt_get_None_iff: "bt_get m k = None \<longleftrightarrow> k \<notin> fst ` set m"
  by (simp add: map_of_eq_None_iff)

lemma bt_wf_distinct: "bt_wf m \<Longrightarrow> distinct (map fst m)"
  by (simp add: bt_wf_def strict_sorted_iff)

lemma bt_get_eq_mem: "bt_wf m \<Longrightarrow> bt_get m k = Some v \<longleftrightarrow> (k, v) \<in> set m"
  by (simp add: bt_wf_distinct)

subsection \<open>Ring buffers\<close>

text \<open>
  Several components keep a fixed array with a write index and a saturating count.
  \<open>ring_view\<close> reads it oldest first, as the iterators of the code do.
\<close>

definition ring_view :: "'a list \<Rightarrow> nat \<Rightarrow> nat \<Rightarrow> 'a list" where
  "ring_view xs h c =
     map (\<lambda>i. xs ! (((if c = length xs then h else 0) + i) mod length xs)) [0..<c]"

definition ring_inv :: "'a list \<Rightarrow> nat \<Rightarrow> nat \<Rightarrow> bool" where
  "ring_inv xs h c \<longleftrightarrow> h < length xs \<and> c \<le> length xs \<and> (c < length xs \<longrightarrow> h = c)"

definition ring_push :: "'a \<Rightarrow> 'a list \<Rightarrow> nat \<Rightarrow> nat \<Rightarrow> 'a list \<times> nat \<times> nat" where
  "ring_push e xs h c =
     (xs[h := e], (h + 1) mod length xs, if c < length xs then c + 1 else c)"

lemma length_ring_view [simp]: "length (ring_view xs h c) = c"
  by (simp add: ring_view_def)

lemma ring_view_0 [simp]: "ring_view xs h 0 = []"
  by (simp add: ring_view_def)

lemma ring_inv_push:
  assumes "ring_inv xs h c" and "ring_push e xs h c = (xs', h', c')"
  shows "ring_inv xs' h' c'"
proof -
  have "0 < length xs" using assms(1) by (auto simp: ring_inv_def)
  then show ?thesis using assms by (auto simp: ring_inv_def ring_push_def)
qed

lemma ring_view_push_room:
  assumes "ring_inv xs h c" and "c < length xs"
  shows "ring_view (xs[h := e]) ((h + 1) mod length xs) (c + 1) = ring_view xs h c @ [e]"
proof (rule nth_equalityI)
  show "length (ring_view (xs[h := e]) ((h + 1) mod length xs) (c + 1)) =
        length (ring_view xs h c @ [e])" by simp
next
  fix i
  assume "i < length (ring_view (xs[h := e]) ((h + 1) mod length xs) (c + 1))"
  with assms show "ring_view (xs[h := e]) ((h + 1) mod length xs) (c + 1) ! i =
      (ring_view xs h c @ [e]) ! i"
    by (cases "i = c")
      (auto simp: ring_view_def ring_inv_def nth_append nth_list_update simp del: upt_Suc)
qed

lemma ring_view_push_full:
  assumes "ring_inv xs h (length xs)"
  shows "ring_view (xs[h := e]) ((h + 1) mod length xs) (length xs) =
         tl (ring_view xs h (length xs)) @ [e]"
proof (rule nth_equalityI)
  let ?n = "length xs"
  have n: "h < ?n" using assms by (simp add: ring_inv_def)
  then show "length (ring_view (xs[h := e]) ((h + 1) mod ?n) ?n) =
        length (tl (ring_view xs h ?n) @ [e])" by simp
  fix i
  assume "i < length (ring_view (xs[h := e]) ((h + 1) mod ?n) ?n)"
  then have i: "i < ?n" by simp
  have idx: "((h + 1) mod ?n + i) mod ?n = (h + (i + 1)) mod ?n"
    by (simp add: mod_simps)
  show "ring_view (xs[h := e]) ((h + 1) mod ?n) ?n ! i = (tl (ring_view xs h ?n) @ [e]) ! i"
  proof (cases "i + 1 = ?n")
    case True
    then have "(h + (i + 1)) mod ?n = h" using n by simp
    moreover have "\<not> i < ?n - 1" using True by simp
    ultimately show ?thesis using True i idx n
      by (auto simp: ring_view_def nth_append)
  next
    case False
    with i have i': "i + 1 < ?n" by simp
    have "(h + (i + 1)) mod ?n \<noteq> h"
    proof (cases "h + (i + 1) < ?n")
      case False
      then have "(h + (i + 1)) mod ?n = h + (i + 1) - ?n"
        using n i' by (simp add: le_mod_geq)
      then show ?thesis using False i' by simp
    qed simp
    moreover have "i < ?n - 1" using i' by simp
    ultimately show ?thesis using i' idx
      by (simp add: ring_view_def nth_append nth_tl)
  qed
qed

lemma ring_view_push:
  assumes "ring_inv xs h c" and "ring_push e xs h c = (xs', h', c')"
  shows "ring_view xs' h' c' =
         drop (length (ring_view xs h c) + 1 - length xs) (ring_view xs h c @ [e])"
proof (cases "c < length xs")
  case True
  then show ?thesis using assms ring_view_push_room [OF assms(1) True, of e]
    by (simp add: ring_push_def)
next
  case False
  with assms(1) have c: "c = length xs" by (simp add: ring_inv_def)
  have "Suc 0 - length xs = 0" using assms(1) by (auto simp: ring_inv_def)
  then show ?thesis using assms c ring_view_push_full [of xs h e]
    by (auto simp: ring_push_def drop_Suc)
qed

subsection \<open>The contract of a bounded log\<close>

text \<open>
  A log of capacity \<open>cap\<close>: pushing shows up at the end of the view and the oldest entries
  fall out. The kernel ring, the AI audit ring and the sudo audit log provide it.
\<close>

locale bounded_log =
  fixes push :: "'e \<Rightarrow> 's \<Rightarrow> 's"
    and view :: "'s \<Rightarrow> 'v list"
    and obs :: "'e \<Rightarrow> 'v"
    and inv :: "'s \<Rightarrow> bool"
    and cap :: nat
  assumes inv_push: "inv s \<Longrightarrow> inv (push e s)"
    and view_push: "inv s \<Longrightarrow> view (push e s) = drop (length (view s) + 1 - cap) (view s @ [obs e])"
    and view_cap: "inv s \<Longrightarrow> length (view s) \<le> cap"
begin

lemma inv_fold: "inv s \<Longrightarrow> inv (fold push es s)"
  by (induction es arbitrary: s) (auto intro: inv_push)

lemma view_fold:
  "inv s \<Longrightarrow> view (fold push es s) =
     drop (length (view s) + length es - cap) (view s @ map obs es)"
proof (induction es arbitrary: s)
  case Nil
  then show ?case using view_cap [of s] by simp
next
  case (Cons e es)
  have cap: "length (view s) \<le> cap" by (rule view_cap [OF Cons.prems])
  have push: "view (push e s) = drop (length (view s) + 1 - cap) (view s @ [obs e])"
    by (rule view_push [OF Cons.prems])
  note IH = Cons.IH [OF inv_push [OF Cons.prems], of e]
  show ?case
  proof (cases "length (view s) < cap")
    case True
    then show ?thesis using push IH by simp
  next
    case False
    then have "view (push e s) = drop 1 (view s @ [obs e])" using push cap by simp
    moreover have "length (view (push e s)) = cap" using calculation False cap by simp
    ultimately show ?thesis using IH False cap
      by (cases "view s") (auto simp: drop_Suc)
  qed
qed

lemma view_fold_length:
  "inv s \<Longrightarrow> length (view (fold push es s)) = min cap (length (view s) + length es)"
  using view_cap [of s] by (auto simp: view_fold)

lemma last_pushed: "inv s \<Longrightarrow> 0 < cap \<Longrightarrow> last (view (push e s)) = obs e"
  using view_cap [of s] by (simp add: view_push)

end

subsection \<open>The contract of the frame allocator\<close>

text \<open>
  What the page-table, slab and page-cache code relies on: a frame taken from the allocator
  was free and is free no longer, and giving back a frame that is not free makes it free.
  \<open>frame\<close> is the set of byte addresses of a frame.
\<close>

primrec alloc_many :: "('s \<Rightarrow> ('f \<times> 's) option) \<Rightarrow> nat \<Rightarrow> 's \<Rightarrow> ('f list \<times> 's) option" where
  "alloc_many alloc 0 s = Some ([], s)"
| "alloc_many alloc (Suc n) s =
     (case alloc s of None \<Rightarrow> None
      | Some (f, s') \<Rightarrow> map_option (\<lambda>(fs, s''). (f # fs, s'')) (alloc_many alloc n s'))"

locale frame_source =
  fixes inv :: "'s \<Rightarrow> bool"
    and space :: "'s \<Rightarrow> nat set"
    and alloc :: "'s \<Rightarrow> ('f \<times> 's) option"
    and release :: "'f \<Rightarrow> 's \<Rightarrow> 's rust option"
    and frame :: "'f \<Rightarrow> nat set"
    and frame_ok :: "'f \<Rightarrow> bool"
  assumes alloc_inv: "inv s \<Longrightarrow> alloc s = Some (f, s') \<Longrightarrow> inv s'"
    and alloc_frame_ok: "inv s \<Longrightarrow> alloc s = Some (f, s') \<Longrightarrow> frame_ok f"
    and alloc_free: "inv s \<Longrightarrow> alloc s = Some (f, s') \<Longrightarrow> frame f \<subseteq> space s"
    and alloc_takes: "inv s \<Longrightarrow> alloc s = Some (f, s') \<Longrightarrow> space s' = space s - frame f"
    and release_gives: "inv s \<Longrightarrow> frame_ok f \<Longrightarrow> frame f \<inter> space s = {} \<Longrightarrow>
          \<exists>s'. release f s = Some (Inr s') \<and> inv s' \<and> space s' = space s \<union> frame f"
begin

lemma alloc_many_correct:
  assumes "inv s" and "alloc_many alloc n s = Some (fs, s')"
  shows "inv s' \<and> length fs = n \<and> (\<forall>f \<in> set fs. frame_ok f \<and> frame f \<subseteq> space s) \<and>
         space s' = space s - \<Union> (frame ` set fs) \<and>
         (\<forall>i j. i < j \<and> j < n \<longrightarrow> frame (fs ! i) \<inter> frame (fs ! j) = {})"
  using assms
proof (induction n arbitrary: s fs)
  case (Suc n)
  from Suc.prems obtain f s1 fs1 where a: "alloc s = Some (f, s1)"
    and m: "alloc_many alloc n s1 = Some (fs1, s')" and fs: "fs = f # fs1"
    by (auto split: option.splits)
  note inv1 = alloc_inv [OF Suc.prems(1) a] and fr = alloc_free [OF Suc.prems(1) a]
    and ok = alloc_frame_ok [OF Suc.prems(1) a] and tk = alloc_takes [OF Suc.prems(1) a]
  note IH = Suc.IH [OF inv1 m]
  have "frame ((f # fs1) ! i) \<inter> frame ((f # fs1) ! j) = {}" if ij: "i < j" "j < Suc n" for i j
  proof (cases i)
    case 0
    have "fs1 ! (j - 1) \<in> set fs1" using IH that by (intro nth_mem) auto
    then have "frame (fs1 ! (j - 1)) \<subseteq> space s - frame f" using IH tk by auto
    then show ?thesis using 0 that by (auto simp: nth_Cons')
  next
    case (Suc i')
    obtain j' where "j = Suc j'" using ij by (cases j) auto
    then show ?thesis using Suc IH ij by simp
  qed
  then show ?case using IH fs fr ok tk by auto
qed auto

lemma alloc_release:
  assumes "inv s" and "alloc s = Some (f, s')"
  shows "\<exists>s''. release f s' = Some (Inr s'') \<and> inv s'' \<and> space s'' = space s"
  using release_gives [OF alloc_inv [OF assms] alloc_frame_ok [OF assms]]
    alloc_takes [OF assms] alloc_free [OF assms] by auto

end

end
