(* ===== verification/Kring.thy ===== *)
theory Kring
  imports Prelude
begin

section \<open>The kernel log ring\<close>

text \<open>
  Model of \<^verbatim>\<open>kernel/src/kring.rs\<close>: a static array of 256 entries of 128 bytes, a write
  index and a count. An entry is overwritten in place, so bytes beyond its length are stale.
\<close>

definition RING_SIZE :: nat where "RING_SIZE = 256"

definition ENTRY_LEN :: nat where "ENTRY_LEN = 128"

record LogEntry =
  level :: u8
  len :: nat
  data :: "u8 list"

definition EMPTY :: LogEntry where
  "EMPTY = \<lparr>level = 0, len = 0, data = replicate ENTRY_LEN 0\<rparr>"

text \<open>\<open>as_bytes\<close> is the slice that \<^verbatim>\<open>as_str\<close> decodes.\<close>

definition as_bytes :: "LogEntry \<Rightarrow> u8 list" where
  "as_bytes e = take (len e) (data e)"

record KernelRing =
  buf :: "LogEntry list"
  head :: nat
  count :: nat

definition kring_new :: KernelRing where
  "kring_new = \<lparr>buf = replicate RING_SIZE EMPTY, head = 0, count = 0\<rparr>"

definition write_entry :: "u8 \<Rightarrow> u8 list \<Rightarrow> LogEntry \<Rightarrow> LogEntry" where
  "write_entry lvl msg e =
     (let n = min (length msg) ENTRY_LEN
      in e\<lparr>level := lvl, data := take n msg @ drop n (data e), len := n\<rparr>)"

definition kring_push :: "u8 \<times> u8 list \<Rightarrow> KernelRing \<Rightarrow> KernelRing" where
  "kring_push m r =
     (let e = write_entry (fst m) (snd m) (buf r ! head r)
      in r\<lparr>buf := (buf r)[head r := e],
           head := (head r + 1) mod RING_SIZE,
           count := (if count r < RING_SIZE then count r + 1 else count r)\<rparr>)"

definition kring_iter :: "KernelRing \<Rightarrow> LogEntry list" where
  "kring_iter r =
     (let start = (if count r = RING_SIZE then head r else 0)
      in map (\<lambda>i. buf r ! ((start + i) mod RING_SIZE)) [0..<count r])"

text \<open>What a reader of the log sees: levels and message bytes, oldest first.\<close>

definition kring_view :: "KernelRing \<Rightarrow> (u8 \<times> u8 list) list" where
  "kring_view r = map (\<lambda>e. (level e, as_bytes e)) (kring_iter r)"

definition kring_obs :: "u8 \<times> u8 list \<Rightarrow> u8 \<times> u8 list" where
  "kring_obs m = (fst m, take ENTRY_LEN (snd m))"

definition kring_inv :: "KernelRing \<Rightarrow> bool" where
  "kring_inv r \<longleftrightarrow> length (buf r) = RING_SIZE \<and> ring_inv (buf r) (head r) (count r) \<and>
     (\<forall>e \<in> set (buf r). length (data e) = ENTRY_LEN \<and> len e \<le> ENTRY_LEN)"

lemma kring_iter_ring_view:
  "kring_inv r \<Longrightarrow> kring_iter r = ring_view (buf r) (head r) (count r)"
  by (simp add: kring_iter_def ring_view_def kring_inv_def)

lemma kring_push_ring_push:
  "kring_inv r \<Longrightarrow>
     ring_push (write_entry (fst m) (snd m) (buf r ! head r)) (buf r) (head r) (count r) =
     (buf (kring_push m r), head (kring_push m r), count (kring_push m r))"
  by (simp add: ring_push_def kring_push_def kring_inv_def Let_def)

lemma kring_inv_new [kinv]: "kring_inv kring_new"
  by (simp add: kring_inv_def kring_new_def ring_inv_def RING_SIZE_def EMPTY_def)

lemma kring_head_data:
  assumes "kring_inv r"
  shows "length (data (buf r ! head r)) = ENTRY_LEN"
proof -
  have "buf r ! head r \<in> set (buf r)" using assms by (simp add: kring_inv_def ring_inv_def)
  then show ?thesis using assms by (simp add: kring_inv_def)
qed

lemma kring_inv_push [kinv]:
  assumes "kring_inv r"
  shows "kring_inv (kring_push m r)"
proof -
  let ?e = "write_entry (fst m) (snd m) (buf r ! head r)"
  have "length (data ?e) = ENTRY_LEN \<and> len ?e \<le> ENTRY_LEN"
    using kring_head_data [OF assms] by (simp add: write_entry_def Let_def)
  moreover have "buf (kring_push m r) = (buf r)[head r := ?e]"
    by (simp add: kring_push_def Let_def)
  moreover have "ring_inv (buf (kring_push m r)) (head (kring_push m r)) (count (kring_push m r))"
    using ring_inv_push [OF _ kring_push_ring_push [OF assms]] assms by (simp add: kring_inv_def)
  ultimately show ?thesis
    using assms by (auto simp: kring_inv_def dest!: set_update_subset_insert [THEN subsetD])
qed

lemma write_entry_obs:
  "length (data e) = ENTRY_LEN \<Longrightarrow>
     (level (write_entry l msg e), as_bytes (write_entry l msg e)) = kring_obs (l, msg)"
  by (auto simp: write_entry_def as_bytes_def kring_obs_def Let_def min_def)

lemma kring_view_push:
  assumes "kring_inv r"
  shows "kring_view (kring_push m r) =
         drop (length (kring_view r) + 1 - RING_SIZE) (kring_view r @ [kring_obs m])"
proof -
  let ?e = "write_entry (fst m) (snd m) (buf r ! head r)"
  have "kring_iter (kring_push m r) =
        drop (length (kring_iter r) + 1 - RING_SIZE) (kring_iter r @ [?e])"
    using ring_view_push [OF _ kring_push_ring_push [OF assms]] assms
    by (simp add: kring_iter_ring_view kring_inv_push) (simp add: kring_inv_def)
  then show ?thesis
    using write_entry_obs [OF kring_head_data [OF assms], of "fst m" "snd m"]
    by (simp add: kring_view_def drop_map [symmetric])
qed

interpretation klog: bounded_log kring_push kring_view kring_obs kring_inv RING_SIZE
proof unfold_locales
  fix r :: KernelRing
  assume "kring_inv r"
  then show "length (kring_view r) \<le> RING_SIZE"
    by (simp add: kring_view_def kring_iter_def kring_inv_def ring_inv_def)
qed (simp_all add: kring_inv_push kring_view_push)

text \<open>C21: after any sequence of log calls the iterator yields exactly the last 256 messages,
  oldest first, each cut to its first 128 bytes.\<close>

theorem kring_keeps_last_messages:
  "kring_view (fold kring_push ms kring_new) =
     drop (length ms - 256) (map (\<lambda>(l, msg). (l, take 128 msg)) ms)"
proof -
  have "kring_view kring_new = []" by (simp add: kring_view_def kring_iter_def kring_new_def)
  moreover have "kring_obs = (\<lambda>(l, msg). (l, take 128 msg))"
    by (auto simp: fun_eq_iff kring_obs_def ENTRY_LEN_def)
  ultimately show ?thesis using klog.view_fold [OF kring_inv_new, of ms]
    by (simp add: RING_SIZE_def)
qed

end
