(* ===== verification/Pmm.thy ===== *)
theory Pmm
  imports Prelude
begin

section \<open>The physical memory manager\<close>

text \<open>
  Model of \<^verbatim>\<open>kernel/src/memory/pmm.rs\<close>: a buddy allocator with one intrusive free list per
  order. The list nodes live in the free blocks themselves; \<open>mem\<close> is the memory as the
  kernel addresses it, a 64-bit cell per (virtual) address, and a node of physical address
  \<open>a\<close> is at \<open>phys_offset + a\<close>. Address 0 is the null link. \<open>free_space\<close> is the set of free
  byte addresses the lists describe; the lemmas show every operation against that set.
\<close>

definition PAGE_SIZE :: u64 where "PAGE_SIZE = 4096"

definition MAX_ORDER :: nat where "MAX_ORDER = 11"

record BuddyAllocator =
  free_lists :: "u64 list"
  free_pages :: nat
  total_pages :: nat
  phys_offset :: u64
  mem :: "u64 \<Rightarrow> u64"

definition buddy_new :: "(u64 \<Rightarrow> u64) \<Rightarrow> BuddyAllocator" where
  "buddy_new m = \<lparr>free_lists = replicate MAX_ORDER 0, free_pages = 0, total_pages = 0,
     phys_offset = 0, mem = m\<rparr>"

definition block_size :: "nat \<Rightarrow> u64" where
  "block_size order = push_bit order PAGE_SIZE"

text \<open>The \<open>next\<close> field of the \<^verbatim>\<open>FreeNode\<close> at a physical address.\<close>

definition node_next :: "BuddyAllocator \<Rightarrow> u64 \<Rightarrow> u64" where
  "node_next s a = mem s (phys_offset s + a)"

definition push_free :: "u64 \<Rightarrow> nat \<Rightarrow> BuddyAllocator \<Rightarrow> BuddyAllocator" where
  "push_free addr order s =
     s\<lparr>mem := (mem s)(phys_offset s + addr := free_lists s ! order),
       free_lists := (free_lists s)[order := addr]\<rparr>"

text \<open>
  The pointer \<^verbatim>\<open>prev_next\<close> of \<^verbatim>\<open>remove_free\<close> is a list head or the link of a node. The walk
  follows links in memory and would not return on a cyclic list: \<open>None\<close> is not returning.
\<close>

datatype slot = Head nat | Link u64

fun write_slot :: "slot \<Rightarrow> u64 \<Rightarrow> BuddyAllocator \<Rightarrow> BuddyAllocator" where
  "write_slot (Head order) v s = s\<lparr>free_lists := (free_lists s)[order := v]\<rparr>"
| "write_slot (Link a) v s = s\<lparr>mem := (mem s)(phys_offset s + a := v)\<rparr>"

partial_function (option) remove_free_loop ::
  "u64 \<Rightarrow> slot \<Rightarrow> u64 \<Rightarrow> BuddyAllocator \<Rightarrow> (bool \<times> BuddyAllocator) option" where
  "remove_free_loop target prev_next cur s =
     (if cur = 0 then Some (False, s)
      else if cur = target then Some (True, write_slot prev_next (node_next s cur) s)
      else remove_free_loop target (Link cur) (node_next s cur) s)"

definition remove_free :: "u64 \<Rightarrow> nat \<Rightarrow> BuddyAllocator \<Rightarrow> (bool \<times> BuddyAllocator) option" where
  "remove_free target order s = remove_free_loop target (Head order) (free_lists s ! order) s"

text \<open>\<^verbatim>\<open>alloc_order\<close>: the smallest non-empty list, its first block, and the splitting loop.\<close>

definition find_order :: "nat \<Rightarrow> BuddyAllocator \<Rightarrow> nat option" where
  "find_order order s = List.find (\<lambda>o'. free_lists s ! o' \<noteq> 0) [order..<MAX_ORDER]"

fun split_down :: "u64 \<Rightarrow> nat \<Rightarrow> nat \<Rightarrow> BuddyAllocator \<Rightarrow> BuddyAllocator" where
  "split_down addr order 0 s = s"
| "split_down addr order (Suc c) s =
     (if order < Suc c then split_down addr order c (push_free (addr + block_size c) c s) else s)"

definition alloc_order :: "nat \<Rightarrow> BuddyAllocator \<Rightarrow> (u64 \<times> BuddyAllocator) option" where
  "alloc_order order s =
     (if MAX_ORDER \<le> order then None
      else case find_order order s of
        None \<Rightarrow> None
      | Some found \<Rightarrow>
          (let addr = free_lists s ! found;
               s1 = s\<lparr>free_lists := (free_lists s)[found := node_next s addr]\<rparr>;
               s2 = split_down addr order found s1
           in Some (addr, s2\<lparr>free_pages := free_pages s2 - 2 ^ order\<rparr>)))"

text \<open>\<^verbatim>\<open>free_order\<close>: the merging loop returns the final order, which the page count uses.\<close>

function free_order_loop ::
  "u64 \<Rightarrow> nat \<Rightarrow> BuddyAllocator \<Rightarrow> (nat \<times> BuddyAllocator) option" where
  "free_order_loop addr order s =
     (if MAX_ORDER - 1 \<le> order then Some (order, push_free addr order s)
      else case remove_free (addr XOR block_size order) order s of
        None \<Rightarrow> None
      | Some (True, s') \<Rightarrow> free_order_loop (min addr (addr XOR block_size order)) (order + 1) s'
      | Some (False, s') \<Rightarrow> Some (order, push_free addr order s'))"
  by pat_completeness auto
termination
  by (relation "measure (\<lambda>(addr, order, s). MAX_ORDER - order)") auto

declare free_order_loop.simps [simp del]

definition free_order :: "u64 \<Rightarrow> nat \<Rightarrow> BuddyAllocator \<Rightarrow> BuddyAllocator rust option" where
  "free_order addr order s =
     (if MAX_ORDER \<le> order then Some (Inl IndexOutOfBounds)
      else case free_order_loop addr order s of
        None \<Rightarrow> None
      | Some (order', s') \<Rightarrow>
          Some (Inr (s'\<lparr>free_pages := free_pages s' + 2 ^ min order' (MAX_ORDER - 1)\<rparr>)))"

text \<open>\<^verbatim>\<open>add_region\<close>: the largest aligned block that fits, repeatedly.\<close>

definition align_up :: "u64 \<Rightarrow> u64" where
  "align_up start = (start + PAGE_SIZE - 1) AND NOT (PAGE_SIZE - 1)"

definition align_down :: "u64 \<Rightarrow> u64" where
  "align_down end_addr = end_addr AND NOT (PAGE_SIZE - 1)"

fun pick_order :: "u64 \<Rightarrow> u64 \<Rightarrow> nat \<Rightarrow> nat" where
  "pick_order addr end_aligned 0 = 0"
| "pick_order addr end_aligned (Suc order) =
     (if block_size (Suc order) \<le> end_aligned - addr \<and>
         addr AND (block_size (Suc order) - 1) = 0
      then Suc order else pick_order addr end_aligned order)"

partial_function (option) add_region_loop ::
  "u64 \<Rightarrow> u64 \<Rightarrow> BuddyAllocator \<Rightarrow> BuddyAllocator option" where
  "add_region_loop addr end_aligned s =
     (if addr + PAGE_SIZE \<le> end_aligned
      then let order = pick_order addr end_aligned (MAX_ORDER - 1);
               s1 = push_free addr order s
           in add_region_loop (addr + block_size order) end_aligned
                (s1\<lparr>total_pages := total_pages s1 + 2 ^ order\<rparr>)
      else Some s)"

definition add_region :: "u64 \<Rightarrow> u64 \<Rightarrow> BuddyAllocator \<Rightarrow> BuddyAllocator option" where
  "add_region start end_addr s =
     map_option (\<lambda>s'. s'\<lparr>free_pages := total_pages s'\<rparr>)
       (add_region_loop (align_up start) (align_down end_addr) s)"

text \<open>\<^verbatim>\<open>init\<close>: the regions of the boot map; the flag is whether the kind is \<^verbatim>\<open>Usable\<close>.\<close>

fun pmm_add_regions :: "(u64 \<times> u64 \<times> bool) list \<Rightarrow> BuddyAllocator \<Rightarrow> BuddyAllocator option" where
  "pmm_add_regions [] s = Some s"
| "pmm_add_regions ((start, end_addr, usable) # rs) s =
     (if usable then (case add_region start end_addr s of
                        None \<Rightarrow> None | Some s' \<Rightarrow> pmm_add_regions rs s')
      else pmm_add_regions rs s)"

definition pmm_init :: "(u64 \<times> u64 \<times> bool) list \<Rightarrow> u64 \<Rightarrow> BuddyAllocator \<Rightarrow> BuddyAllocator option" where
  "pmm_init regions phys_off s = pmm_add_regions regions (s\<lparr>phys_offset := phys_off\<rparr>)"

definition alloc_frame :: "BuddyAllocator \<Rightarrow> (u64 \<times> BuddyAllocator) option" where
  "alloc_frame s = alloc_order 0 s"

definition alloc_frames :: "nat \<Rightarrow> BuddyAllocator \<Rightarrow> (u64 \<times> BuddyAllocator) option" where
  "alloc_frames order s = alloc_order order s"

definition free_frame :: "u64 \<Rightarrow> BuddyAllocator \<Rightarrow> BuddyAllocator rust option" where
  "free_frame addr s = free_order addr 0 s"

definition free_frames :: "u64 \<Rightarrow> nat \<Rightarrow> BuddyAllocator \<Rightarrow> BuddyAllocator rust option" where
  "free_frames addr order s = free_order addr order s"

definition free_bytes :: "BuddyAllocator \<Rightarrow> u64" where
  "free_bytes s = of_nat (free_pages s) * PAGE_SIZE"

subsection \<open>The free lists as lists\<close>

primrec chain :: "(u64 \<Rightarrow> u64) \<Rightarrow> u64 \<Rightarrow> u64 list \<Rightarrow> bool" where
  "chain n h [] \<longleftrightarrow> h = 0"
| "chain n h (a # as) \<longleftrightarrow> a \<noteq> 0 \<and> h = a \<and> chain n (n a) as"

lemma chain_upd [simp]: "a \<notin> set xs \<Longrightarrow> chain (n(a := v)) h xs = chain n h xs"
  by (induction xs arbitrary: h) auto

lemma chain_unique: "chain n h xs \<Longrightarrow> chain n h ys \<Longrightarrow> xs = ys"
proof (induction xs arbitrary: h ys)
  case Nil
  then show ?case by (cases ys) auto
next
  case (Cons a xs)
  then show ?case by (cases ys) auto
qed

lemma chain_append: "chain n h (xs @ ys) \<Longrightarrow> \<exists>m. chain n m ys"
  by (induction xs arbitrary: h) auto

lemma chain_nonzero: "chain n h xs \<Longrightarrow> 0 \<notin> set xs"
  by (induction xs arbitrary: h) auto

lemma chain_distinct: "chain n h xs \<Longrightarrow> distinct xs"
proof (induction xs arbitrary: h)
  case (Cons a xs)
  have "a \<notin> set xs"
  proof
    assume "a \<in> set xs"
    then obtain us vs where xs: "xs = us @ a # vs" by (auto dest: split_list)
    with Cons.prems obtain m where "chain n m (a # vs)" by (auto dest: chain_append)
    then have "chain n (n a) vs" by simp
    with Cons.prems have "vs = xs" by (auto dest: chain_unique)
    with xs show False by simp
  qed
  with Cons show ?case by auto
qed simp

definition on_list :: "BuddyAllocator \<Rightarrow> nat \<Rightarrow> u64 \<Rightarrow> bool" where
  "on_list s order a \<longleftrightarrow> (\<exists>xs. chain (node_next s) (free_lists s ! order) xs \<and> a \<in> set xs)"

definition span :: "u64 \<Rightarrow> nat \<Rightarrow> nat set" where
  "span a order = {unat a ..< unat a + 2 ^ (12 + order)}"

definition space :: "(u64 \<times> nat) set \<Rightarrow> nat set" where
  "space B = (\<Union>x \<in> B. span (fst x) (snd x))"

definition free_space :: "BuddyAllocator \<Rightarrow> nat set" where
  "free_space s = space {(a, order). order < MAX_ORDER \<and> on_list s order a}"

definition block_ok :: "u64 \<Rightarrow> nat \<Rightarrow> bool" where
  "block_ok a order \<longleftrightarrow> a \<noteq> 0 \<and> order < MAX_ORDER \<and> take_bit (12 + order) a = 0"

definition repr :: "BuddyAllocator \<Rightarrow> u64 list list \<Rightarrow> bool" where
  "repr s L \<longleftrightarrow> length (free_lists s) = MAX_ORDER \<and> length L = MAX_ORDER \<and>
     (\<forall>o' < MAX_ORDER. chain (node_next s) (free_lists s ! o') (L ! o'))"

definition blocks :: "u64 list list \<Rightarrow> (u64 \<times> nat) set" where
  "blocks L = {(a, o'). o' < length L \<and> a \<in> set (L ! o')}"

definition wf_blocks :: "(u64 \<times> nat) set \<Rightarrow> bool" where
  "wf_blocks B \<longleftrightarrow> (\<forall>x \<in> B. block_ok (fst x) (snd x)) \<and>
     (\<forall>x \<in> B. \<forall>y \<in> B. x \<noteq> y \<longrightarrow> span (fst x) (snd x) \<inter> span (fst y) (snd y) = {})"

definition pmm_inv :: "BuddyAllocator \<Rightarrow> bool" where
  "pmm_inv s \<longleftrightarrow> (\<exists>L. repr s L \<and> wf_blocks (blocks L))"

lemma repr_on_list:
  assumes "repr s L" and "o' < MAX_ORDER"
  shows "on_list s o' a \<longleftrightarrow> a \<in> set (L ! o')"
proof -
  have "chain (node_next s) (free_lists s ! o') (L ! o')" using assms by (simp add: repr_def)
  then show ?thesis unfolding on_list_def using chain_unique by blast
qed

lemma repr_free_space:
  assumes "repr s L"
  shows "free_space s = space (blocks L)"
proof -
  have "length L = MAX_ORDER" using assms by (simp add: repr_def)
  then have "blocks L = {(a, o'). o' < MAX_ORDER \<and> on_list s o' a}"
    by (auto simp: blocks_def repr_on_list [OF assms])
  then show ?thesis by (simp add: free_space_def)
qed

lemma wf_blocks_disjoint:
  "wf_blocks B \<Longrightarrow> x \<in> B \<Longrightarrow> y \<in> B \<Longrightarrow> x \<noteq> y \<Longrightarrow>
     span (fst x) (snd x) \<inter> span (fst y) (snd y) = {}"
  by (simp add: wf_blocks_def)

lemma wf_blocks_ok: "wf_blocks B \<Longrightarrow> (a, o') \<in> B \<Longrightarrow> block_ok a o'"
  by (auto simp: wf_blocks_def)

lemma wf_blocks_subset: "wf_blocks B \<Longrightarrow> C \<subseteq> B \<Longrightarrow> wf_blocks C"
  unfolding wf_blocks_def by (meson subsetD)

text \<open>One address is on one list only.\<close>

lemma wf_blocks_one_list:
  assumes "wf_blocks B" and "(a, o') \<in> B" and "(a, p) \<in> B"
  shows "o' = p"
proof (rule ccontr)
  assume "o' \<noteq> p"
  then have "span a o' \<inter> span a p = {}" using wf_blocks_disjoint [OF assms] by simp
  moreover have "unat a \<in> span a o' \<inter> span a p" by (simp add: span_def)
  ultimately show False by simp
qed

lemma space_insert [simp]: "space (insert (a, o') B) = span a o' \<union> space B"
  by (simp add: space_def)

lemma span_subset_space: "(a, o') \<in> B \<Longrightarrow> span a o' \<subseteq> space B"
  by (force simp: space_def)

lemma wf_blocks_insert:
  assumes "wf_blocks B" and "block_ok a o'" and "span a o' \<inter> space B = {}"
  shows "wf_blocks (insert (a, o') B)"
proof -
  have "span a o' \<inter> span (fst x) (snd x) = {}" if "x \<in> B" for x
    using assms(3) that by (auto simp: space_def)
  then show ?thesis using assms(1,2) by (auto simp: wf_blocks_def)
qed

lemma space_remove:
  assumes "wf_blocks B" and "(a, o') \<in> B"
  shows "space (B - {(a, o')}) = space B - span a o'"
proof -
  have "span a o' \<inter> span (fst x) (snd x) = {}" if "x \<in> B - {(a, o')}" for x
    using wf_blocks_disjoint [OF assms, of x] that by auto
  then have "span a o' \<inter> space (B - {(a, o')}) = {}" by (auto simp: space_def)
  moreover have "space B = span a o' \<union> space (B - {(a, o')})"
    using assms(2) space_insert [of a o' "B - {(a, o')}"] by (simp add: insert_absorb)
  ultimately show ?thesis by blast
qed

lemma not_on_any_list:
  assumes "span a o' \<inter> space B = {}"
  shows "(a, p) \<notin> B"
proof
  assume "(a, p) \<in> B"
  then have "unat a \<in> space B" by (force simp: space_def span_def)
  moreover have "unat a \<in> span a o'" by (simp add: span_def)
  ultimately show False using assms by blast
qed

subsection \<open>Links in memory\<close>

lemma node_next_store:
  "node_next (s\<lparr>mem := (mem s)(phys_offset s + a := v)\<rparr>) = (node_next s)(a := v)"
  by (auto simp: node_next_def fun_eq_iff)

lemma node_next_push [simp]:
  "node_next (push_free a o' s) = (node_next s)(a := free_lists s ! o')"
  by (auto simp: push_free_def node_next_def fun_eq_iff)

lemma free_lists_push [simp]: "free_lists (push_free a o' s) = (free_lists s)[o' := a]"
  by (simp add: push_free_def)

lemma node_next_cong [simp]:
  "node_next (s\<lparr>free_lists := fl\<rparr>) = node_next s"
  "node_next (s\<lparr>free_pages := n\<rparr>) = node_next s"
  "node_next (s\<lparr>total_pages := n\<rparr>) = node_next s"
  by (auto simp: node_next_def fun_eq_iff)

lemma push_free_counts [kframe, simp]:
  "free_pages (push_free a o' s) = free_pages s"
  "total_pages (push_free a o' s) = total_pages s"
  "phys_offset (push_free a o' s) = phys_offset s"
  by (simp_all add: push_free_def)

lemma repr_counts [simp]:
  "repr (s\<lparr>free_pages := n\<rparr>) L = repr s L"
  "repr (s\<lparr>total_pages := n\<rparr>) L = repr s L"
  by (simp_all add: repr_def)

lemma blocks_push:
  "o' < length L \<Longrightarrow> blocks (L[o' := a # L ! o']) = insert (a, o') (blocks L)"
  by (auto simp: blocks_def nth_list_update split: if_splits)

lemma repr_length: "repr s L \<Longrightarrow> length L = MAX_ORDER"
  by (simp add: repr_def)

lemma repr_chain:
  "repr s L \<Longrightarrow> o' < MAX_ORDER \<Longrightarrow> chain (node_next s) (free_lists s ! o') (L ! o')"
  by (simp add: repr_def)

lemma repr_update:
  assumes "repr s L" and "o' < MAX_ORDER" and "length (free_lists t) = MAX_ORDER"
    and "chain (node_next t) (free_lists t ! o') xs"
    and "\<And>p. p < MAX_ORDER \<Longrightarrow> p \<noteq> o' \<Longrightarrow> chain (node_next t) (free_lists t ! p) (L ! p)"
  shows "repr t (L[o' := xs])"
  using assms by (simp add: repr_def nth_list_update)

lemma repr_push:
  assumes "repr s L" and "o' < MAX_ORDER" and "a \<noteq> 0" and "\<And>p. (a, p) \<notin> blocks L"
  shows "repr (push_free a o' s) (L[o' := a # L ! o'])"
proof -
  have "a \<notin> set (L ! p)" if "p < MAX_ORDER" for p
    using assms(1,4) that by (auto simp: repr_def blocks_def)
  then show ?thesis using assms(1-3) by (auto simp: repr_def nth_list_update)
qed

lemma repr_head:
  assumes "repr s L" and "o' < MAX_ORDER"
  shows "free_lists s ! o' = (case L ! o' of [] \<Rightarrow> 0 | a # _ \<Rightarrow> a)"
  using repr_chain [OF assms] by (cases "L ! o'") auto

lemma repr_pop:
  assumes "repr s L" and "o' < MAX_ORDER" and "L ! o' = a # xs"
  shows "repr (s\<lparr>free_lists := (free_lists s)[o' := node_next s a]\<rparr>) (L[o' := xs])"
  using assms repr_chain [OF assms(1,2)]
  by (intro repr_update [OF assms(1,2)]) (auto simp: repr_def)

lemma blocks_remove:
  assumes "o' < length L" and "distinct (L ! o')"
  shows "blocks (L[o' := remove1 t (L ! o')]) = blocks L - {(t, o')}"
  using assms by (auto simp: blocks_def nth_list_update split: if_splits)

lemma blocks_pop:
  assumes "repr s L" and "o' < MAX_ORDER" and "L ! o' = a # xs"
  shows "blocks (L[o' := xs]) = blocks L - {(a, o')}"
  using blocks_remove [of o' L a] chain_distinct [OF repr_chain [OF assms(1,2)]]
    repr_length [OF assms(1)] assms(2,3) by simp

text \<open>Unlinking a node in the middle of a list.\<close>

lemma chain_unlink:
  assumes "chain n h (us @ t # zs)" and "us \<noteq> []"
  shows "chain (n(last us := n t)) h (us @ zs)"
  using assms
proof (induction us arbitrary: h)
  case (Cons u us)
  have dist: "distinct (u # us @ t # zs)" using chain_distinct [OF Cons.prems(1)] by simp
  show ?case
  proof (cases "us = []")
    case True
    then have "chain (n(u := n t)) (n t) zs" using Cons.prems dist by simp
    then show ?thesis using True Cons.prems by (simp add: fun_upd_def)
  next
    case False
    then have "u \<noteq> last us" using dist by (metis append_Cons distinct.simps(2) in_set_conv_decomp last_in_set Un_iff set_append)
    then show ?thesis using Cons False by simp
  qed
qed simp

lemma chain_next:
  "chain n h (us @ v # vs) \<Longrightarrow> n v = (case vs of [] \<Rightarrow> 0 | w # _ \<Rightarrow> w)"
  by (induction us arbitrary: h) (auto split: list.splits)

definition prev_slot :: "nat \<Rightarrow> u64 list \<Rightarrow> slot" where
  "prev_slot o' us = (if us = [] then Head o' else Link (last us))"

lemma repr_unlink:
  assumes "repr s L" and "wf_blocks (blocks L)" and "o' < MAX_ORDER" and "L ! o' = us @ t # zs"
  shows "repr (write_slot (prev_slot o' us) (node_next s t) s) (L[o' := us @ zs])"
proof (cases "us = []")
  case True
  then show ?thesis using repr_pop [OF assms(1,3), of t zs] assms(4) by (simp add: prev_slot_def)
next
  case False
  note len = repr_length [OF assms(1)]
  have fl: "length (free_lists s) = MAX_ORDER" using assms(1) by (simp add: repr_def)
  have "(last us, o') \<in> blocks L" using False assms(3,4) len by (simp add: blocks_def)
  then have "(last us, p) \<notin> blocks L" if "p \<noteq> o'" for p
    using wf_blocks_one_list [OF assms(2)] that by blast
  then have "last us \<notin> set (L ! p)" if "p < MAX_ORDER" "p \<noteq> o'" for p
    using that len by (auto simp: blocks_def)
  moreover have "chain (node_next s) (free_lists s ! o') (us @ t # zs)"
    using repr_chain [OF assms(1,3)] assms(4) by simp
  ultimately show ?thesis using False fl repr_chain [OF assms(1)]
    by (intro repr_update [OF assms(1,3)]) (simp_all add: prev_slot_def node_next_store chain_unlink)
qed

lemma write_slot_counts [kframe, simp]:
  "free_pages (write_slot sl v s) = free_pages s"
  "total_pages (write_slot sl v s) = total_pages s"
  "phys_offset (write_slot sl v s) = phys_offset s"
  by (cases sl; simp)+

lemma remove_free_loop_correct:
  assumes "repr s L" and "wf_blocks (blocks L)" and "o' < MAX_ORDER"
    and "L ! o' = us @ vs" and "t \<notin> set us"
  shows "\<exists>s'. remove_free_loop t (prev_slot o' us) (case vs of [] \<Rightarrow> 0 | v # _ \<Rightarrow> v) s =
           Some (t \<in> set vs, s') \<and> repr s' (L[o' := us @ remove1 t vs]) \<and>
           free_pages s' = free_pages s"
  using assms(4,5)
proof (induction vs arbitrary: us)
  case Nil
  then have "L[o' := us] = L" by (metis append_Nil2 list_update_id)
  then show ?case using assms(1) by (simp add: remove_free_loop.simps)
next
  case (Cons v vs)
  have ch: "chain (node_next s) (free_lists s ! o') (us @ v # vs)"
    using repr_chain [OF assms(1,3)] Cons.prems(1) by simp
  then have v0: "v \<noteq> 0" using chain_nonzero by fastforce
  show ?case
  proof (cases "v = t")
    case True
    then show ?thesis using v0 repr_unlink [OF assms(1-3) Cons.prems(1)]
      by (simp add: remove_free_loop.simps)
  next
    case False
    have "remove_free_loop t (prev_slot o' us) v s =
          remove_free_loop t (prev_slot o' (us @ [v])) (case vs of [] \<Rightarrow> 0 | v # _ \<Rightarrow> v) s"
      using v0 False chain_next [OF ch]
      by (subst remove_free_loop.simps) (simp add: prev_slot_def)
    then show ?thesis using Cons.IH [of "us @ [v]"] Cons.prems False by simp
  qed
qed

lemma remove_free_correct:
  assumes "repr s L" and "wf_blocks (blocks L)" and "o' < MAX_ORDER"
  shows "\<exists>s'. remove_free t o' s = Some ((t, o') \<in> blocks L, s') \<and>
           repr s' (L[o' := remove1 t (L ! o')]) \<and> free_pages s' = free_pages s"
  using remove_free_loop_correct [OF assms, of "[]" "L ! o'" t] repr_head [OF assms(1,3)]
    repr_length [OF assms(1)] assms(3)
  by (simp add: remove_free_def prev_slot_def blocks_def)

subsection \<open>Splitting and merging blocks\<close>

lemma block_size_eq: "block_size o' = push_bit (12 + o') 1"
  by (simp add: block_size_def PAGE_SIZE_def push_bit_eq_mult power_add)

lemma span_Suc: "span a (Suc c) = {unat a ..< unat a + (2 ^ (12 + c) + 2 ^ (12 + c))}"
  by (simp add: span_def power_add)

lemma block_halves:
  assumes "block_ok a (Suc c)"
  shows "unat (a + block_size c) = unat a + 2 ^ (12 + c)"
    and "span a (Suc c) = span a c \<union> span (a + block_size c) c"
    and "span a c \<inter> span (a + block_size c) c = {}"
    and "block_ok a c"
    and "block_ok (a + block_size c) c"
proof -
  have n: "Suc (12 + c) \<le> 64" and al: "take_bit (Suc (12 + c)) a = 0" and a0: "a \<noteq> 0"
    using assms by (simp_all add: block_ok_def MAX_ORDER_def)
  show u: "unat (a + block_size c) = unat a + 2 ^ (12 + c)"
    using unat_add_block [OF al n] by (simp only: block_size_eq)
  then show "span a (Suc c) = span a c \<union> span (a + block_size c) c"
    and "span a c \<inter> span (a + block_size c) c = {}"
    unfolding span_Suc by (auto simp: span_def)
  have "2 ^ (12 + c) dvd unat a" using al aligned_dvd [of "Suc (12 + c)" a]
    by (metis dvd_trans le_imp_power_dvd le_SucI order_refl)
  then have al': "take_bit (12 + c) a = 0" "take_bit (12 + c) (a + block_size c) = 0"
    using aligned_dvd u by auto
  have "a + block_size c \<noteq> 0" using u by (metis add_is_0 power_not_zero unat_0 zero_neq_numeral)
  then show "block_ok a c" and "block_ok (a + block_size c) c"
    using assms al' a0 by (simp_all add: block_ok_def)
qed

text \<open>The buddy of a block: the other half of the block of the next order.\<close>

lemma block_merge:
  fixes a :: u64 and c :: nat
  defines "b \<equiv> a XOR block_size c"
  assumes "block_ok a c" and "b \<noteq> 0" and "Suc c < MAX_ORDER"
  shows "block_ok (min a b) (Suc c)"
    and "span (min a b) (Suc c) = span a c \<union> span b c"
proof -
  have n: "Suc (12 + c) \<le> 64" and al: "take_bit (12 + c) a = 0" and a0: "a \<noteq> 0"
    using assms by (simp_all add: block_ok_def MAX_ORDER_def)
  have b: "b = a XOR push_bit (12 + c) 1" by (simp only: b_def block_size_eq)
  note cases = buddy_cases [OF al n, folded b]
  then show "block_ok (min a b) (Suc c)" using a0 assms(3,4) by (auto simp: block_ok_def)
  from cases show "span (min a b) (Suc c) = span a c \<union> span b c"
    unfolding span_Suc by (auto simp: span_def)
qed

lemma split_down_correct:
  assumes "repr s L" and "wf_blocks (blocks L)" and "block_ok a c"
    and "span a c \<inter> space (blocks L) = {}" and "order \<le> c"
  shows "\<exists>L'. repr (split_down a order c s) L' \<and> wf_blocks (blocks L') \<and>
           space (blocks L') = space (blocks L) \<union> (span a c - span a order) \<and>
           span a order \<subseteq> span a c \<and> block_ok a order"
  using assms
proof (induction a order c s arbitrary: L rule: split_down.induct)
  case (2 a order c s)
  show ?case
  proof (cases "order < Suc c")
    case True
    note h = block_halves [OF "2.prems"(3)]
    let ?b = "a + block_size c"
    let ?L = "L[c := ?b # L ! c]"
    have c: "c < MAX_ORDER" and b0: "?b \<noteq> 0" using h(5) by (simp_all add: block_ok_def)
    have out: "span ?b c \<inter> space (blocks L) = {}" "span a c \<inter> space (blocks L) = {}"
      using "2.prems"(4) h(2) by auto
    have bl: "blocks ?L = insert (?b, c) (blocks L)"
      using blocks_push [of c L ?b] repr_length [OF "2.prems"(1)] c by simp
    have "repr (push_free ?b c s) ?L"
      by (rule repr_push [OF "2.prems"(1) c b0]) (rule not_on_any_list [OF out(1)])
    moreover have "wf_blocks (blocks ?L)"
      unfolding bl by (rule wf_blocks_insert [OF "2.prems"(2) h(5) out(1)])
    moreover have "span a c \<inter> space (blocks ?L) = {}" using bl h(3) out by auto
    ultimately obtain L' where "repr (split_down a order c (push_free ?b c s)) L'"
      and "wf_blocks (blocks L')"
      and "space (blocks L') = space (blocks ?L) \<union> (span a c - span a order)"
      and sub: "span a order \<subseteq> span a c" and "block_ok a order"
      using "2.IH" [OF True, of ?L] h(4) True by auto
    then show ?thesis using True bl h(2,3) sub by (intro exI [of _ L']) auto
  next
    case False
    then have "order = Suc c" using "2.prems"(5) by simp
    then show ?thesis using False "2.prems" by (intro exI [of _ L]) simp
  qed
qed auto

lemma find_order_Some:
  assumes "repr s L" and "find_order order s = Some f"
  shows "order \<le> f" and "f < MAX_ORDER" and "\<exists>a xs. L ! f = a # xs \<and> free_lists s ! f = a"
proof -
  from assms(2) have f: "f \<in> set [order..<MAX_ORDER]" and nz: "free_lists s ! f \<noteq> 0"
    by (auto simp: find_order_def find_Some_iff)
  then show "order \<le> f" and "f < MAX_ORDER" by auto
  then show "\<exists>a xs. L ! f = a # xs \<and> free_lists s ! f = a"
    using repr_head [OF assms(1), of f] nz by (cases "L ! f") auto
qed

lemma find_order_None:
  assumes "repr s L"
  shows "find_order order s = None \<longleftrightarrow> (\<forall>p. order \<le> p \<and> p < MAX_ORDER \<longrightarrow> L ! p = [])"
proof -
  have "free_lists s ! p = 0 \<longleftrightarrow> L ! p = []" if "p < MAX_ORDER" for p
    using repr_chain [OF assms that] by (cases "L ! p") auto
  then show ?thesis by (auto simp: find_order_def find_None_iff)
qed

lemma alloc_order_repr:
  assumes "repr s L" and "wf_blocks (blocks L)" and "alloc_order order s = Some (a, s')"
  shows "\<exists>L'. repr s' L' \<and> wf_blocks (blocks L') \<and> span a order \<subseteq> space (blocks L) \<and>
           space (blocks L') = space (blocks L) - span a order \<and> block_ok a order"
proof -
  from assms(3) obtain f where f: "find_order order s = Some f"
    and a: "a = free_lists s ! f"
    and s': "s' = (let s2 = split_down a order f
                     (s\<lparr>free_lists := (free_lists s)[f := node_next s a]\<rparr>)
                   in s2\<lparr>free_pages := free_pages s2 - 2 ^ order\<rparr>)"
    by (auto simp: alloc_order_def Let_def split: if_splits option.splits)
  note ff = find_order_Some [OF assms(1) f]
  then obtain xs where L: "L ! f = a # xs" using a by auto
  let ?L = "L[f := xs]"
  note bl = blocks_pop [OF assms(1) ff(2) L]
  have mem: "(a, f) \<in> blocks L" using L ff(2) repr_length [OF assms(1)] by (simp add: blocks_def)
  note sp = space_remove [OF assms(2) mem, folded bl]
  have "wf_blocks (blocks ?L)" using wf_blocks_subset [OF assms(2)] bl by auto
  moreover have "span a f \<inter> space (blocks ?L) = {}" using sp by auto
  ultimately obtain L' where L': "repr (split_down a order f
        (s\<lparr>free_lists := (free_lists s)[f := node_next s a]\<rparr>)) L'"
    and "wf_blocks (blocks L')"
    and "space (blocks L') = space (blocks ?L) \<union> (span a f - span a order)"
    and "span a order \<subseteq> span a f" and "block_ok a order"
    using split_down_correct [OF repr_pop [OF assms(1) ff(2) L] _ wf_blocks_ok [OF assms(2) mem] _ ff(1)]
    by blast
  then show ?thesis using sp span_subset_space [OF mem]
    by (intro exI [of _ L']) (auto simp: s' Let_def)
qed

lemma free_order_loop_repr:
  assumes "repr s L" and "wf_blocks (blocks L)" and "block_ok a order"
    and "span a order \<inter> space (blocks L) = {}"
  shows "\<exists>order' s' L'. free_order_loop a order s = Some (order', s') \<and> repr s' L' \<and>
           wf_blocks (blocks L') \<and> space (blocks L') = space (blocks L) \<union> span a order"
  using assms
proof (induction a order s arbitrary: L rule: free_order_loop.induct)
  case (1 a order s)
  let ?b = "a XOR block_size order"
  note len = repr_length [OF "1.prems"(1)]
  have o: "order < MAX_ORDER" and a0: "a \<noteq> 0" using "1.prems"(3) by (simp_all add: block_ok_def)
  have push: "\<exists>L'. repr (push_free a order t) L' \<and> wf_blocks (blocks L') \<and>
        space (blocks L') = space (blocks L) \<union> span a order" if "repr t L" for t
  proof (intro exI conjI)
    show "repr (push_free a order t) (L[order := a # L ! order])"
      using repr_push [OF that o a0] not_on_any_list [OF "1.prems"(4)] by blast
    show "wf_blocks (blocks (L[order := a # L ! order]))"
      using wf_blocks_insert [OF "1.prems"(2,3,4)] o len by (simp add: blocks_push)
    show "space (blocks (L[order := a # L ! order])) = space (blocks L) \<union> span a order"
      using o len by (auto simp: blocks_push)
  qed
  show ?case
  proof (cases "MAX_ORDER - 1 \<le> order")
    case True
    then show ?thesis using push [OF "1.prems"(1)] by (auto simp: free_order_loop.simps [of a])
  next
    case False
    obtain s' where rem: "remove_free ?b order s = Some ((?b, order) \<in> blocks L, s')"
      and r: "repr s' (L[order := remove1 ?b (L ! order)])"
      using remove_free_correct [OF "1.prems"(1,2) o, of ?b] by auto
    have bl: "blocks (L[order := remove1 ?b (L ! order)]) = blocks L - {(?b, order)}"
      using blocks_remove [of order L ?b] o len chain_distinct [OF repr_chain [OF "1.prems"(1) o]]
      by simp
    show ?thesis
    proof (cases "(?b, order) \<in> blocks L")
      case mem: True
      note sp = space_remove [OF "1.prems"(2) mem, folded bl]
      have "?b \<noteq> 0" using wf_blocks_ok [OF "1.prems"(2) mem] by (simp add: block_ok_def)
      then have m: "block_ok (min a ?b) (order + 1)"
        and ms: "span (min a ?b) (order + 1) = span a order \<union> span ?b order"
        using block_merge [OF "1.prems"(3)] False by simp_all
      have "wf_blocks (blocks (L[order := remove1 ?b (L ! order)]))"
        using wf_blocks_subset [OF "1.prems"(2)] bl by auto
      moreover have "span (min a ?b) (order + 1) \<inter>
          space (blocks (L[order := remove1 ?b (L ! order)])) = {}"
        using sp ms "1.prems"(4) by auto
      ultimately obtain order' s'' L' where
        "free_order_loop (min a ?b) (order + 1) s' = Some (order', s'')"
        and "repr s'' L'" and "wf_blocks (blocks L')"
        and "space (blocks L') = (space (blocks L) - span ?b order) \<union>
               span (min a ?b) (order + 1)"
        using "1.IH" [OF False rem _ refl r _ m] mem sp by auto
      then show ?thesis using mem False rem ms span_subset_space [OF mem]
        by (intro exI [of _ order'] exI [of _ s''] exI [of _ L'])
          (auto simp: free_order_loop.simps [of a])
    next
      case nmem: False
      then have "?b \<notin> set (L ! order)" using o len by (simp add: blocks_def)
      then have "repr s' L" using r by (simp add: remove1_idem)
      then show ?thesis using push [of s'] nmem False rem by (auto simp: free_order_loop.simps [of a])
    qed
  qed
qed

subsection \<open>Building the lists from a memory region\<close>

lemma pick_order_spec:
  "pick_order addr e m \<le> m \<and> (pick_order addr e m = 0 \<or>
     block_size (pick_order addr e m) \<le> e - addr \<and>
     addr AND (block_size (pick_order addr e m) - 1) = 0)"
  by (induction addr e m rule: pick_order.induct) auto

lemma unat_block_size: "o' < MAX_ORDER \<Longrightarrow> unat (block_size o') = 2 ^ (12 + o')"
  using unat_push_bit_1 [of "12 + o'"] by (simp only: block_size_eq MAX_ORDER_def)

lemma pick_order_block:
  fixes addr e :: u64
  defines "p \<equiv> pick_order addr e (MAX_ORDER - 1)"
  assumes "addr \<noteq> 0" and "take_bit 12 addr = 0" and "unat addr + 4096 \<le> unat e"
  shows "block_ok addr p" and "unat addr + 2 ^ (12 + p) \<le> unat e"
    and "unat (addr + block_size p) = unat addr + 2 ^ (12 + p)"
proof -
  have p: "p < MAX_ORDER" and spec: "p = 0 \<or> block_size p \<le> e - addr \<and> addr AND (block_size p - 1) = 0"
    using pick_order_spec [of addr e "MAX_ORDER - 1"] by (auto simp: p_def MAX_ORDER_def)
  show "block_ok addr p"
    using spec p assms(2,3) by (auto simp: block_ok_def block_size_eq and_mask simp del: push_bit_of_1)
  show le: "unat addr + 2 ^ (12 + p) \<le> unat e"
  proof (cases "p = 0")
    case False
    then have "unat (block_size p) \<le> unat (e - addr)" using spec by (simp add: word_le_nat_alt)
    then show ?thesis using assms(4) p by (auto simp: unat_block_size unat_sub_if')
  qed (use assms(4) in simp)
  have "unat e < 2 ^ LENGTH(64)" by (rule unsigned_less)
  with le have "unat addr + unat (block_size p) < 2 ^ LENGTH(64)" using p by (simp add: unat_block_size)
  then show "unat (addr + block_size p) = unat addr + 2 ^ (12 + p)"
    using unat_add_lem [of addr "block_size p"] p by (simp add: unat_block_size)
qed

lemma add_region_loop_correct:
  assumes "repr s L" and "wf_blocks (blocks L)" and "addr \<noteq> 0"
    and "take_bit 12 addr = 0" and "take_bit 12 e = 0"
    and "unat addr + 4096 < 2 ^ 64" and "unat e + 4096 < 2 ^ 64"
    and "{unat addr ..< unat e} \<inter> space (blocks L) = {}"
  shows "\<exists>s' L'. add_region_loop addr e s = Some s' \<and> repr s' L' \<and> wf_blocks (blocks L') \<and>
           space (blocks L') = space (blocks L) \<union> {unat addr ..< unat e} \<and>
           4096 * total_pages s' = 4096 * total_pages s + (unat e - unat addr)"
  using assms
proof (induction "unat e - unat addr" arbitrary: addr s L rule: less_induct)
  case less
  have guard: "addr + PAGE_SIZE \<le> e \<longleftrightarrow> unat addr + 4096 \<le> unat e"
    using less.prems(6) by (simp add: word_le_nat_alt PAGE_SIZE_def unat_add_lem [THEN iffD1])
  show ?case
  proof (cases "unat addr + 4096 \<le> unat e")
    case False
    have "4096 dvd unat addr" "4096 dvd unat e" using less.prems(4,5) aligned_dvd [of 12] by auto
    with False have "unat e \<le> unat addr" by (auto elim!: dvdE)
    then show ?thesis using less.prems False guard
      by (intro exI [of _ s] exI [of _ L]) (simp add: add_region_loop.simps)
  next
    case True
    let ?p = "pick_order addr e (MAX_ORDER - 1)"
    let ?L = "L[?p := addr # L ! ?p]"
    let ?s = "(push_free addr ?p s)\<lparr>total_pages := total_pages s + 2 ^ ?p\<rparr>"
    let ?next = "addr + block_size ?p"
    note pb = pick_order_block [OF less.prems(3,4) True]
    have p: "?p < MAX_ORDER" using pb(1) by (simp add: block_ok_def)
    have bl: "blocks ?L = insert (addr, ?p) (blocks L)"
      using p repr_length [OF less.prems(1)] by (simp add: blocks_push)
    have sub: "span addr ?p \<subseteq> {unat addr ..< unat e}" using pb(2) by (auto simp: span_def)
    then have out: "span addr ?p \<inter> space (blocks L) = {}" using less.prems(8) by blast
    have r: "repr ?s ?L"
      using repr_push [OF less.prems(1) p less.prems(3) not_on_any_list [OF out]] by simp
    have w: "wf_blocks (blocks ?L)" unfolding bl by (rule wf_blocks_insert [OF less.prems(2) pb(1) out])
    have al: "take_bit 12 ?next = 0"
    proof -
      have "2 ^ 12 dvd unat addr" using less.prems(4) aligned_dvd by blast
      then show ?thesis using pb(3) aligned_dvd [of 12 ?next] by (simp add: power_add)
    qed
    have nz: "?next \<noteq> 0" using pb(3) by (metis add_is_0 power_not_zero unat_0 zero_neq_numeral)
    have rest: "{unat ?next ..< unat e} \<inter> space (blocks ?L) = {}"
    proof -
      have "{unat ?next ..< unat e} \<inter> span addr ?p = {}" using pb(3) by (auto simp: span_def)
      moreover have "{unat ?next ..< unat e} \<subseteq> {unat addr ..< unat e}" using pb(3) by auto
      ultimately show ?thesis using less.prems(8) unfolding bl space_insert by blast
    qed
    have sz: "unat ?next + 4096 < 2 ^ 64" "unat e - unat ?next < unat e - unat addr"
      using pb(2,3) less.prems(7) True by (auto simp: diff_less_mono2)
    obtain s' L' where "add_region_loop ?next e ?s = Some s'" and "repr s' L'"
      and "wf_blocks (blocks L')"
      and "space (blocks L') = space (blocks ?L) \<union> {unat ?next ..< unat e}"
      and "4096 * total_pages s' = 4096 * total_pages ?s + (unat e - unat ?next)"
      using less.hyps [OF sz(2) r w nz al less.prems(5) sz(1) less.prems(7) rest] by blast
    then show ?thesis using True guard bl pb(2,3)
      by (intro exI [of _ s'] exI [of _ L'])
        (auto simp: add_region_loop.simps [of addr] Let_def span_def power_add)
  qed
qed

lemma align_down_unat: "unat (align_down a) = unat a div 4096 * 4096"
  and align_down_aligned: "take_bit 12 (align_down a) = 0"
proof -
  have "align_down a = push_bit 12 (drop_bit 12 a)"
    using and_not_mask [of a 12] by (simp add: align_down_def PAGE_SIZE_def)
  then show "unat (align_down a) = unat a div 4096 * 4096" and "take_bit 12 (align_down a) = 0"
    using unat_push_drop [of 12 a] by (simp_all add: take_bit_push_drop)
qed

lemma align_up_eq: "align_up a = align_down (a + 4095)"
  by (simp add: align_up_def align_down_def PAGE_SIZE_def algebra_simps)

lemma align_up_unat:
  "unat a + 4095 < 2 ^ 64 \<Longrightarrow> unat (align_up a) = (unat a + 4095) div 4096 * 4096"
  by (simp add: align_up_eq align_down_unat unat_add_lem [THEN iffD1])

lemma align_up_aligned: "take_bit 12 (align_up a) = 0"
  by (simp add: align_up_eq align_down_aligned)

subsection \<open>Properties\<close>

lemma alloc_order_correct:
  assumes "pmm_inv s" and "alloc_order order s = Some (a, s')"
  shows "pmm_inv s'" and "block_ok a order" and "span a order \<subseteq> free_space s"
    and "free_space s' = free_space s - span a order"
proof -
  from assms(1) obtain L where L: "repr s L" "wf_blocks (blocks L)" by (auto simp: pmm_inv_def)
  from alloc_order_repr [OF this assms(2)] obtain L' where "repr s' L'" "wf_blocks (blocks L')"
    "span a order \<subseteq> space (blocks L)" "space (blocks L') = space (blocks L) - span a order"
    "block_ok a order" by blast
  then show "pmm_inv s'" and "block_ok a order" and "span a order \<subseteq> free_space s"
    and "free_space s' = free_space s - span a order"
    using L(1) by (auto simp: pmm_inv_def repr_free_space)
qed

lemma free_order_correct:
  assumes "pmm_inv s" and "block_ok a order" and "span a order \<inter> free_space s = {}"
  shows "\<exists>s'. free_order a order s = Some (Inr s') \<and> pmm_inv s' \<and>
           free_space s' = free_space s \<union> span a order"
proof -
  from assms(1) obtain L where L: "repr s L" "wf_blocks (blocks L)" by (auto simp: pmm_inv_def)
  have "span a order \<inter> space (blocks L) = {}" using assms(3) L(1) by (simp add: repr_free_space)
  from free_order_loop_repr [OF L assms(2) this] obtain order' t L' where
    t: "free_order_loop a order s = Some (order', t)" and L': "repr t L'" "wf_blocks (blocks L')"
    and sp: "space (blocks L') = space (blocks L) \<union> span a order" by blast
  let ?t = "t\<lparr>free_pages := free_pages t + 2 ^ min order' (MAX_ORDER - 1)\<rparr>"
  have "repr ?t L'" using L'(1) by simp
  then show ?thesis using t L' sp L(1) assms(2)
    by (intro exI [of _ ?t]) (auto simp: free_order_def block_ok_def pmm_inv_def repr_free_space)
qed

definition frame_span :: "u64 \<Rightarrow> nat set" where
  "frame_span a = span a 0"

definition frame_addr_ok :: "u64 \<Rightarrow> bool" where
  "frame_addr_ok a \<longleftrightarrow> block_ok a 0"

interpretation pmm: frame_source pmm_inv free_space alloc_frame free_frame frame_span frame_addr_ok
proof unfold_locales
  fix s s' :: BuddyAllocator and a :: u64
  assume "pmm_inv s" and "alloc_frame s = Some (a, s')"
  then show "pmm_inv s'" and "frame_addr_ok a" and "frame_span a \<subseteq> free_space s"
    and "free_space s' = free_space s - frame_span a"
    using alloc_order_correct [of s 0 a s']
    by (simp_all add: alloc_frame_def frame_span_def frame_addr_ok_def)
next
  fix s :: BuddyAllocator and a :: u64
  assume "pmm_inv s" and "frame_addr_ok a" and "frame_span a \<inter> free_space s = {}"
  then show "\<exists>s'. free_frame a s = Some (Inr s') \<and> pmm_inv s' \<and>
      free_space s' = free_space s \<union> frame_span a"
    using free_order_correct [of s a 0]
    by (simp add: free_frame_def frame_span_def frame_addr_ok_def)
qed

lemma pmm_inv_new [kinv]: "pmm_inv (buddy_new m)" and free_space_new: "free_space (buddy_new m) = {}"
proof -
  have r: "repr (buddy_new m) (replicate MAX_ORDER [])"
    by (auto simp: repr_def buddy_new_def)
  moreover have b: "blocks (replicate MAX_ORDER []) = {}" by (auto simp: blocks_def)
  ultimately show "pmm_inv (buddy_new m)" by (force simp: pmm_inv_def wf_blocks_def)
  show "free_space (buddy_new m) = {}" using repr_free_space [OF r] b by (simp add: space_def)
qed

lemma total_pages_new [simp]: "total_pages (buddy_new m) = 0"
  by (simp add: buddy_new_def)

definition region_bytes :: "u64 \<Rightarrow> u64 \<Rightarrow> nat set" where
  "region_bytes start end_addr =
     {(unat start + 4095) div 4096 * 4096 ..< unat end_addr div 4096 * 4096}"

lemma add_region_correct:
  assumes "pmm_inv s" and "0 < start" and "start \<le> end_addr" and "unat end_addr + 8192 \<le> 2 ^ 64"
    and "region_bytes start end_addr \<inter> free_space s = {}"
  shows "\<exists>s'. add_region start end_addr s = Some s' \<and> pmm_inv s' \<and>
           free_space s' = free_space s \<union> region_bytes start end_addr \<and>
           4096 * total_pages s' = 4096 * total_pages s + card (region_bytes start end_addr) \<and>
           free_pages s' = total_pages s'"
proof -
  from assms(1) obtain L where L: "repr s L" "wf_blocks (blocks L)" by (auto simp: pmm_inv_def)
  have le: "unat start \<le> unat end_addr" using assms(3) by (simp add: word_le_nat_alt)
  then have up: "unat (align_up start) = (unat start + 4095) div 4096 * 4096"
    using assms(4) by (intro align_up_unat) simp
  have rb: "region_bytes start end_addr = {unat (align_up start) ..< unat (align_down end_addr)}"
    by (simp only: region_bytes_def up align_down_unat)
  have "0 < unat start" using assms(2) by (simp add: word_less_nat_alt)
  then have "unat (align_up start) \<noteq> 0" unfolding up by auto
  then have nz: "align_up start \<noteq> 0" by auto
  have lim: "unat (align_up start) + 4096 < 2 ^ 64" "unat (align_down end_addr) + 4096 < 2 ^ 64"
    using assms(4) le unfolding up align_down_unat by linarith+
  have "{unat (align_up start) ..< unat (align_down end_addr)} \<inter> space (blocks L) = {}"
    using assms(5) rb L(1) by (simp add: repr_free_space)
  from add_region_loop_correct [OF L nz align_up_aligned align_down_aligned lim this]
  obtain t L' where t: "add_region_loop (align_up start) (align_down end_addr) s = Some t"
    and L': "repr t L'" "wf_blocks (blocks L')"
    and sp: "space (blocks L') = space (blocks L) \<union> {unat (align_up start) ..< unat (align_down end_addr)}"
    and tot: "4096 * total_pages t = 4096 * total_pages s +
                (unat (align_down end_addr) - unat (align_up start))" by blast
  let ?t = "t\<lparr>free_pages := total_pages t\<rparr>"
  have "repr ?t L'" using L'(1) by simp
  then show ?thesis using t L' sp tot L(1) rb
    by (intro exI [of _ ?t]) (auto simp: add_region_def pmm_inv_def repr_free_space)
qed

text \<open>A two-page machine, used to exhibit the properties on a concrete state.\<close>

definition pmm_example :: BuddyAllocator where
  "pmm_example = \<lparr>free_lists = [0, 0x2000, 0, 0, 0, 0, 0, 0, 0, 0, 0], free_pages = 2,
     total_pages = 2, phys_offset = 0, mem = (\<lambda>_. 0)\<rparr>"

definition pmm_example_split :: BuddyAllocator where
  "pmm_example_split = \<lparr>free_lists = [0x3000, 0, 0, 0, 0, 0, 0, 0, 0, 0, 0], free_pages = 1,
     total_pages = 2, phys_offset = 0, mem = (\<lambda>_. 0)\<rparr>"

lemma zero_mem [simp]: "(\<lambda>_. 0)(a := 0) = (\<lambda>_. 0)"
  by (simp add: fun_eq_iff)

lemma orders_upt: "[0..<11] = [0, 1, 2, 3, 4, 5, 6, 7, 8, 9, 10 :: nat]"
  by (simp add: upt_rec)

lemma orders_replicate: "replicate 11 x = [x, x, x, x, x, x, x, x, x, x, x]"
  by (simp add: numeral_eq_Suc)

lemmas pmm_eval = block_size_def PAGE_SIZE_def MAX_ORDER_def node_next_def push_free_def
  orders_upt orders_replicate Let_def

lemma pick_order_example: "pick_order 0x2000 0x4000 10 = 1"
  by code_simp

lemma add_region_loop_example:
  "add_region_loop 0x2000 0x4000 (buddy_new (\<lambda>_. 0)) = Some (pmm_example\<lparr>free_pages := 0\<rparr>)"
proof -
  have "add_region_loop 0x2000 0x4000 (buddy_new (\<lambda>_. 0)) =
        add_region_loop 0x4000 0x4000 (pmm_example\<lparr>free_pages := 0\<rparr>)"
    by (subst add_region_loop.simps)
      (simp add: pmm_eval pick_order_example buddy_new_def pmm_example_def)
  also have "\<dots> = Some (pmm_example\<lparr>free_pages := 0\<rparr>)"
    by (subst add_region_loop.simps) (simp add: pmm_eval)
  finally show ?thesis .
qed

lemma pmm_example_boot: "add_region 0x2000 0x4000 (buddy_new (\<lambda>_. 0)) = Some pmm_example"
  by (simp add: add_region_def align_up_def align_down_def PAGE_SIZE_def add_region_loop_example
      pmm_example_def)

lemma pmm_example_alloc: "alloc_order 0 pmm_example = Some (0x2000, pmm_example_split)"
  by (simp add: alloc_order_def find_order_def pmm_eval pmm_example_def pmm_example_split_def)

lemma pmm_example_free:
  "free_order 0x2000 0 pmm_example_split = Some (Inr (pmm_example\<lparr>free_pages := 3\<rparr>))"
proof -
  have "remove_free 0x3000 0 pmm_example_split =
        Some (True, pmm_example_split\<lparr>free_lists := replicate 11 0\<rparr>)"
    unfolding remove_free_def
    by (subst remove_free_loop.simps) (simp add: pmm_example_split_def pmm_eval)
  then have "free_order_loop 0x2000 0 pmm_example_split =
        free_order_loop 0x2000 1 (pmm_example_split\<lparr>free_lists := replicate 11 0\<rparr>)"
    by (subst free_order_loop.simps) (simp add: pmm_eval min_def)
  also have "\<dots> = Some (1, pmm_example\<lparr>free_pages := 1\<rparr>)"
    by (subst free_order_loop.simps, simp add: remove_free_def, subst remove_free_loop.simps)
      (simp add: pmm_example_split_def pmm_example_def pmm_eval)
  finally show ?thesis by (simp add: free_order_def MAX_ORDER_def pmm_example_def)
qed

lemma pmm_example_inv: "pmm_inv pmm_example" and pmm_example_space: "free_space pmm_example = {0x2000 ..< 0x4000}"
proof -
  obtain s where "add_region 0x2000 0x4000 (buddy_new (\<lambda>_. 0)) = Some s" and "pmm_inv s"
    and "free_space s = free_space (buddy_new (\<lambda>_. 0)) \<union> region_bytes 0x2000 0x4000"
    using add_region_correct [of "buddy_new (\<lambda>_. 0)" "0x2000" "0x4000"]
    by (auto simp: pmm_inv_new free_space_new)
  then show "pmm_inv pmm_example" and "free_space pmm_example = {0x2000 ..< 0x4000}"
    by (auto simp: pmm_example_boot free_space_new region_bytes_def)
qed

text \<open>C1: an allocation of order \<open>k\<close> returns a non-null block aligned to its size that was
  entirely free; afterwards exactly its bytes have left the free space and the allocator's
  invariant holds again. No byte is ever handed out twice.\<close>

theorem alloc_order_safe:
  assumes "pmm_inv s" and "alloc_order order s = Some (a, s')"
  shows "pmm_inv s' \<and> a \<noteq> 0 \<and> 2 ^ (12 + order) dvd unat a \<and> span a order \<subseteq> free_space s \<and>
         free_space s' = free_space s - span a order"
  using alloc_order_correct [OF assms] by (simp add: block_ok_def aligned_dvd)

theorem alloc_order_safe_witness:
  "alloc_order 0 pmm_example = Some (0x2000, pmm_example_split) \<and> pmm_inv pmm_example_split \<and>
   free_space pmm_example_split = {0x2000 ..< 0x4000} - {0x2000 ..< 0x3000}"
  using alloc_order_safe [OF pmm_example_inv pmm_example_alloc]
  by (simp add: pmm_example_alloc pmm_example_space span_def)

text \<open>An allocation fails exactly when the order is out of range or no free block of that
  order or a larger one is listed: the search never misses memory it could split.\<close>

theorem alloc_order_fails_iff:
  assumes "pmm_inv s"
  shows "alloc_order order s = None \<longleftrightarrow> (\<forall>p a. order \<le> p \<and> p < 11 \<longrightarrow> \<not> on_list s p a)"
proof -
  from assms obtain L where L: "repr s L" by (auto simp: pmm_inv_def)
  have "alloc_order order s = None \<longleftrightarrow> MAX_ORDER \<le> order \<or> find_order order s = None"
    by (auto simp: alloc_order_def Let_def split: option.splits)
  also have "\<dots> \<longleftrightarrow> (\<forall>p. order \<le> p \<and> p < MAX_ORDER \<longrightarrow> L ! p = [])"
    using find_order_None [OF L] by auto
  also have "\<dots> \<longleftrightarrow> (\<forall>p a. order \<le> p \<and> p < MAX_ORDER \<longrightarrow> \<not> on_list s p a)"
    using repr_on_list [OF L] by (metis list.set_intros(1) neq_Nil_conv empty_iff list.set(1))
  finally show ?thesis by (simp add: MAX_ORDER_def)
qed

theorem alloc_order_fails_iff_witness: "alloc_order 2 pmm_example = None \<and> \<not> on_list pmm_example 5 0x2000"
proof -
  have "alloc_order 2 pmm_example = None" by code_simp
  then show ?thesis using alloc_order_fails_iff [OF pmm_example_inv, of 2] by simp
qed

text \<open>C3: freeing a block that is not free returns (the walk over the free list and the merge
  loop end), keeps the invariant and makes exactly the block's bytes free again, however many
  buddies are merged on the way.\<close>

theorem free_order_restores:
  assumes "pmm_inv s" and "block_ok a order" and "span a order \<inter> free_space s = {}"
  shows "\<exists>s'. free_order a order s = Some (Inr s') \<and> pmm_inv s' \<and>
           free_space s' = free_space s \<union> span a order"
  by (rule free_order_correct [OF assms])

theorem free_order_restores_witness:
  "\<exists>s'. free_order 0x2000 0 pmm_example_split = Some (Inr s') \<and> free_space s' = {0x2000 ..< 0x4000}"
proof -
  note al = alloc_order_correct [OF pmm_example_inv pmm_example_alloc]
  from free_order_restores [OF al(1,2)] show ?thesis
    using al(4) by (auto simp: pmm_example_space span_def)
qed

text \<open>C8: adding a usable region that starts above physical address 0 ends, makes exactly the
  whole pages inside the region free, and counts them.\<close>

theorem add_region_frees_region:
  assumes "pmm_inv s" and "0 < start" and "start \<le> end_addr" and "unat end_addr + 8192 \<le> 2 ^ 64"
    and "region_bytes start end_addr \<inter> free_space s = {}"
  shows "\<exists>s'. add_region start end_addr s = Some s' \<and> pmm_inv s' \<and>
           free_space s' = free_space s \<union> region_bytes start end_addr \<and>
           4096 * total_pages s' = 4096 * total_pages s + card (region_bytes start end_addr)"
  using add_region_correct [OF assms] by blast

theorem add_region_frees_region_witness:
  "\<exists>s'. add_region 0x2100 0x9fff (buddy_new (\<lambda>_. 0)) = Some s' \<and> free_space s' = {0x3000 ..< 0x9000} \<and>
        total_pages s' = 6"
proof -
  have "\<exists>s'. add_region 0x2100 0x9fff (buddy_new (\<lambda>_. 0)) = Some s' \<and> pmm_inv s' \<and>
      free_space s' = free_space (buddy_new (\<lambda>_. 0)) \<union> region_bytes 0x2100 0x9fff \<and>
      4096 * total_pages s' = 4096 * total_pages (buddy_new (\<lambda>_. 0)) + card (region_bytes 0x2100 0x9fff)"
    by (rule add_region_frees_region) (simp_all add: pmm_inv_new free_space_new word_less_nat_alt)
  then show ?thesis by (auto simp: free_space_new region_bytes_def)
qed

text \<open>The page counter does not survive merging. On a machine with two pages, allocating one
  page and freeing it again leaves a counter of three free pages out of two.\<close>

theorem free_pages_overcounts:
  "\<exists>s1 a s2 s3. pmm_init [(0x2000, 0x4000, True)] 0 (buddy_new (\<lambda>_. 0)) = Some s1 \<and>
     alloc_frame s1 = Some (a, s2) \<and> free_frame a s2 = Some (Inr s3) \<and>
     free_pages s1 = 2 \<and> total_pages s3 = 2 \<and> free_pages s3 = 3"
proof (intro exI conjI)
  show "pmm_init [(0x2000, 0x4000, True)] 0 (buddy_new (\<lambda>_. 0)) = Some pmm_example"
    using pmm_example_boot by (simp add: pmm_init_def buddy_new_def)
  show "alloc_frame pmm_example = Some (0x2000, pmm_example_split)"
    by (simp add: alloc_frame_def pmm_example_alloc)
  show "free_frame 0x2000 pmm_example_split = Some (Inr (pmm_example\<lparr>free_pages := 3\<rparr>))"
    by (simp add: free_frame_def pmm_example_free)
qed (simp_all add: pmm_example_def)

text \<open>A usable page at physical address 0 is counted as free and can never be allocated,
  because address 0 is the null link of the free lists.\<close>

theorem frame_at_zero_lost:
  "\<exists>s. pmm_init [(0, 0x1000, True)] 0 (buddy_new (\<lambda>_. 0)) = Some s \<and>
     free_pages s = 1 \<and> alloc_frame s = None"
proof -
  let ?s = "(buddy_new (\<lambda>_. 0))\<lparr>total_pages := 1\<rparr>"
  have "pick_order 0 0x1000 10 = 0" by code_simp
  then have "add_region_loop 0 0x1000 (buddy_new (\<lambda>_. 0)) = add_region_loop 0x1000 0x1000 ?s"
    by (subst add_region_loop.simps) (simp add: pmm_eval buddy_new_def)
  also have "\<dots> = Some ?s" by (subst add_region_loop.simps) (simp add: pmm_eval)
  finally have "add_region 0 0x1000 (buddy_new (\<lambda>_. 0)) = Some (?s\<lparr>free_pages := 1\<rparr>)"
    by (simp add: add_region_def align_up_def align_down_def PAGE_SIZE_def)
  moreover have "alloc_frame (?s\<lparr>free_pages := 1\<rparr>) = None" by code_simp
  ultimately show ?thesis by (simp add: pmm_init_def buddy_new_def)
qed

text \<open>Any number of single frames taken in a row are page-aligned, pairwise disjoint and
  all came out of the free space.\<close>

theorem frames_taken_are_disjoint:
  assumes "pmm_inv s" and "alloc_many alloc_frame n s = Some (fs, s')"
  shows "pmm_inv s' \<and> length fs = n \<and>
         (\<forall>f \<in> set fs. 4096 dvd unat f \<and> {unat f ..< unat f + 4096} \<subseteq> free_space s) \<and>
         (\<forall>i j. i < j \<and> j < n \<longrightarrow>
            {unat (fs ! i) ..< unat (fs ! i) + 4096} \<inter> {unat (fs ! j) ..< unat (fs ! j) + 4096} = {})"
  using pmm.alloc_many_correct [OF assms]
  by (auto simp: frame_addr_ok_def block_ok_def frame_span_def span_def aligned_dvd)

theorem frames_taken_are_disjoint_witness:
  "\<exists>fs s'. alloc_many alloc_frame 2 pmm_example = Some (fs, s') \<and> length fs = 2 \<and>
     {unat (fs ! 0) ..< unat (fs ! 0) + 4096} \<inter> {unat (fs ! 1) ..< unat (fs ! 1) + 4096} = {}"
proof -
  obtain t where t: "alloc_frame pmm_example_split = Some (0x3000, t)"
    by (simp add: alloc_frame_def alloc_order_def find_order_def pmm_eval pmm_example_split_def)
  have m: "alloc_many alloc_frame 2 pmm_example = Some ([0x2000, 0x3000], t)"
    using pmm_example_alloc t by (simp add: numeral_2_eq_2 alloc_frame_def)
  from frames_taken_are_disjoint [OF pmm_example_inv m] show ?thesis using m by fastforce
qed

end
