(* ===== verification/Kmem.thy ===== *)
theory Kmem
  imports Pmm
begin

section \<open>Allocated memory and the allocator\<close>

text \<open>
  The free lists live in the memory the rest of the kernel uses. The lemmas here are the
  contract between the two: the allocator writes free memory only, and stores to memory that is
  not free leave the allocator's invariant and its free space alone.
\<close>

definition keeps_outside :: "nat set \<Rightarrow> BuddyAllocator \<Rightarrow> BuddyAllocator \<Rightarrow> bool" where
  "keeps_outside A s s' \<longleftrightarrow> phys_offset s' = phys_offset s \<and>
     (\<forall>x. unat x \<notin> A \<longrightarrow> mem s' (phys_offset s + x) = mem s (phys_offset s + x))"

lemma keeps_outside_refl [simp]: "keeps_outside A s s"
  by (simp add: keeps_outside_def)

lemma keeps_outside_trans:
  "keeps_outside A s t \<Longrightarrow> keeps_outside A t u \<Longrightarrow> keeps_outside A s u"
  by (simp add: keeps_outside_def)

lemma keeps_outside_mono: "keeps_outside A s t \<Longrightarrow> A \<subseteq> B \<Longrightarrow> keeps_outside B s t"
  by (auto simp: keeps_outside_def)

subsection \<open>Stores to allocated memory\<close>

lemma chain_cong: "\<forall>a \<in> set xs. n a = n' a \<Longrightarrow> chain n h xs = chain n' h xs"
  by (induction xs arbitrary: h) auto

lemma node_in_space:
  assumes "repr s L" and "p < MAX_ORDER" and "a \<in> set (L ! p)"
  shows "unat a \<in> free_space s"
proof -
  have "(a, p) \<in> blocks L" using assms repr_length [OF assms(1)] by (simp add: blocks_def)
  from span_subset_space [OF this] show ?thesis
    by (auto simp: repr_free_space [OF assms(1)] span_def)
qed

lemma pmm_store:
  assumes "pmm_inv s"
    and "\<forall>x. unat x \<in> free_space s \<longrightarrow> m (phys_offset s + x) = mem s (phys_offset s + x)"
  shows "pmm_inv (s\<lparr>mem := m\<rparr>)" and "free_space (s\<lparr>mem := m\<rparr>) = free_space s"
proof -
  from assms(1) obtain L where L: "repr s L" "wf_blocks (blocks L)" by (auto simp: pmm_inv_def)
  have "chain (node_next (s\<lparr>mem := m\<rparr>)) (free_lists s ! p) (L ! p)" if "p < MAX_ORDER" for p
    using repr_chain [OF L(1) that] node_in_space [OF L(1) that] assms(2)
    by (subst chain_cong [where n' = "node_next s"]) (auto simp: node_next_def)
  then have r: "repr (s\<lparr>mem := m\<rparr>) L" using L(1) by (simp add: repr_def)
  then show "pmm_inv (s\<lparr>mem := m\<rparr>)" using L(2) by (auto simp: pmm_inv_def)
  show "free_space (s\<lparr>mem := m\<rparr>) = free_space s"
    using repr_free_space [OF r] repr_free_space [OF L(1)] by simp
qed

subsection \<open>Allocation writes free memory only\<close>

lemma split_down_keeps:
  assumes "block_ok a c"
  shows "keeps_outside (span a c) s (split_down a order c s)"
  using assms
proof (induction a order c s rule: split_down.induct)
  case (2 a order c s)
  note h = block_halves [OF "2.prems"]
  let ?b = "a + block_size c"
  have "unat ?b \<in> span a (Suc c)" using h(2) by (auto simp: span_def)
  then have "keeps_outside (span a (Suc c)) s (push_free ?b c s)"
    by (auto simp: keeps_outside_def push_free_def)
  then show ?case
    using "2.IH" [OF _ h(4)] h(2) by (auto intro: keeps_outside_trans keeps_outside_mono)
qed simp

lemma alloc_order_keeps:
  assumes "pmm_inv s" and "alloc_order order s = Some (a, s')"
  shows "keeps_outside (free_space s) s s'"
proof -
  from assms(1) obtain L where L: "repr s L" "wf_blocks (blocks L)" by (auto simp: pmm_inv_def)
  from assms(2) obtain f where f: "find_order order s = Some f" and a: "a = free_lists s ! f"
    and s': "s' = (let s2 = split_down a order f
                     (s\<lparr>free_lists := (free_lists s)[f := node_next s a]\<rparr>)
                   in s2\<lparr>free_pages := free_pages s2 - 2 ^ order\<rparr>)"
    by (auto simp: alloc_order_def Let_def split: if_splits option.splits)
  have mem: "(a, f) \<in> blocks L"
    using find_order_Some [OF L(1) f] a repr_length [OF L(1)] by (auto simp: blocks_def)
  have "keeps_outside (span a f) s s'"
    using split_down_keeps [OF wf_blocks_ok [OF L(2) mem],
        of "s\<lparr>free_lists := (free_lists s)[f := node_next s a]\<rparr>" order]
    by (simp add: s' Let_def keeps_outside_def)
  then show ?thesis
    using span_subset_space [OF mem] repr_free_space [OF L(1)] by (simp add: keeps_outside_mono)
qed

lemma alloc_frame_keeps:
  "pmm_inv s \<Longrightarrow> alloc_frame s = Some (a, s') \<Longrightarrow> keeps_outside (free_space s) s s'"
  by (simp add: alloc_frame_def alloc_order_keeps)

text \<open>Single frames run out only when nothing is free.\<close>

lemma alloc_frame_none:
  assumes "pmm_inv s" and "alloc_frame s = None"
  shows "free_space s = {}"
proof -
  from assms(1) obtain L where L: "repr s L" by (auto simp: pmm_inv_def)
  have "find_order 0 s = None"
    using assms(2) by (auto simp: alloc_frame_def alloc_order_def MAX_ORDER_def Let_def split: option.splits)
  then have "L ! p = []" if "p < MAX_ORDER" for p using find_order_None [OF L, of 0] that by simp
  then have "blocks L = {}" using repr_length [OF L] by (auto simp: blocks_def)
  then show ?thesis using repr_free_space [OF L] by (simp add: space_def)
qed

subsection \<open>Freeing writes free memory and the freed block only\<close>

lemma write_slot_keeps:
  assumes "repr s L" and "p < MAX_ORDER" and "set us \<subseteq> set (L ! p)"
  shows "keeps_outside (free_space s) s (write_slot (prev_slot p us) v s)"
proof (cases "us = []")
  case True
  then show ?thesis by (simp add: prev_slot_def keeps_outside_def)
next
  case False
  then have "last us \<in> set (L ! p)" using assms(3) last_in_set by blast
  then have "unat (last us) \<in> free_space s" by (rule node_in_space [OF assms(1,2)])
  then show ?thesis using False by (auto simp: prev_slot_def keeps_outside_def)
qed

lemma remove_free_loop_keeps:
  assumes "repr s L" and "p < MAX_ORDER" and "L ! p = us @ vs"
    and "remove_free_loop t (prev_slot p us) (case vs of [] \<Rightarrow> 0 | v # _ \<Rightarrow> v) s = Some (r, s')"
  shows "keeps_outside (free_space s) s s'"
  using assms(3,4)
proof (induction vs arbitrary: us)
  case Nil
  then show ?case by (simp add: remove_free_loop.simps)
next
  case (Cons v vs)
  have ch: "chain (node_next s) (free_lists s ! p) (us @ v # vs)"
    using repr_chain [OF assms(1,2)] Cons.prems(1) by simp
  then have v0: "v \<noteq> 0" using chain_nonzero by fastforce
  show ?case
  proof (cases "v = t")
    case True
    then show ?thesis using v0 Cons.prems write_slot_keeps [OF assms(1,2), of us]
      by (auto simp: remove_free_loop.simps)
  next
    case False
    have "remove_free_loop t (prev_slot p us) v s =
          remove_free_loop t (prev_slot p (us @ [v])) (case vs of [] \<Rightarrow> 0 | v # _ \<Rightarrow> v) s"
      using v0 False chain_next [OF ch]
      by (subst remove_free_loop.simps) (simp add: prev_slot_def)
    then show ?thesis using Cons.IH [of "us @ [v]"] Cons.prems by simp
  qed
qed

lemma remove_free_keeps:
  assumes "repr s L" and "p < MAX_ORDER" and "remove_free t p s = Some (r, s')"
  shows "keeps_outside (free_space s) s s'"
  using remove_free_loop_keeps [OF assms(1,2), of "[]" "L ! p" t r s'] assms(3)
    repr_head [OF assms(1,2)]
  by (simp add: remove_free_def prev_slot_def)

lemma push_free_keeps: "unat a \<in> A \<Longrightarrow> keeps_outside A s (push_free a p s)"
  by (auto simp: keeps_outside_def push_free_def)

lemma span_start [simp]: "unat a \<in> span a p"
  by (simp add: span_def)

text \<open>One round of the merge loop: the buddy leaves its list and joins the block.\<close>

lemma merge_round:
  assumes "repr s L" and "wf_blocks (blocks L)" and "block_ok a p" and "Suc p < MAX_ORDER"
    and "span a p \<inter> free_space s = {}"
    and "remove_free (a XOR block_size p) p s = Some (True, s1)"
  shows "\<exists>L1. repr s1 L1 \<and> wf_blocks (blocks L1) \<and> block_ok (min a (a XOR block_size p)) (Suc p) \<and>
           span (min a (a XOR block_size p)) (Suc p) \<inter> free_space s1 = {} \<and>
           free_space s1 \<union> span (min a (a XOR block_size p)) (Suc p) = free_space s \<union> span a p"
proof -
  let ?b = "a XOR block_size p" and ?L = "L[p := remove1 (a XOR block_size p) (L ! p)]"
  have p: "p < MAX_ORDER" using assms(4) by simp
  from remove_free_correct [OF assms(1,2) p, of ?b] assms(6)
  have mem: "(?b, p) \<in> blocks L" and r: "repr s1 ?L" by auto
  have bl: "blocks ?L = blocks L - {(?b, p)}"
    using blocks_remove [of p L ?b] p repr_length [OF assms(1)]
      chain_distinct [OF repr_chain [OF assms(1) p]] by simp
  note sp = space_remove [OF assms(2) mem, folded bl]
  have "?b \<noteq> 0" using wf_blocks_ok [OF assms(2) mem] by (simp add: block_ok_def)
  note m = block_merge [OF assms(3) this assms(4)]
  have "wf_blocks (blocks ?L)" using wf_blocks_subset [OF assms(2)] bl by auto
  then show ?thesis
    using r m sp assms(5) span_subset_space [OF mem]
    by (intro exI [of _ ?L]) (auto simp: repr_free_space [OF r] repr_free_space [OF assms(1)])
qed

lemma free_order_loop_keeps:
  assumes "repr s L" and "wf_blocks (blocks L)" and "block_ok a p"
    and "span a p \<inter> free_space s = {}" and "free_order_loop a p s = Some (p', s')"
  shows "keeps_outside (free_space s \<union> span a p) s s'"
  using assms
proof (induction a p s arbitrary: L rule: free_order_loop.induct)
  case (1 a p s)
  let ?b = "a XOR block_size p"
  have p: "p < MAX_ORDER" using "1.prems"(3) by (simp add: block_ok_def)
  show ?case
  proof (cases "MAX_ORDER - 1 \<le> p")
    case True
    then show ?thesis using "1.prems"(5)
      by (auto simp: free_order_loop.simps [of a] intro: push_free_keeps)
  next
    case False
    obtain m s1 where rem: "remove_free ?b p s = Some (m, s1)"
      using remove_free_correct [OF "1.prems"(1,2) p, of ?b] by auto
    have k: "keeps_outside (free_space s \<union> span a p) s s1"
      using remove_free_keeps [OF "1.prems"(1) p rem] by (rule keeps_outside_mono) auto
    show ?thesis
    proof (cases m)
      case True
      then have rem': "remove_free ?b p s = Some (True, s1)" using rem by simp
      have "Suc p < MAX_ORDER" using False by simp
      from merge_round [OF "1.prems"(1-3) this "1.prems"(4) rem']
      obtain L1 where L1: "repr s1 L1" "wf_blocks (blocks L1)" "block_ok (min a ?b) (Suc p)"
        "span (min a ?b) (Suc p) \<inter> free_space s1 = {}"
        and sp: "free_space s1 \<union> span (min a ?b) (Suc p) = free_space s \<union> span a p" by blast
      have "free_order_loop (min a ?b) (p + 1) s1 = Some (p', s')"
        using "1.prems"(5) False rem' by (simp add: free_order_loop.simps [of a])
      then have "keeps_outside (free_space s1 \<union> span (min a ?b) (Suc p)) s1 s'"
        using "1.IH" [OF False rem' refl refl L1(1,2)] L1(3,4) by simp
      then show ?thesis using k sp by (auto intro: keeps_outside_trans)
    next
      case False
      then have "s' = push_free a p s1" using "1.prems"(5) \<open>\<not> MAX_ORDER - 1 \<le> p\<close> rem
        by (auto simp: free_order_loop.simps [of a])
      moreover have "keeps_outside (free_space s \<union> span a p) s1 (push_free a p s1)"
        by (rule push_free_keeps) simp
      ultimately show ?thesis using k keeps_outside_trans by blast
    qed
  qed
qed

lemma free_frame_keeps:
  assumes "pmm_inv s" and "frame_addr_ok a" and "frame_span a \<inter> free_space s = {}"
    and "free_frame a s = Some (Inr s')"
  shows "keeps_outside (free_space s \<union> frame_span a) s s'"
proof -
  from assms(1) obtain L where L: "repr s L" "wf_blocks (blocks L)" by (auto simp: pmm_inv_def)
  from assms(4) obtain p' t where t: "free_order_loop a 0 s = Some (p', t)"
    and s': "s' = t\<lparr>free_pages := free_pages t + 2 ^ min p' (MAX_ORDER - 1)\<rparr>"
    by (auto simp: free_frame_def free_order_def split: if_splits option.splits)
  have "keeps_outside (free_space s \<union> span a 0) s t"
    by (rule free_order_loop_keeps [OF L _ _ t])
      (use assms(2,3) in \<open>simp_all add: frame_addr_ok_def frame_span_def\<close>)
  then show ?thesis by (simp add: s' keeps_outside_def frame_span_def)
qed

end
