(* ===== verification/Self_Model.thy ===== *)
theory Self_Model
  imports Kmem
begin

section \<open>Predictive frame reserves\<close>

text \<open>
  Model of \<^verbatim>\<open>kernel/src/memory/self_model.rs\<close>: frames set aside for a process when its last two
  system calls predict allocations. The prediction is a floating-point average per pair of call
  numbers; it enters as the argument \<open>predicted\<close>, its value truncated to a page count.
\<close>

abbreviation (input) HISTORY_LEN :: nat where "HISTORY_LEN \<equiv> 2"

definition MAX_RESERVE_PAGES :: nat where "MAX_RESERVE_PAGES = 256"

record PidState =
  history :: "u16 list"
  history_idx :: nat
  reserve :: "u64 list"

record Reserves =
  pid_states :: "(u64, PidState) btree"
  pool :: BuddyAllocator

definition pid_state_new :: PidState where
  "pid_state_new = \<lparr>history = replicate HISTORY_LEN 0, history_idx = 0, reserve = []\<rparr>"

text \<open>The reserve is a stack: \<^verbatim>\<open>push\<close> and \<^verbatim>\<open>pop\<close> work at the end of the list.\<close>

primrec reserve_loop :: "nat \<Rightarrow> u64 list \<Rightarrow> BuddyAllocator \<Rightarrow> u64 list \<times> BuddyAllocator" where
  "reserve_loop 0 r b = (r, b)"
| "reserve_loop (Suc n) r b =
     (if MAX_RESERVE_PAGES \<le> length r then (r, b)
      else case alloc_frame b of
             Some (frame, b') \<Rightarrow> reserve_loop n (r @ [frame]) b'
           | None \<Rightarrow> (r, b))"

definition record_syscall :: "(u16 \<Rightarrow> u16 \<Rightarrow> nat) \<Rightarrow> u64 \<Rightarrow> u16 \<Rightarrow> Reserves \<Rightarrow> Reserves" where
  "record_syscall predicted pid nr st =
     (let s0 = (case bt_get (pid_states st) pid of Some s \<Rightarrow> s | None \<Rightarrow> pid_state_new);
          s1 = s0\<lparr>history := (history s0)[history_idx s0 mod HISTORY_LEN := nr],
                  history_idx := history_idx s0 + 1\<rparr>
      in if 2 \<le> history_idx s1
         then let prev = history s1 ! ((history_idx s1 - 2) mod HISTORY_LEN);
                  predicted_pages = predicted prev nr;
                  (r, b) = (if 0 < predicted_pages
                            then reserve_loop (min predicted_pages MAX_RESERVE_PAGES) (reserve s1) (pool st)
                            else (reserve s1, pool st))
              in st\<lparr>pid_states := bt_insert pid (s1\<lparr>reserve := r\<rparr>) (pid_states st), pool := b\<rparr>
         else st\<lparr>pid_states := bt_insert pid s1 (pid_states st)\<rparr>)"

definition alloc_frame_predictive :: "u64 \<Rightarrow> Reserves \<Rightarrow> (u64 \<times> Reserves) option" where
  "alloc_frame_predictive pid st =
     (let fallback = map_option (\<lambda>(f, b). (f, st\<lparr>pool := b\<rparr>)) (alloc_frame (pool st))
      in case bt_get (pid_states st) pid of
           Some s \<Rightarrow> (if reserve s = [] then fallback
                     else Some (last (reserve s),
                                st\<lparr>pid_states := bt_insert pid (s\<lparr>reserve := butlast (reserve s)\<rparr>)
                                                  (pid_states st)\<rparr>))
         | None \<Rightarrow> fallback)"

fun free_all :: "u64 list \<Rightarrow> BuddyAllocator \<Rightarrow> BuddyAllocator rust option" where
  "free_all [] b = Some (Inr b)"
| "free_all (f # fs) b =
     (case free_frame f b of
        None \<Rightarrow> None
      | Some (Inl e) \<Rightarrow> Some (Inl e)
      | Some (Inr b') \<Rightarrow> free_all fs b')"

definition reserve_remove_pid :: "u64 \<Rightarrow> Reserves \<Rightarrow> Reserves rust option" where
  "reserve_remove_pid pid st =
     (case bt_get (pid_states st) pid of
        None \<Rightarrow> Some (Inr st)
      | Some s \<Rightarrow>
          map_option (map_sum id (\<lambda>b. st\<lparr>pid_states := bt_remove pid (pid_states st), pool := b\<rparr>))
            (free_all (reserve s) (pool st)))"

subsection \<open>Frames held outside the free space\<close>

definition held :: "u64 set \<Rightarrow> BuddyAllocator \<Rightarrow> bool" where
  "held H b \<longleftrightarrow> pmm_inv b \<and> (\<forall>f \<in> H. frame_addr_ok f \<and> frame_span f \<inter> free_space b = {})"

definition spans :: "u64 set \<Rightarrow> nat set" where
  "spans H = \<Union> (frame_span ` H)"

lemma spans_simps [simp]:
  "spans {} = {}" "spans (insert f H) = frame_span f \<union> spans H" "spans (H \<union> K) = spans H \<union> spans K"
  by (auto simp: spans_def)

lemma frame_span_start [simp]: "unat f \<in> frame_span f"
  by (simp add: frame_span_def)

lemma frames_disjoint:
  assumes "frame_addr_ok f" and "frame_addr_ok g" and "f \<noteq> g"
  shows "frame_span f \<inter> frame_span g = {}"
proof -
  obtain i j where i: "unat f = 4096 * i" and j: "unat g = 4096 * j"
    using assms(1,2) by (auto simp: frame_addr_ok_def block_ok_def aligned_dvd elim!: dvdE)
  moreover have "unat f \<noteq> unat g" using assms(3) by (simp add: word_unat_eq_iff)
  ultimately have "i < j \<or> j < i" by auto
  then have "unat f + 4096 \<le> unat g \<or> unat g + 4096 \<le> unat f" using i j by auto
  then show ?thesis by (auto simp: frame_span_def span_def)
qed

lemma held_alloc:
  assumes "held H b" and "alloc_frame b = Some (f, b')"
  shows "held (insert f H) b'" and "f \<notin> H"
    and "free_space b' \<union> frame_span f = free_space b"
proof -
  have inv: "pmm_inv b" using assms(1) by (simp add: held_def)
  note p = pmm.alloc_inv [OF inv assms(2)] pmm.alloc_frame_ok [OF inv assms(2)]
    pmm.alloc_free [OF inv assms(2)] pmm.alloc_takes [OF inv assms(2)]
  then show "held (insert f H) b'" using assms(1) by (auto simp: held_def)
  show "f \<notin> H" using p(3) assms(1) frame_span_start [of f] unfolding held_def by blast
  show "free_space b' \<union> frame_span f = free_space b" using p(3,4) by auto
qed

lemma held_free_all:
  assumes "held (set fs \<union> H) b" and "distinct fs" and "set fs \<inter> H = {}"
  shows "\<exists>b'. free_all fs b = Some (Inr b') \<and> held H b' \<and>
           free_space b' = free_space b \<union> spans (set fs)"
  using assms
proof (induction fs arbitrary: b)
  case (Cons f fs)
  have f: "pmm_inv b" "frame_addr_ok f" "frame_span f \<inter> free_space b = {}"
    using Cons.prems(1) by (auto simp: held_def)
  from pmm.release_gives [OF f] obtain b1 where b1: "free_frame f b = Some (Inr b1)" "pmm_inv b1"
    "free_space b1 = free_space b \<union> frame_span f" by blast
  have "frame_span g \<inter> frame_span f = {}" if "g \<in> set fs \<union> H" for g
    using that Cons.prems f(2) by (intro frames_disjoint) (auto simp: held_def)
  then have "held (set fs \<union> H) b1" using b1 Cons.prems(1) by (auto simp: held_def)
  from Cons.IH [OF this] Cons.prems(2,3) b1 show ?case by auto
qed simp

lemma held_reserve_loop:
  assumes "held (set r \<union> H) b" and "distinct r" and "set r \<inter> H = {}" and "length r \<le> MAX_RESERVE_PAGES"
    and "reserve_loop n r b = (r', b')"
  shows "held (set r' \<union> H) b' \<and> distinct r' \<and> set r' \<inter> H = {} \<and> length r' \<le> MAX_RESERVE_PAGES \<and>
         free_space b' \<union> spans (set r') = free_space b \<union> spans (set r)"
  using assms
proof (induction n arbitrary: r b)
  case (Suc n)
  show ?case
  proof (cases "length r < MAX_RESERVE_PAGES \<and> alloc_frame b \<noteq> None")
    case True
    then obtain f b1 where a: "alloc_frame b = Some (f, b1)" by auto
    note h = held_alloc [OF Suc.prems(1) a]
    have "held (set (r @ [f]) \<union> H) b1" using h(1) by (simp add: insert_commute)
    moreover have "reserve_loop n (r @ [f]) b1 = (r', b')" using True a Suc.prems(5) by simp
    ultimately show ?thesis using Suc.IH [of "r @ [f]" b1] Suc.prems h(2,3) True by auto
  next
    case False
    then have "r' = r \<and> b' = b" using Suc.prems(5) by (auto split: if_splits option.splits)
    then show ?thesis using Suc.prems by simp
  qed
qed simp

subsection \<open>No frame is lost or handed out twice\<close>

definition reserve_of :: "u64 \<Rightarrow> Reserves \<Rightarrow> u64 list" where
  "reserve_of pid st = (case bt_get (pid_states st) pid of Some s \<Rightarrow> reserve s | None \<Rightarrow> [])"

definition reserved_by :: "(u64 \<Rightarrow> bool) \<Rightarrow> Reserves \<Rightarrow> u64 set" where
  "reserved_by P st = (\<Union>p \<in> Collect P. set (reserve_of p st))"

definition reserves_inv :: "Reserves \<Rightarrow> bool" where
  "reserves_inv st \<longleftrightarrow> held (reserved_by (\<lambda>_. True) st) (pool st) \<and>
     (\<forall>p. distinct (reserve_of p st) \<and> length (reserve_of p st) \<le> MAX_RESERVE_PAGES) \<and>
     (\<forall>p q. p \<noteq> q \<longrightarrow> set (reserve_of p st) \<inter> set (reserve_of q st) = {})"

definition unclaimed :: "Reserves \<Rightarrow> nat set" where
  "unclaimed st = free_space (pool st) \<union> spans (reserved_by (\<lambda>_. True) st)"

lemma reserved_split:
  "reserved_by (\<lambda>_. True) st = set (reserve_of pid st) \<union> reserved_by (\<lambda>q. q \<noteq> pid) st"
  by (auto simp: reserved_by_def)

text \<open>Every operation replaces the reserve of one process and the pool.\<close>

definition only_pid :: "u64 \<Rightarrow> Reserves \<Rightarrow> Reserves \<Rightarrow> bool" where
  "only_pid pid st st' \<longleftrightarrow> (\<forall>q. q \<noteq> pid \<longrightarrow> reserve_of q st' = reserve_of q st)"

lemma reserves_inv_pid:
  "reserves_inv st \<longleftrightarrow>
     held (set (reserve_of pid st) \<union> reserved_by (\<lambda>q. q \<noteq> pid) st) (pool st) \<and>
     distinct (reserve_of pid st) \<and> length (reserve_of pid st) \<le> MAX_RESERVE_PAGES \<and>
     set (reserve_of pid st) \<inter> reserved_by (\<lambda>q. q \<noteq> pid) st = {} \<and>
     (\<forall>p. p \<noteq> pid \<longrightarrow> distinct (reserve_of p st) \<and> length (reserve_of p st) \<le> MAX_RESERVE_PAGES) \<and>
     (\<forall>p q. p \<noteq> pid \<and> q \<noteq> pid \<and> p \<noteq> q \<longrightarrow> set (reserve_of p st) \<inter> set (reserve_of q st) = {})"
  (is "?l = ?r")
proof
  assume ?l
  then show ?r unfolding reserves_inv_def reserved_split [of st pid] by (auto simp: reserved_by_def)
next
  assume r: ?r
  then have "set (reserve_of p st) \<inter> set (reserve_of q st) = {}" if "p \<noteq> q" for p q
    using that by (cases "p = pid"; cases "q = pid") (auto simp: reserved_by_def)
  with r show ?l unfolding reserves_inv_def reserved_split [of st pid] by (metis)
qed

lemma only_pid_reserved:
  "only_pid pid st st' \<Longrightarrow> reserved_by (\<lambda>q. q \<noteq> pid) st' = reserved_by (\<lambda>q. q \<noteq> pid) st"
  by (simp add: only_pid_def reserved_by_def)

lemma reserves_inv_step:
  assumes "reserves_inv st" and "only_pid pid st st'"
    and "held (set (reserve_of pid st') \<union> reserved_by (\<lambda>q. q \<noteq> pid) st) (pool st')"
    and "distinct (reserve_of pid st')" and "length (reserve_of pid st') \<le> MAX_RESERVE_PAGES"
    and "set (reserve_of pid st') \<inter> reserved_by (\<lambda>q. q \<noteq> pid) st = {}"
  shows "reserves_inv st'"
  using assms only_pid_reserved [OF assms(2)]
  unfolding reserves_inv_pid [of _ pid] only_pid_def by simp

lemma unclaimed_pid:
  "unclaimed st = free_space (pool st) \<union> spans (set (reserve_of pid st)) \<union>
     spans (reserved_by (\<lambda>q. q \<noteq> pid) st)"
  unfolding unclaimed_def reserved_split [of st pid] by auto

lemma record_syscall_cases:
  obtains r b where "reserve_of pid (record_syscall predicted pid nr st) = r"
    and "pool (record_syscall predicted pid nr st) = b"
    and "\<exists>n. reserve_loop n (reserve_of pid st) (pool st) = (r, b)"
    and "only_pid pid st (record_syscall predicted pid nr st)"
proof
  let ?st = "record_syscall predicted pid nr st"
  show "only_pid pid st ?st"
    by (simp add: only_pid_def reserve_of_def record_syscall_def Let_def split: prod.splits)
  have zero: "\<exists>n. reserve_loop n r b = (r, b)" for r b
    by (rule exI [of _ 0]) simp
  show "\<exists>n. reserve_loop n (reserve_of pid st) (pool st) = (reserve_of pid ?st, pool ?st)"
    using zero
    by (auto simp: reserve_of_def record_syscall_def Let_def pid_state_new_def
        split: prod.splits option.splits)
qed (rule refl)+

lemma record_syscall_keeps:
  assumes "reserves_inv st"
  shows "reserves_inv (record_syscall predicted pid nr st)"
    and "unclaimed (record_syscall predicted pid nr st) = unclaimed st"
proof -
  let ?st = "record_syscall predicted pid nr st"
  obtain n where loop: "reserve_loop n (reserve_of pid st) (pool st) = (reserve_of pid ?st, pool ?st)"
    and only: "only_pid pid st ?st" by (rule record_syscall_cases [of pid predicted nr st]) auto
  have "held (set (reserve_of pid st) \<union> reserved_by (\<lambda>q. q \<noteq> pid) st) (pool st)"
    "distinct (reserve_of pid st)" "set (reserve_of pid st) \<inter> reserved_by (\<lambda>q. q \<noteq> pid) st = {}"
    "length (reserve_of pid st) \<le> MAX_RESERVE_PAGES"
    using assms by (simp_all add: reserves_inv_pid [of _ pid])
  note h = held_reserve_loop [OF this loop]
  then show "reserves_inv ?st" using reserves_inv_step [OF assms only] by simp
  show "unclaimed ?st = unclaimed st"
    using h unfolding unclaimed_pid [of _ pid] only_pid_reserved [OF only] by simp
qed

lemma held_subset: "held H b \<Longrightarrow> K \<subseteq> H \<Longrightarrow> held K b"
  by (auto simp: held_def)

lemma spans_disjoint:
  assumes "held (insert f H) b" and "f \<notin> H"
  shows "frame_span f \<inter> spans H = {}"
proof -
  have "frame_span f \<inter> frame_span g = {}" if "g \<in> H" for g
    using assms that by (intro frames_disjoint) (auto simp: held_def)
  then show ?thesis by (auto simp: spans_def)
qed

text \<open>Taking a frame out of the reserve, and taking one out of the pool.\<close>

lemma alloc_from_reserve:
  assumes "reserves_inv st" and "bt_get (pid_states st) pid = Some s" and "reserve s \<noteq> []"
    and "st' = st\<lparr>pid_states := bt_insert pid (s\<lparr>reserve := butlast (reserve s)\<rparr>) (pid_states st)\<rparr>"
  shows "reserves_inv st' \<and> frame_span (last (reserve s)) \<subseteq> unclaimed st \<and>
         unclaimed st' = unclaimed st - frame_span (last (reserve s))"
proof -
  let ?f = "last (reserve s)" and ?R = "reserved_by (\<lambda>q. q \<noteq> pid) st"
  have r: "reserve_of pid st = butlast (reserve s) @ [?f]" "reserve_of pid st' = butlast (reserve s)"
    using assms(2-4) by (simp_all add: reserve_of_def)
  have only: "only_pid pid st st'" using assms(4) by (simp add: only_pid_def reserve_of_def)
  have p: "pool st' = pool st" using assms(4) by simp
  have h: "held (insert ?f (set (butlast (reserve s)) \<union> ?R)) (pool st)"
    and d: "?f \<notin> set (butlast (reserve s)) \<union> ?R"
    using assms(1) unfolding reserves_inv_pid [of st pid] r(1) by auto
  have "reserves_inv st'"
  proof (rule reserves_inv_step [OF assms(1) only])
    show "held (set (reserve_of pid st') \<union> ?R) (pool st')"
      using held_subset [OF h] p r(2) by auto
  qed (use assms(1) r in \<open>auto simp: reserves_inv_pid [of st pid]\<close>)
  moreover have "frame_span ?f \<inter> free_space (pool st) = {}" using h by (simp add: held_def)
  moreover note spans_disjoint [OF h d]
  ultimately show ?thesis
    unfolding unclaimed_pid [of _ pid] only_pid_reserved [OF only] r p by auto
qed

lemma alloc_from_pool:
  assumes "reserves_inv st" and "alloc_frame (pool st) = Some (f, b)"
  shows "reserves_inv (st\<lparr>pool := b\<rparr>) \<and> frame_span f \<subseteq> unclaimed st \<and>
         unclaimed (st\<lparr>pool := b\<rparr>) = unclaimed st - frame_span f"
proof -
  let ?R = "reserved_by (\<lambda>_. True) st"
  have same: "reserve_of p (st\<lparr>pool := b\<rparr>) = reserve_of p st"
    "reserved_by P (st\<lparr>pool := b\<rparr>) = reserved_by P st" for p P
    by (simp_all add: reserve_of_def reserved_by_def)
  have hd: "held ?R (pool st)" using assms(1) by (simp add: reserves_inv_def)
  note h = held_alloc [OF hd assms(2)]
  have tk: "free_space b = free_space (pool st) - frame_span f"
    using pmm.alloc_takes [OF _ assms(2)] hd by (simp add: held_def)
  have "held ?R b" using held_subset [OF h(1)] by auto
  moreover note spans_disjoint [OF h(1,2)]
  ultimately show ?thesis using assms(1) h(3) tk
    by (auto simp: reserves_inv_def unclaimed_def same)
qed

lemma alloc_predictive_correct:
  assumes "reserves_inv st" and "alloc_frame_predictive pid st = Some (f, st1)"
  shows "reserves_inv st1 \<and> frame_span f \<subseteq> unclaimed st \<and> unclaimed st1 = unclaimed st - frame_span f"
proof (cases "reserve_of pid st = []")
  case True
  then obtain b where "alloc_frame (pool st) = Some (f, b)" and "st1 = st\<lparr>pool := b\<rparr>"
    using assms(2) by (auto simp: alloc_frame_predictive_def reserve_of_def Let_def split: option.splits)
  then show ?thesis using alloc_from_pool [OF assms(1)] by simp
next
  case False
  then obtain s where s: "bt_get (pid_states st) pid = Some s" "reserve s \<noteq> []"
    by (auto simp: reserve_of_def split: option.splits)
  moreover have "f = last (reserve s)"
    and "st1 = st\<lparr>pid_states := bt_insert pid (s\<lparr>reserve := butlast (reserve s)\<rparr>) (pid_states st)\<rparr>"
    using s assms(2) by (simp_all add: alloc_frame_predictive_def Let_def)
  ultimately show ?thesis using alloc_from_reserve [OF assms(1)] by blast
qed

lemma reserve_remove_correct:
  assumes "reserves_inv st"
  shows "\<exists>st'. reserve_remove_pid pid st = Some (Inr st') \<and> reserves_inv st' \<and>
           reserve_of pid st' = [] \<and> unclaimed st' = unclaimed st"
proof (cases "bt_get (pid_states st) pid")
  case None
  then show ?thesis using assms by (simp add: reserve_remove_pid_def reserve_of_def)
next
  case (Some s)
  let ?R = "reserved_by (\<lambda>q. q \<noteq> pid) st"
  have r: "reserve_of pid st = reserve s" using Some by (simp add: reserve_of_def)
  have "held (set (reserve s) \<union> ?R) (pool st)" "distinct (reserve s)" "set (reserve s) \<inter> ?R = {}"
    using assms unfolding reserves_inv_pid [of st pid] r by auto
  from held_free_all [OF this] obtain b where b: "free_all (reserve s) (pool st) = Some (Inr b)"
    "held ?R b" "free_space b = free_space (pool st) \<union> spans (set (reserve s))" by blast
  define st' where "st' = st\<lparr>pid_states := bt_remove pid (pid_states st), pool := b\<rparr>"
  have only: "only_pid pid st st'" and r': "reserve_of pid st' = []" and p: "pool st' = b"
    by (simp_all add: st'_def only_pid_def reserve_of_def)
  have "reserves_inv st'" using reserves_inv_step [OF assms only] b(2) r' p by simp
  moreover have "unclaimed st' = unclaimed st"
    unfolding unclaimed_pid [of _ pid] only_pid_reserved [OF only] r r' p b(3) by auto
  ultimately show ?thesis using Some b(1) r' by (simp add: reserve_remove_pid_def st'_def)
qed

text \<open>C17: frames set aside for processes are neither lost nor handed out twice. Recording a system
  call only moves frames between the free space and the reserve; an allocation takes one frame
  that was free or reserved for the caller and removes exactly its bytes; the exit of a process
  returns (it cannot panic or hang) and gives its whole reserve back.\<close>

theorem reserves_lose_no_frame:
  assumes "reserves_inv st"
  shows "reserves_inv (record_syscall predicted pid nr st) \<and>
         unclaimed (record_syscall predicted pid nr st) = unclaimed st \<and>
         (alloc_frame_predictive pid st = Some (f, st1) \<longrightarrow>
            reserves_inv st1 \<and> frame_span f \<subseteq> unclaimed st \<and>
            unclaimed st1 = unclaimed st - frame_span f) \<and>
         (\<exists>st2. reserve_remove_pid pid st = Some (Inr st2) \<and> reserves_inv st2 \<and>
            reserve_of pid st2 = [] \<and> unclaimed st2 = unclaimed st)"
  using record_syscall_keeps [OF assms] reserve_remove_correct [OF assms]
    alloc_predictive_correct [OF assms] by simp

lemma reserves_example_inv: "reserves_inv \<lparr>pid_states = [], pool = pmm_example\<rparr>"
  by (simp add: reserves_inv_def held_def reserved_by_def reserve_of_def pmm_example_inv)

theorem reserves_lose_no_frame_witness:
  "\<exists>st1. alloc_frame_predictive 7 \<lparr>pid_states = [], pool = pmm_example\<rparr> = Some (0x2000, st1) \<and>
     unclaimed st1 = {0x2000 ..< 0x4000} - {0x2000 ..< 0x3000}"
proof -
  let ?st = "\<lparr>pid_states = [], pool = pmm_example\<rparr>"
  have a: "alloc_frame_predictive 7 ?st = Some (0x2000, ?st\<lparr>pool := pmm_example_split\<rparr>)"
    using pmm_example_alloc by (simp add: alloc_frame_predictive_def alloc_frame_def)
  have "unclaimed ?st = {0x2000 ..< 0x4000}"
    by (simp add: unclaimed_def reserved_by_def reserve_of_def pmm_example_space)
  then show ?thesis
    using reserves_lose_no_frame [OF reserves_example_inv, of _ 7 0 "0x2000" "?st\<lparr>pool := pmm_example_split\<rparr>"] a
    by (simp add: frame_span_def span_def)
qed

end
