(* ===== verification/Vmm.thy ===== *)
theory Vmm
  imports Self_Model
begin

section \<open>Page tables and copy-on-write\<close>

text \<open>
  Model of \<^verbatim>\<open>kernel/src/memory/vmm.rs\<close>. Page tables are 64-bit cells of the kernel memory
  held by the frame allocator's state: entry \<open>i\<close> of the table at physical address \<open>t\<close> is the
  cell at \<open>phys_offset + t + 8 * i\<close>. TLB maintenance has no counterpart. The page-table crate is
  external: its \<^verbatim>\<open>map_to\<close> is an argument of the definitions that call it, applied to the
  top-level table the crate's mapper was created with.
\<close>

definition PTE_PRESENT :: u64 where "PTE_PRESENT = 1"

definition PTE_WRITABLE :: u64 where "PTE_WRITABLE = push_bit 1 1"

definition PTE_ACCESSED :: u64 where "PTE_ACCESSED = push_bit 5 1"

definition PTE_HUGE :: u64 where "PTE_HUGE = push_bit 7 1"

definition PTE_COW :: u64 where "PTE_COW = push_bit 9 1"

definition PTE_SWAPPED :: u64 where "PTE_SWAPPED = push_bit 10 1"

definition PTE_NX :: u64 where "PTE_NX = push_bit 63 1"

definition PTE_ADDR_MASK :: u64 where "PTE_ADDR_MASK = 0x000FFFFFFFFFF000"

definition VDSO_ADDR :: u64 where "VDSO_ADDR = 0x00007FFFFFE00000"

record Vm =
  frames :: BuddyAllocator
  vm_reserves :: "(u64, PidState) btree"
  cow_refs :: "(u64, u8) btree"
  vmm_l4 :: u64

text \<open>Cells of physical memory through the window.\<close>

definition rd :: "Vm \<Rightarrow> u64 \<Rightarrow> u64" where
  "rd vm a = mem (frames vm) (phys_offset (frames vm) + a)"

definition wr :: "u64 \<Rightarrow> u64 \<Rightarrow> Vm \<Rightarrow> Vm" where
  "wr a v vm = vm\<lparr>frames := (frames vm)\<lparr>mem := (mem (frames vm))(phys_offset (frames vm) + a := v)\<rparr>\<rparr>"

definition set_frames :: "BuddyAllocator \<Rightarrow> Vm \<Rightarrow> Vm" where
  "set_frames b vm = vm\<lparr>frames := b\<rparr>"

text \<open>\<^verbatim>\<open>write_bytes(.., 0, 4096)\<close> and \<^verbatim>\<open>copy_nonoverlapping(.., 4096)\<close> on whole frames.\<close>

definition in_frame :: "u64 \<Rightarrow> u64 \<Rightarrow> bool" where
  "in_frame f a \<longleftrightarrow> a - f < 4096"

definition zero_frame :: "u64 \<Rightarrow> Vm \<Rightarrow> Vm" where
  "zero_frame f vm = vm\<lparr>frames := (frames vm)\<lparr>mem := (\<lambda>v.
     if in_frame (phys_offset (frames vm) + f) v then 0 else mem (frames vm) v)\<rparr>\<rparr>"

definition copy_frame :: "u64 \<Rightarrow> u64 \<Rightarrow> Vm \<Rightarrow> Vm" where
  "copy_frame src dst vm = vm\<lparr>frames := (frames vm)\<lparr>mem := (\<lambda>v.
     if in_frame (phys_offset (frames vm) + dst) v then mem (frames vm) (v - dst + src)
     else mem (frames vm) v)\<rparr>\<rparr>"

definition flag :: "u64 \<Rightarrow> u64 \<Rightarrow> bool" where
  "flag f e \<longleftrightarrow> e AND f \<noteq> 0"

definition pte_phys :: "u64 \<Rightarrow> u64" where
  "pte_phys e = e AND PTE_ADDR_MASK"

definition table_idx :: "nat \<Rightarrow> u64 \<Rightarrow> u64" where
  "table_idx shift va = drop_bit shift va AND 0x1FF"

definition slot_of :: "u64 \<Rightarrow> u64 \<Rightarrow> u64" where
  "slot_of table idx = table + 8 * idx"

text \<open>
  The walk that \<^verbatim>\<open>cow_page_fault\<close> and \<^verbatim>\<open>update_user_pte_flags\<close> share: the cell of the leaf
  entry, or \<open>None\<close> where a level is absent or huge.
\<close>

definition leaf_slot :: "u64 \<Rightarrow> u64 \<Rightarrow> Vm \<Rightarrow> u64 option" where
  "leaf_slot cr3 va vm =
     (let l4e = rd vm (slot_of cr3 (table_idx 39 va))
      in if \<not> flag PTE_PRESENT l4e then None
      else let l3e = rd vm (slot_of (pte_phys l4e) (table_idx 30 va))
      in if \<not> flag PTE_PRESENT l3e \<or> flag PTE_HUGE l3e then None
      else let l2e = rd vm (slot_of (pte_phys l3e) (table_idx 21 va))
      in if \<not> flag PTE_PRESENT l2e \<or> flag PTE_HUGE l2e then None
      else Some (slot_of (pte_phys l2e) (table_idx 12 va)))"

subsection \<open>Copy-on-write faults\<close>

definition cow_new_flags :: "u64 \<Rightarrow> u64" where
  "cow_new_flags l1e = (l1e AND NOT PTE_ADDR_MASK AND NOT PTE_COW) OR PTE_WRITABLE"

text \<open>The reference count after one owner leaves: the remaining owners, 0 for the last one.\<close>

definition cow_release :: "u64 \<Rightarrow> (u64, u8) btree \<Rightarrow> u8 \<times> (u64, u8) btree" where
  "cow_release phys refs =
     (case bt_get refs phys of
        Some rc \<Rightarrow> if rc > 1 then (rc - 1, bt_insert phys (rc - 1) refs) else (0, bt_remove phys refs)
      | None \<Rightarrow> (0, bt_remove phys refs))"

definition cow_page_fault :: "u64 \<Rightarrow> u64 \<Rightarrow> Vm \<Rightarrow> bool \<times> Vm" where
  "cow_page_fault cr3 cr2 vm =
     (case leaf_slot (cr3 AND NOT 0xFFF) cr2 vm of
        None \<Rightarrow> (False, vm)
      | Some l1 \<Rightarrow>
          (let l1e = rd vm l1
           in if \<not> flag PTE_PRESENT l1e then (False, vm)
           else if \<not> flag PTE_COW l1e then (False, vm)
           else let old_phys = pte_phys l1e;
                    new_flags = cow_new_flags l1e;
                    (remaining, refs) = cow_release old_phys (cow_refs vm);
                    vm1 = vm\<lparr>cow_refs := refs\<rparr>
           in if remaining = 0 then (True, wr l1 (old_phys OR new_flags) vm1)
           else case alloc_frame (frames vm1) of
                  None \<Rightarrow> (False, vm1)
                | Some (new_phys, b) \<Rightarrow>
                    (True, wr l1 (new_phys OR new_flags)
                             (copy_frame old_phys new_phys (set_frames b vm1)))))"

subsection \<open>Loops over table entries\<close>

text \<open>A \<open>for\<close> loop whose body may return early with an error; the state reached stays.\<close>

primrec for_each :: "'i list \<Rightarrow> ('i \<Rightarrow> 's \<Rightarrow> bool \<times> 's) \<Rightarrow> 's \<Rightarrow> bool \<times> 's" where
  "for_each [] f s = (True, s)"
| "for_each (i # is) f s = (case f i s of (True, s') \<Rightarrow> for_each is f s' | (False, s') \<Rightarrow> (False, s'))"

definition indices :: "nat \<Rightarrow> u64 list" where
  "indices n = map of_nat [0..<n]"

definition ensure_table :: "u64 \<Rightarrow> u64 \<Rightarrow> Vm \<Rightarrow> u64 option \<times> Vm" where
  "ensure_table dst_slot src_entry vm =
     (let existing = rd vm dst_slot
      in if flag PTE_PRESENT existing then (Some (pte_phys existing), vm)
      else case alloc_frame (frames vm) of
             None \<Rightarrow> (None, vm)
           | Some (new_phys, b) \<Rightarrow>
               (Some new_phys,
                wr dst_slot (new_phys OR (src_entry AND NOT PTE_ADDR_MASK))
                  (zero_frame new_phys (set_frames b vm))))"

definition saturating_inc :: "u8 \<Rightarrow> u8" where
  "saturating_inc x = (if x = - 1 then x else x + 1)"

text \<open>One leaf entry of \<^verbatim>\<open>copy_user_address_space\<close>.\<close>

definition share_leaf :: "u64 \<Rightarrow> u64 \<Rightarrow> Vm \<times> nat \<Rightarrow> Vm \<times> nat" where
  "share_leaf src_slot dst_slot st =
     (let (vm, shared) = st; l1e = rd vm src_slot
      in if \<not> flag PTE_PRESENT l1e then st
      else let phys = pte_phys l1e
      in if flag PTE_WRITABLE l1e \<or> flag PTE_COW l1e
         then let cow_pte = (l1e AND NOT PTE_WRITABLE) OR PTE_COW;
                  vm1 = wr dst_slot cow_pte (wr src_slot cow_pte vm);
                  rc = (case bt_get (cow_refs vm1) phys of Some rc \<Rightarrow> rc | None \<Rightarrow> 1)
              in (vm1\<lparr>cow_refs := bt_insert phys (saturating_inc rc) (cow_refs vm1)\<rparr>, shared + 1)
         else (wr dst_slot l1e vm, shared + 1))"

definition share_l1 :: "u64 \<Rightarrow> u64 \<Rightarrow> Vm \<times> nat \<Rightarrow> bool \<times> Vm \<times> nat" where
  "share_l1 src_l1 dst_l1 =
     for_each (indices 512) (\<lambda>i st. (True, share_leaf (slot_of src_l1 i) (slot_of dst_l1 i) st))"

text \<open>One upper-level entry: skip it, or make sure the destination table exists and descend.\<close>

definition share_entry ::
  "bool \<Rightarrow> (u64 \<Rightarrow> u64 \<Rightarrow> Vm \<times> nat \<Rightarrow> bool \<times> Vm \<times> nat) \<Rightarrow> u64 \<Rightarrow> u64 \<Rightarrow> Vm \<times> nat \<Rightarrow> bool \<times> Vm \<times> nat" where
  "share_entry huge_check descend src_slot dst_slot st =
     (let (vm, shared) = st; e = rd vm src_slot
      in if \<not> flag PTE_PRESENT e then (True, st)
      else if huge_check \<and> flag PTE_HUGE e then (True, st)
      else case ensure_table dst_slot e vm of
             (None, vm1) \<Rightarrow> (False, vm1, shared)
           | (Some dst, vm1) \<Rightarrow> descend (pte_phys e) dst (vm1, shared))"

definition share_l2 :: "u64 \<Rightarrow> u64 \<Rightarrow> Vm \<times> nat \<Rightarrow> bool \<times> Vm \<times> nat" where
  "share_l2 src_l2 dst_l2 =
     for_each (indices 512) (\<lambda>i. share_entry True share_l1 (slot_of src_l2 i) (slot_of dst_l2 i))"

definition share_l3 :: "u64 \<Rightarrow> u64 \<Rightarrow> Vm \<times> nat \<Rightarrow> bool \<times> Vm \<times> nat" where
  "share_l3 src_l3 dst_l3 =
     for_each (indices 512) (\<lambda>i. share_entry True share_l2 (slot_of src_l3 i) (slot_of dst_l3 i))"

definition copy_user_address_space :: "u64 \<Rightarrow> u64 \<Rightarrow> Vm \<Rightarrow> bool \<times> Vm \<times> nat" where
  "copy_user_address_space src_cr3 dst_cr3 vm =
     for_each (indices 256) (\<lambda>i. share_entry False share_l3 (slot_of src_cr3 i) (slot_of dst_cr3 i)) (vm, 0)"

text \<open>
  \<^verbatim>\<open>release_user_cow_refs\<close>. Freeing a frame can panic or not return, which ends the walk: the
  flag of the loop state is false then.
\<close>

definition release_leaf :: "u64 \<Rightarrow> Vm \<Rightarrow> bool \<times> Vm" where
  "release_leaf slot vm =
     (let l1e = rd vm slot
      in if \<not> flag PTE_PRESENT l1e then (True, vm)
      else if \<not> flag PTE_COW l1e then (True, vm)
      else let phys = pte_phys l1e
      in case bt_get (cow_refs vm) phys of
           None \<Rightarrow> (True, vm)
         | Some rc \<Rightarrow>
             if rc \<le> 1
             then (case free_frame phys (frames vm) of
                     Some (Inr b) \<Rightarrow> (True, set_frames b (vm\<lparr>cow_refs := bt_remove phys (cow_refs vm)\<rparr>))
                   | _ \<Rightarrow> (False, vm\<lparr>cow_refs := bt_remove phys (cow_refs vm)\<rparr>))
             else (True, vm\<lparr>cow_refs := bt_insert phys (rc - 1) (cow_refs vm)\<rparr>))"

definition release_entry :: "bool \<Rightarrow> (u64 \<Rightarrow> Vm \<Rightarrow> bool \<times> Vm) \<Rightarrow> u64 \<Rightarrow> Vm \<Rightarrow> bool \<times> Vm" where
  "release_entry huge_check descend slot vm =
     (let e = rd vm slot
      in if \<not> flag PTE_PRESENT e \<or> huge_check \<and> flag PTE_HUGE e then (True, vm)
         else descend (pte_phys e) vm)"

definition release_l1 :: "u64 \<Rightarrow> Vm \<Rightarrow> bool \<times> Vm" where
  "release_l1 t = for_each (indices 512) (\<lambda>i. release_leaf (slot_of t i))"

definition release_l2 :: "u64 \<Rightarrow> Vm \<Rightarrow> bool \<times> Vm" where
  "release_l2 t = for_each (indices 512) (\<lambda>i. release_entry True release_l1 (slot_of t i))"

definition release_l3 :: "u64 \<Rightarrow> Vm \<Rightarrow> bool \<times> Vm" where
  "release_l3 t = for_each (indices 512) (\<lambda>i. release_entry True release_l2 (slot_of t i))"

definition release_user_cow_refs :: "u64 \<Rightarrow> Vm \<Rightarrow> bool \<times> Vm" where
  "release_user_cow_refs cr3 =
     for_each (indices 256) (\<lambda>i. release_entry False release_l3 (slot_of (cr3 AND NOT 0xFFF) i))"

text \<open>\<^verbatim>\<open>reclaim_file_backed_pages\<close> for a task whose page-table root is known.\<close>

definition reclaim_leaf :: "u8 \<Rightarrow> u64 \<Rightarrow> Vm \<times> nat \<Rightarrow> bool \<times> Vm \<times> nat" where
  "reclaim_leaf aggressiveness slot st =
     (let (vm, n) = st; l1e = rd vm slot
      in if flag PTE_PRESENT l1e \<and> (\<not> flag PTE_ACCESSED l1e \<or> aggressiveness > 3)
         then (True, wr slot ((l1e AND NOT PTE_PRESENT) OR PTE_SWAPPED) vm, n + 1)
         else (True, st))"

definition reclaim_entry ::
  "bool \<Rightarrow> (u64 \<Rightarrow> Vm \<times> nat \<Rightarrow> bool \<times> Vm \<times> nat) \<Rightarrow> u64 \<Rightarrow> Vm \<times> nat \<Rightarrow> bool \<times> Vm \<times> nat" where
  "reclaim_entry huge_check descend slot st =
     (let e = rd (fst st) slot
      in if \<not> flag PTE_PRESENT e \<or> huge_check \<and> flag PTE_HUGE e then (True, st)
         else descend (pte_phys e) st)"

definition reclaim_l1 :: "u8 \<Rightarrow> u64 \<Rightarrow> Vm \<times> nat \<Rightarrow> bool \<times> Vm \<times> nat" where
  "reclaim_l1 ag t = for_each (indices 512) (\<lambda>i. reclaim_leaf ag (slot_of t i))"

definition reclaim_l2 :: "u8 \<Rightarrow> u64 \<Rightarrow> Vm \<times> nat \<Rightarrow> bool \<times> Vm \<times> nat" where
  "reclaim_l2 ag t = for_each (indices 512) (\<lambda>i. reclaim_entry True (reclaim_l1 ag) (slot_of t i))"

definition reclaim_l3 :: "u8 \<Rightarrow> u64 \<Rightarrow> Vm \<times> nat \<Rightarrow> bool \<times> Vm \<times> nat" where
  "reclaim_l3 ag t = for_each (indices 512) (\<lambda>i. reclaim_entry False (reclaim_l2 ag) (slot_of t i))"

definition reclaim_file_backed_pages :: "u8 \<Rightarrow> u64 option \<Rightarrow> Vm \<Rightarrow> nat \<times> Vm" where
  "reclaim_file_backed_pages aggressiveness task_cr3 vm =
     (case task_cr3 of
        Some c \<Rightarrow> if c \<noteq> 0
          then (case for_each (indices 256)
                       (\<lambda>i. reclaim_entry False (reclaim_l3 aggressiveness) (slot_of c i)) (vm, 0)
                of (_, vm', n) \<Rightarrow> (n, vm'))
          else (0, vm)
      | None \<Rightarrow> (0, vm))"

subsection \<open>Protection changes\<close>

definition protect_pte :: "bool \<Rightarrow> bool \<Rightarrow> u64 \<Rightarrow> u64" where
  "protect_pte writable executable pte =
     (let p1 = (if writable then pte OR PTE_WRITABLE else pte AND NOT PTE_WRITABLE)
      in if \<not> executable then p1 OR PTE_NX else p1 AND NOT PTE_NX)"

definition protect_page :: "u64 \<Rightarrow> bool \<Rightarrow> bool \<Rightarrow> u64 \<Rightarrow> Vm \<Rightarrow> Vm" where
  "protect_page cr3 writable executable addr vm =
     (case leaf_slot cr3 addr vm of
        None \<Rightarrow> vm
      | Some l1 \<Rightarrow> (let pte = rd vm l1
                   in if flag PTE_PRESENT pte then wr l1 (protect_pte writable executable pte) vm else vm))"

partial_function (option) protect_loop :: "u64 \<Rightarrow> bool \<Rightarrow> bool \<Rightarrow> u64 \<Rightarrow> u64 \<Rightarrow> Vm \<Rightarrow> Vm option" where
  "protect_loop cr3 w x addr end_addr vm =
     (if addr < end_addr
      then protect_loop cr3 w x (addr + PAGE_SIZE) end_addr (protect_page cr3 w x addr vm)
      else Some vm)"

definition update_user_pte_flags :: "u64 \<Rightarrow> u64 \<Rightarrow> u64 \<Rightarrow> bool \<Rightarrow> bool \<Rightarrow> Vm \<Rightarrow> Vm option" where
  "update_user_pte_flags cr3 vaddr len_bytes writable executable vm =
     protect_loop (cr3 AND NOT 0xFFF) writable executable
       (vaddr AND NOT (PAGE_SIZE - 1)) (vaddr + len_bytes) vm"

subsection \<open>Kernel-side tables\<close>

datatype table_error = HugePageInPath | OutOfTableMemory

definition ensure_child_table :: "u64 \<Rightarrow> u64 \<Rightarrow> Vm \<Rightarrow> (table_error + u64) \<times> Vm" where
  "ensure_child_table table idx vm =
     (let entry = rd vm (slot_of table idx)
      in if flag PTE_PRESENT entry
         then (if flag PTE_HUGE entry then Inl HugePageInPath else Inr (pte_phys entry), vm)
         else case alloc_frame (frames vm) of
                None \<Rightarrow> (Inl OutOfTableMemory, vm)
              | Some (new_phys, b) \<Rightarrow>
                  (Inr new_phys,
                   wr (slot_of table idx) (new_phys OR 3) (zero_frame new_phys (set_frames b vm))))"

definition ensure_page_table_path :: "u64 \<Rightarrow> u64 \<Rightarrow> Vm \<Rightarrow> (table_error + unit) \<times> Vm" where
  "ensure_page_table_path cr3 virt vm =
     (case ensure_child_table (cr3 AND NOT 0xFFF) (table_idx 39 virt) vm of
        (Inl e, vm1) \<Rightarrow> (Inl e, vm1)
      | (Inr l3, vm1) \<Rightarrow>
     (case ensure_child_table l3 (table_idx 30 virt) vm1 of
        (Inl e, vm2) \<Rightarrow> (Inl e, vm2)
      | (Inr l2, vm2) \<Rightarrow>
     (case ensure_child_table l2 (table_idx 21 virt) vm2 of
        (Inl e, vm3) \<Rightarrow> (Inl e, vm3)
      | (Inr _, vm3) \<Rightarrow> (Inr (), vm3))))"

subsection \<open>Mapping through the crate\<close>

text \<open>
  \<^verbatim>\<open>VMM\<close> wraps the top-level table that was active in \<^verbatim>\<open>init\<close>; \<open>vmm_l4\<close> is its address. The
  arguments of \<open>map_to\<close> are that table, the page, the frame and the flags.
\<close>

type_synonym mapper = "u64 \<Rightarrow> u64 \<Rightarrow> u64 \<Rightarrow> u64 \<Rightarrow> Vm \<Rightarrow> bool \<times> Vm"

definition vmm_init :: "u64 \<Rightarrow> Vm \<Rightarrow> Vm" where
  "vmm_init cr3 vm = vm\<lparr>vmm_l4 := cr3 AND NOT 0xFFF\<rparr>"

definition map_page :: "mapper \<Rightarrow> u64 \<Rightarrow> u64 \<Rightarrow> u64 \<Rightarrow> Vm \<Rightarrow> bool \<times> Vm" where
  "map_page map_to page frame flags vm = map_to (vmm_l4 vm) page frame flags vm"

definition index_range :: "nat \<Rightarrow> nat \<Rightarrow> u64 list" where
  "index_range lo hi = map of_nat [lo..<hi]"

definition copy_kernel_half :: "u64 \<Rightarrow> u64 \<Rightarrow> Vm \<Rightarrow> Vm" where
  "copy_kernel_half cur new =
     fold (\<lambda>i vm. wr (slot_of new i) (rd vm (slot_of cur i)) vm) (index_range 256 512)"

text \<open>The trampoline is the bytes \<^verbatim>\<open>B8 0F 00 00 00 0F 05\<close>, little-endian in the first cell.\<close>

definition VDSO_CODE :: u64 where "VDSO_CODE = 0x00050F0000000FB8"

definition alloc_user_cr3 :: "mapper \<Rightarrow> u64 \<Rightarrow> Vm \<Rightarrow> u64 option \<times> Vm" where
  "alloc_user_cr3 map_to cr3 vm =
     (case alloc_frame (frames vm) of
        None \<Rightarrow> (None, vm)
      | Some (new_l4, b) \<Rightarrow>
          (let vm1 = copy_kernel_half (cr3 AND NOT 0xFFF) new_l4 (zero_frame new_l4 (set_frames b vm))
           in case alloc_frame (frames vm1) of
                None \<Rightarrow> (None, vm1)
              | Some (vdso, b2) \<Rightarrow>
                  (let vm2 = wr vdso VDSO_CODE (zero_frame vdso (set_frames b2 vm1))
                   in (Some new_l4, snd (map_page map_to VDSO_ADDR vdso (PTE_PRESENT OR 4) vm2)))))"

definition alloc_user_frame :: "u64 \<Rightarrow> Vm \<Rightarrow> (u64 \<times> Vm) option" where
  "alloc_user_frame pid vm =
     map_option (\<lambda>(f, r). (f, vm\<lparr>frames := pool r, vm_reserves := pid_states r\<rparr>))
       (alloc_frame_predictive pid \<lparr>pid_states = vm_reserves vm, pool = frames vm\<rparr>)"

definition user_flags :: "bool \<Rightarrow> bool \<Rightarrow> u64" where
  "user_flags writable executable =
     (let f = PTE_PRESENT OR 4;
          f1 = (if writable then f OR PTE_WRITABLE else f)
      in if \<not> executable then f1 OR PTE_NX else f1)"

definition map_user_range :: "mapper \<Rightarrow> u64 \<Rightarrow> u64 \<Rightarrow> u64 \<Rightarrow> bool \<Rightarrow> bool \<Rightarrow> Vm \<Rightarrow> bool \<times> Vm" where
  "map_user_range map_to pid vaddr size_bytes writable executable vm =
     (let pages = (size_bytes + PAGE_SIZE - 1) div PAGE_SIZE
      in for_each (indices (unat pages))
           (\<lambda>i vm. case alloc_user_frame pid vm of
                     None \<Rightarrow> (False, vm)
                   | Some (phys, vm1) \<Rightarrow>
                       map_page map_to (vaddr + i * PAGE_SIZE) phys (user_flags writable executable)
                         (zero_frame phys vm1))
           vm)"

definition map_user_range_in_cr3 ::
  "mapper \<Rightarrow> u64 \<Rightarrow> u64 \<Rightarrow> u64 \<Rightarrow> u64 \<Rightarrow> bool \<Rightarrow> bool \<Rightarrow> Vm \<Rightarrow> bool \<times> Vm" where
  "map_user_range_in_cr3 map_to pid target_cr3 vaddr size_bytes writable executable vm =
     map_user_range map_to pid vaddr size_bytes writable executable vm"

subsection \<open>Reading cells after each primitive\<close>

lemma rd_wr [simp]: "rd (wr a v vm) x = (if x = a then v else rd vm x)"
  by (auto simp: rd_def wr_def)

lemma in_frame_shift [simp]: "in_frame (o' + f) (o' + x) = in_frame f x"
  by (simp add: in_frame_def)

lemma rd_zero_frame [simp]: "rd (zero_frame f vm) x = (if in_frame f x then 0 else rd vm x)"
  by (simp add: rd_def zero_frame_def)

lemma rd_copy_frame [simp]:
  "rd (copy_frame src dst vm) x = (if in_frame dst x then rd vm (x - dst + src) else rd vm x)"
  by (simp add: rd_def copy_frame_def) (simp add: algebra_simps)

lemma rd_set_frames:
  "keeps_outside A (frames vm) b \<Longrightarrow> unat x \<notin> A \<Longrightarrow> rd (set_frames b vm) x = rd vm x"
  by (simp add: rd_def set_frames_def keeps_outside_def)

lemma rd_refs [simp]: "rd (vm\<lparr>cow_refs := r\<rparr>) x = rd vm x"
  by (simp add: rd_def)

lemma vm_parts [simp]:
  "cow_refs (wr a v vm) = cow_refs vm" "cow_refs (zero_frame f vm) = cow_refs vm"
  "cow_refs (copy_frame f g vm) = cow_refs vm" "cow_refs (set_frames b vm) = cow_refs vm"
  "vmm_l4 (wr a v vm) = vmm_l4 vm" "vmm_l4 (zero_frame f vm) = vmm_l4 vm"
  "vmm_l4 (copy_frame f g vm) = vmm_l4 vm" "vmm_l4 (set_frames b vm) = vmm_l4 vm"
  "frames (set_frames b vm) = b"
  by (simp_all add: wr_def zero_frame_def copy_frame_def set_frames_def)

lemma in_frame_span:
  assumes "take_bit 12 f = 0"
  shows "in_frame f x \<longleftrightarrow> unat x \<in> frame_span f"
proof -
  have e: "unat f + 4096 \<le> 2 ^ 64" using aligned_end [of 12 f] assms by simp
  show ?thesis
  proof (cases "f \<le> x")
    case True
    then have "unat (x - f) = unat x - unat f" by (simp add: unat_sub)
    then show ?thesis using True
      by (auto simp: in_frame_def frame_span_def span_def word_less_nat_alt word_le_nat_alt)
  next
    case False
    then have "unat x < unat f" by (simp add: word_le_nat_alt)
    moreover from this have "unat (x - f) = 2 ^ 64 + unat x - unat f"
      using unsigned_less [of f] by (subst unat_sub_if_size) (simp add: word_size)
    ultimately show ?thesis using e
      by (auto simp: in_frame_def frame_span_def span_def word_less_nat_alt)
  qed
qed

lemma frame_ok_aligned: "frame_addr_ok f \<Longrightarrow> take_bit 12 f = 0"
  by (simp add: frame_addr_ok_def block_ok_def)

lemma pte_phys_aligned [simp]: "take_bit 12 (pte_phys e) = 0"
proof -
  have "take_bit 12 (PTE_ADDR_MASK) = 0" by (simp add: PTE_ADDR_MASK_def take_bit_eq_mask mask_numeral)
  then show ?thesis by (simp add: pte_phys_def take_bit_and)
qed

lemma vm_store:
  assumes "pmm_inv (frames vm)"
  shows "unat a \<notin> free_space (frames vm) \<Longrightarrow> pmm_inv (frames (wr a v vm))"
    and "unat a \<notin> free_space (frames vm) \<Longrightarrow> free_space (frames (wr a v vm)) = free_space (frames vm)"
    and "take_bit 12 f = 0 \<Longrightarrow> frame_span f \<inter> free_space (frames vm) = {} \<Longrightarrow>
           pmm_inv (frames (zero_frame f vm))"
    and "take_bit 12 f = 0 \<Longrightarrow> frame_span f \<inter> free_space (frames vm) = {} \<Longrightarrow>
           free_space (frames (zero_frame f vm)) = free_space (frames vm)"
    and "take_bit 12 f = 0 \<Longrightarrow> frame_span f \<inter> free_space (frames vm) = {} \<Longrightarrow>
           pmm_inv (frames (copy_frame src f vm))"
    and "take_bit 12 f = 0 \<Longrightarrow> frame_span f \<inter> free_space (frames vm) = {} \<Longrightarrow>
           free_space (frames (copy_frame src f vm)) = free_space (frames vm)"
  using assms
  by (auto simp: wr_def zero_frame_def copy_frame_def in_frame_span disjoint_iff intro!: pmm_store)

subsection \<open>A small machine\<close>

text \<open>Four levels of tables from 0x10000 down to a shared page at 0x15000, which the cell at 0x16000
  of a second process maps too.\<close>

definition cow_cells :: "u64 \<Rightarrow> u64" where
  "cow_cells a =
     (if a = 0x10000 then 0x11003 else if a = 0x11000 then 0x12003 else if a = 0x12000 then 0x13003
      else if a = 0x13000 \<or> a = 0x16000 then 0x15201 else 0)"

definition cow_vm :: "BuddyAllocator \<Rightarrow> Vm" where
  "cow_vm b = \<lparr>frames = b\<lparr>mem := cow_cells\<rparr>, vm_reserves = [], cow_refs = [(0x15000, 2)],
     vmm_l4 = 0x10000\<rparr>"

lemma cow_vm_rd: "phys_offset b = 0 \<Longrightarrow> rd (cow_vm b) x = cow_cells x"
  by (simp add: rd_def cow_vm_def)

lemma cow_vm_leaf: "phys_offset b = 0 \<Longrightarrow> leaf_slot (0x10000 AND NOT 0xFFF) 0 (cow_vm b) = Some 0x13000"
  by (simp add: leaf_slot_def cow_vm_rd cow_cells_def flag_def pte_phys_def slot_of_def table_idx_def
      PTE_PRESENT_def PTE_HUGE_def PTE_ADDR_MASK_def)

lemma cow_vm_pte:
  "flag PTE_PRESENT 0x15201" "flag PTE_COW 0x15201" "pte_phys 0x15201 = 0x15000"
  "cow_cells 0x13000 = 0x15201" "cow_cells 0x16000 = 0x15201"
  by (simp_all add: flag_def pte_phys_def PTE_PRESENT_def PTE_COW_def PTE_ADDR_MASK_def cow_cells_def)

lemma cow_vm_inv:
  "pmm_inv (frames (cow_vm pmm_example))" "free_space (frames (cow_vm pmm_example)) = {0x2000 ..< 0x4000}"
proof -
  have "phys_offset pmm_example = 0" "mem pmm_example = (\<lambda>_. 0)" by (simp_all add: pmm_example_def)
  then have "\<forall>x. unat x \<in> free_space pmm_example \<longrightarrow>
      cow_cells (phys_offset pmm_example + x) = mem pmm_example (phys_offset pmm_example + x)"
    by (auto simp: pmm_example_space cow_cells_def)
  from pmm_store [OF pmm_example_inv this] show "pmm_inv (frames (cow_vm pmm_example))"
    and "free_space (frames (cow_vm pmm_example)) = {0x2000 ..< 0x4000}"
    by (simp_all add: cow_vm_def pmm_example_space)
qed

lemma cow_vm_offset [simp]: "phys_offset pmm_example = 0" "phys_offset (buddy_new m) = 0"
  by (simp_all add: pmm_example_def buddy_new_def)

lemmas cow_vm_facts = cow_vm_leaf cow_vm_rd cow_vm_pte cow_vm_inv frame_span_def span_def

lemma free_frame_exists: "\<exists>np b. alloc_frame (frames (cow_vm pmm_example)) = Some (np, b)"
  using alloc_frame_none [OF cow_vm_inv(1)] cow_vm_inv(2) by (cases "alloc_frame (frames (cow_vm pmm_example))") auto

subsection \<open>What a copy-on-write fault does\<close>

lemma cow_fault_unfold:
  assumes "leaf_slot (cr3 AND NOT 0xFFF) va vm = Some sl"
    and "flag PTE_PRESENT (rd vm sl)" and "flag PTE_COW (rd vm sl)"
    and "bt_get (cow_refs vm) (pte_phys (rd vm sl)) = Some rc" and "1 < rc"
  shows "cow_page_fault cr3 va vm =
     (let vm1 = vm\<lparr>cow_refs := bt_insert (pte_phys (rd vm sl)) (rc - 1) (cow_refs vm)\<rparr>
      in case alloc_frame (frames vm) of
           None \<Rightarrow> (False, vm1)
         | Some (np, b) \<Rightarrow>
             (True, wr sl (np OR cow_new_flags (rd vm sl))
                      (copy_frame (pte_phys (rd vm sl)) np (set_frames b vm1))))"
proof -
  have "rc - 1 \<noteq> 0" using assms(5) by auto
  then show ?thesis using assms by (simp add: cow_page_fault_def cow_release_def Let_def)
qed



text \<open>The last owner gets its page back in place: no frame is taken, only the entry changes.\<close>

lemma cow_fault_last_owner:
  assumes "leaf_slot (cr3 AND NOT 0xFFF) va vm = Some sl"
    and "flag PTE_PRESENT (rd vm sl)" and "flag PTE_COW (rd vm sl)"
    and "\<forall>rc. bt_get (cow_refs vm) (pte_phys (rd vm sl)) = Some rc \<longrightarrow> rc \<le> 1"
  shows "cow_page_fault cr3 va vm =
     (True, wr sl (pte_phys (rd vm sl) OR cow_new_flags (rd vm sl))
              (vm\<lparr>cow_refs := bt_remove (pte_phys (rd vm sl)) (cow_refs vm)\<rparr>))"
proof -
  have "cow_release (pte_phys (rd vm sl)) (cow_refs vm) = (0, bt_remove (pte_phys (rd vm sl)) (cow_refs vm))"
    using assms(4) by (auto simp: cow_release_def not_less split: option.splits)
  then show ?thesis using assms by (simp add: cow_page_fault_def Let_def)
qed

text \<open>An out-of-memory write fault loses a reference. With two owners of a frame, a fault of
  the first that finds no free frame fails but still drops the count to one; when that process
  then exits, its release walk frees the frame although the second process still maps it.\<close>

theorem cow_oom_frees_shared_frame:
  assumes "pmm_inv (frames vm)" and "leaf_slot (cr3 AND NOT 0xFFF) va vm = Some sa"
    and "flag PTE_PRESENT (rd vm sa)" and "flag PTE_COW (rd vm sa)"
    and "rd vm sb = rd vm sa" and "sa \<noteq> sb"
    and "bt_get (cow_refs vm) (pte_phys (rd vm sa)) = Some 2"
    and "frame_addr_ok (pte_phys (rd vm sa))"
    and "frame_span (pte_phys (rd vm sa)) \<inter> free_space (frames vm) = {}"
    and "unat sb \<notin> free_space (frames vm) \<union> frame_span (pte_phys (rd vm sa))"
    and "alloc_frame (frames vm) = None"
  shows "\<exists>vm1 vm2. cow_page_fault cr3 va vm = (False, vm1) \<and> release_leaf sa vm1 = (True, vm2) \<and>
           frame_span (pte_phys (rd vm2 sb)) \<subseteq> free_space (frames vm2) \<and>
           flag PTE_PRESENT (rd vm2 sb)"
proof -
  let ?f = "pte_phys (rd vm sa)"
  define vm1 where "vm1 = vm\<lparr>cow_refs := bt_insert ?f 1 (cow_refs vm)\<rparr>"
  have fault: "cow_page_fault cr3 va vm = (False, vm1)"
    using cow_fault_unfold [OF assms(2-4,7)] assms(11) by (simp add: vm1_def Let_def)
  from pmm.release_gives [OF assms(1,8,9)] obtain b where
    b: "free_frame ?f (frames vm) = Some (Inr b)" "free_space b = free_space (frames vm) \<union> frame_span ?f"
    by blast
  define vm2 where "vm2 = set_frames b (vm1\<lparr>cow_refs := bt_remove ?f (cow_refs vm1)\<rparr>)"
  have "release_leaf sa vm1 = (True, vm2)"
    using assms(3,4) b by (simp add: release_leaf_def vm1_def vm2_def Let_def)
  moreover have "rd vm2 sb = rd vm sa"
    using rd_set_frames [of "free_space (frames vm) \<union> frame_span ?f"
        "vm1\<lparr>cow_refs := bt_remove ?f (cow_refs vm1)\<rparr>" b sb]
      free_frame_keeps [OF assms(1,8,9) b(1)] assms(5,10)
    by (simp add: vm2_def vm1_def)
  moreover have "frames vm2 = b" by (simp add: vm2_def)
  ultimately show ?thesis using fault assms(3) b(2) by auto
qed

theorem cow_oom_frees_shared_frame_witness:
  "\<exists>vm1 vm2. cow_page_fault 0x10000 0 (cow_vm (buddy_new (\<lambda>_. 0))) = (False, vm1) \<and>
     release_leaf 0x13000 vm1 = (True, vm2) \<and>
     frame_span (pte_phys (rd vm2 0x16000)) \<subseteq> free_space (frames vm2)"
proof -
  let ?b = "buddy_new (\<lambda>_. 0)"
  have f: "frames (cow_vm ?b) = buddy_new cow_cells" by (simp add: cow_vm_def buddy_new_def)
  have n: "alloc_frame (frames (cow_vm ?b)) = None"
    unfolding f by (simp add: alloc_frame_def alloc_order_def find_order_def buddy_new_def pmm_eval)
  have "\<exists>vm1 vm2. cow_page_fault 0x10000 0 (cow_vm ?b) = (False, vm1) \<and>
      release_leaf 0x13000 vm1 = (True, vm2) \<and>
      frame_span (pte_phys (rd vm2 0x16000)) \<subseteq> free_space (frames vm2) \<and>
      flag PTE_PRESENT (rd vm2 0x16000)"
    by (rule cow_oom_frees_shared_frame [OF _ cow_vm_leaf _ _ _ _ _ _ _ _ n])
      (simp_all add: cow_vm_rd cow_vm_pte f pmm_inv_new free_space_new frame_span_def span_def,
       simp_all add: cow_vm_def frame_addr_ok_def block_ok_def MAX_ORDER_def)
  then show ?thesis by blast
qed

subsection \<open>Protection changes\<close>

definition prot_bits :: u64 where "prot_bits = PTE_WRITABLE OR PTE_NX"

lemma protect_pte_other: "protect_pte w x e AND NOT prot_bits = e AND NOT prot_bits"
  by (auto simp: protect_pte_def prot_bits_def Let_def word_bits_eq bit_simps)

lemma protect_page_other:
  "rd (protect_page cr3 w x a vm) y AND NOT prot_bits = rd vm y AND NOT prot_bits"
  by (simp add: protect_page_def Let_def protect_pte_other split: option.splits)

lemma protect_loop_returns:
  assumes "unat e + 4096 \<le> 2 ^ 64"
  shows "\<exists>vm'. protect_loop cr3 w x a e vm = Some vm' \<and>
           (\<forall>y. rd vm' y AND NOT prot_bits = rd vm y AND NOT prot_bits)"
proof (induction "unat e - unat a" arbitrary: a vm rule: less_induct)
  case less
  show ?case
  proof (cases "a < e")
    case True
    then have lt: "unat a < unat e" by (simp add: word_less_nat_alt)
    have "unat (a + PAGE_SIZE) = unat a + 4096"
      using lt assms by (subst unat_add_lem [THEN iffD1]) (simp_all add: PAGE_SIZE_def)
    then have "unat e - unat (a + PAGE_SIZE) < unat e - unat a" using lt by simp
    from less [OF this, of "protect_page cr3 w x a vm"] True show ?thesis
      by (subst protect_loop.simps) (auto simp: protect_page_other)
  next
    case False
    then show ?thesis by (subst protect_loop.simps) simp
  qed
qed



lemma flag_masked:
  "e AND NOT prot_bits = e' AND NOT prot_bits \<Longrightarrow> flag PTE_COW e = flag PTE_COW e' \<and> pte_phys e = pte_phys e'"
proof -
  assume h: "e AND NOT prot_bits = e' AND NOT prot_bits"
  have "PTE_COW = NOT prot_bits AND PTE_COW" and "PTE_ADDR_MASK = NOT prot_bits AND PTE_ADDR_MASK"
    by (simp_all add: PTE_COW_def PTE_ADDR_MASK_def prot_bits_def PTE_WRITABLE_def PTE_NX_def)
  then have "e AND PTE_COW = e' AND PTE_COW" and "e AND PTE_ADDR_MASK = e' AND PTE_ADDR_MASK"
    using h by (metis and.assoc)+
  then show ?thesis by (simp add: flag_def pte_phys_def)
qed

text \<open>Asking for write access on a copy-on-write page makes its entry writable while it still maps
  the shared frame: the processor lets the next write through and no fault makes a copy.\<close>

theorem protection_change_defeats_cow:
  assumes "leaf_slot (cr3 AND NOT 0xFFF) va vm = Some sl" and "flag PTE_PRESENT (rd vm sl)"
    and "flag PTE_COW (rd vm sl)" and "va AND NOT 0xFFF = va" and "unat va + 4097 \<le> 2 ^ 64"
  shows "\<exists>vm'. update_user_pte_flags cr3 va 1 True x vm = Some vm' \<and> flag PTE_WRITABLE (rd vm' sl) \<and>
           flag PTE_COW (rd vm' sl) \<and> pte_phys (rd vm' sl) = pte_phys (rd vm sl)"
proof -
  define vm' where "vm' = protect_page (cr3 AND NOT 0xFFF) True x va vm"
  have u: "unat (va + 1) = unat va + 1" "unat (va + 4096) = unat va + 4096"
    using assms(5) by (simp_all add: unat_word_ariths)
  have "protect_loop (cr3 AND NOT 0xFFF) True x (va + PAGE_SIZE) (va + 1) vm' = Some vm'"
    using u by (subst protect_loop.simps) (simp add: PAGE_SIZE_def word_less_nat_alt)
  moreover have "va < va + 1" using u by (simp add: word_less_nat_alt)
  ultimately have "update_user_pte_flags cr3 va 1 True x vm = Some vm'"
    using assms(4) unfolding update_user_pte_flags_def
    by (subst protect_loop.simps) (simp add: PAGE_SIZE_def vm'_def)
  moreover have e: "rd vm' sl = protect_pte True x (rd vm sl)"
    using assms(1,2) by (simp add: vm'_def protect_page_def Let_def)
  moreover have "bit (rd vm' sl) 1" unfolding e
    by (auto simp: protect_pte_def Let_def bit_simps PTE_WRITABLE_def PTE_NX_def)
  then have "flag PTE_WRITABLE (rd vm' sl)"
    by (auto simp: flag_def PTE_WRITABLE_def word_bits_eq bit_simps)
  moreover have "flag PTE_COW (rd vm' sl) = flag PTE_COW (rd vm sl) \<and> pte_phys (rd vm' sl) = pte_phys (rd vm sl)"
    by (rule flag_masked) (simp add: e protect_pte_other)
  ultimately show ?thesis using assms(3) by blast
qed

theorem protection_change_defeats_cow_witness:
  "\<exists>vm'. update_user_pte_flags 0x10000 0 1 True False (cow_vm pmm_example) = Some vm' \<and>
     flag PTE_WRITABLE (rd vm' 0x13000) \<and> pte_phys (rd vm' 0x13000) = 0x15000"
  using protection_change_defeats_cow [OF cow_vm_leaf, of pmm_example False]
  by (auto simp: cow_vm_facts)

subsection \<open>Sharing a page at fork\<close>

text \<open>C13: sharing a writable page makes both entries the same read-only copy-on-write entry of the
  same frame, so neither process can write it without a fault, and counts the new owner (a frame
  not shared before has two owners after). No other cell changes.\<close>

theorem fork_shares_page:
  assumes "flag PTE_PRESENT (rd vm src)" and "flag PTE_WRITABLE (rd vm src) \<or> flag PTE_COW (rd vm src)"
    and "share_leaf src dst (vm, n) = (vm', n')"
  shows "rd vm' dst = rd vm' src \<and> \<not> flag PTE_WRITABLE (rd vm' src) \<and> flag PTE_COW (rd vm' src) \<and>
         flag PTE_PRESENT (rd vm' src) \<and> pte_phys (rd vm' src) = pte_phys (rd vm src) \<and>
         (\<forall>x. x \<noteq> src \<and> x \<noteq> dst \<longrightarrow> rd vm' x = rd vm x) \<and> n' = n + 1 \<and>
         bt_get (cow_refs vm') = (bt_get (cow_refs vm))(pte_phys (rd vm src) \<mapsto>
           (case bt_get (cow_refs vm) (pte_phys (rd vm src)) of
              None \<Rightarrow> 2 | Some rc \<Rightarrow> if rc = 255 then 255 else rc + 1))"
proof -
  let ?e = "rd vm src" and ?c = "(rd vm src AND NOT PTE_WRITABLE) OR PTE_COW"
  have w: "\<not> flag PTE_WRITABLE ?c"
    by (auto simp: flag_def PTE_WRITABLE_def PTE_COW_def word_bits_eq bit_simps)
  have "?c AND PTE_COW = PTE_COW" by (auto simp: word_bits_eq bit_simps)
  then have c: "flag PTE_COW ?c" by (simp add: flag_def PTE_COW_def)
  have p: "flag PTE_PRESENT ?c" using assms(1)
    by (auto simp: flag_def PTE_PRESENT_def PTE_WRITABLE_def PTE_COW_def word_bits_eq bit_simps)
  have a: "pte_phys ?c = pte_phys ?e"
  proof -
    have "PTE_ADDR_MASK AND PTE_COW = 0" and "NOT PTE_WRITABLE AND PTE_ADDR_MASK = PTE_ADDR_MASK"
      by (simp_all add: PTE_ADDR_MASK_def PTE_COW_def PTE_WRITABLE_def)
    then show ?thesis
      by (simp add: pte_phys_def bit.conj_disj_distrib2 and.assoc) (simp add: and.commute)
  qed
  have vm': "vm' = (wr dst ?c (wr src ?c vm))\<lparr>cow_refs := bt_insert (pte_phys ?e) (saturating_inc
      (case bt_get (cow_refs vm) (pte_phys ?e) of Some rc \<Rightarrow> rc | None \<Rightarrow> 1)) (cow_refs vm)\<rparr>"
    and n': "n' = n + 1"
    using assms by (auto simp: share_leaf_def Let_def)
  have r: "rd vm' src = ?c" "rd vm' dst = ?c" unfolding vm' by simp_all
  have sat: "saturating_inc rc = (if rc = 255 then 255 else rc + 1)" for rc
    by (simp add: saturating_inc_def)
  have refs: "bt_get (cow_refs vm') = (bt_get (cow_refs vm))(pte_phys ?e \<mapsto>
      (case bt_get (cow_refs vm) (pte_phys ?e) of
         None \<Rightarrow> 2 | Some rc \<Rightarrow> if rc = 255 then 255 else rc + 1))"
    unfolding vm' by (cases "bt_get (cow_refs vm) (pte_phys ?e)") (simp_all add: sat)
  have "\<forall>x. x \<noteq> src \<and> x \<noteq> dst \<longrightarrow> rd vm' x = rd vm x" unfolding vm' by simp
  then show ?thesis unfolding r using w c p a n' refs by blast
qed

theorem fork_shares_page_witness:
  "bt_get (cow_refs (fst (share_leaf 0x13000 0x17000 (cow_vm pmm_example, 0)))) 0x15000 = Some 3"
proof -
  obtain vm' n' where st: "share_leaf 0x13000 0x17000 (cow_vm pmm_example, 0) = (vm', n')" by fastforce
  from fork_shares_page [OF _ _ st] show ?thesis by (simp add: st cow_vm_facts) (simp add: cow_vm_def)
qed

subsection \<open>New address spaces\<close>

text \<open>
  What the crate documents of \<^verbatim>\<open>map_to\<close>: it writes the tables below the top-level table its
  mapper holds, and frames it takes from the allocator.
\<close>

inductive table_of :: "Vm \<Rightarrow> u64 \<Rightarrow> u64 \<Rightarrow> bool" for vm l4 where
  root: "table_of vm l4 l4"
| child: "table_of vm l4 t \<Longrightarrow> i < 512 \<Longrightarrow> flag PTE_PRESENT (rd vm (slot_of t i)) \<Longrightarrow>
     table_of vm l4 (pte_phys (rd vm (slot_of t i)))"

definition map_to_local :: "mapper \<Rightarrow> bool" where
  "map_to_local map_to \<longleftrightarrow> (\<forall>l4 page frame flags vm x.
     rd (snd (map_to l4 page frame flags vm)) x \<noteq> rd vm x \<longrightarrow>
     (\<exists>t. table_of vm l4 t \<and> in_frame t x) \<or> unat x \<in> free_space (frames vm))"

definition tables_allocated :: "Vm \<Rightarrow> bool" where
  "tables_allocated vm \<longleftrightarrow> (\<forall>t. table_of vm (vmm_l4 vm) t \<longrightarrow>
     take_bit 12 t = 0 \<and> frame_span t \<inter> free_space (frames vm) = {})"

lemma slot_in_frame: "i < 512 \<Longrightarrow> in_frame t (slot_of t i)"
proof -
  assume "i < 512"
  then have "unat (8 * i) = 8 * unat i" by (simp add: unat_word_ariths word_less_nat_alt)
  then show ?thesis using \<open>i < 512\<close> by (simp add: in_frame_def slot_of_def word_less_nat_alt)
qed

text \<open>Cells outside the free memory decide reachability, so changes elsewhere keep it.\<close>

lemma table_of_stable:
  assumes "table_of vm' l4 t" and "l4 = vmm_l4 vm" and "tables_allocated vm"
    and "\<forall>x. unat x \<notin> free_space (frames vm) \<longrightarrow> rd vm' x = rd vm x"
  shows "table_of vm l4 t"
  using assms
proof (induction rule: table_of.induct)
  case (child t i)
  then have t: "table_of vm l4 t" by simp
  then have "take_bit 12 t = 0" and "frame_span t \<inter> free_space (frames vm) = {}"
    using child.prems by (auto simp: tables_allocated_def)
  then have "unat (slot_of t i) \<notin> free_space (frames vm)"
    using in_frame_span [of t "slot_of t i"] slot_in_frame [OF child.hyps(2), of t] by blast
  then have "rd vm' (slot_of t i) = rd vm (slot_of t i)" using child.prems by blast
  then show ?case using table_of.child [OF t child.hyps(2)] child.hyps(3) by simp
qed (rule table_of.root)

lemma slot_inj: "i < 512 \<Longrightarrow> j < 512 \<Longrightarrow> slot_of t i = slot_of t j \<longleftrightarrow> i = j"
proof -
  assume "i < 512" "j < 512"
  then have "unat (8 * i) = 8 * unat i" "unat (8 * j) = 8 * unat j"
    by (simp_all add: unat_word_ariths word_less_nat_alt)
  moreover have "8 * i = 8 * j \<longleftrightarrow> unat (8 * i) = unat (8 * j)" by (rule word_unat_eq_iff)
  ultimately show ?thesis by (simp add: slot_of_def word_unat_eq_iff [of i j])
qed

abbreviation copy_slots :: "u64 \<Rightarrow> u64 \<Rightarrow> u64 list \<Rightarrow> Vm \<Rightarrow> Vm" where
  "copy_slots cur new \<equiv> fold (\<lambda>i vm. wr (slot_of new i) (rd vm (slot_of cur i)) vm)"

lemma copy_slots_rd:
  assumes "\<forall>i \<in> set is. i < 512" and "\<forall>j < 512. \<not> in_frame new (slot_of cur j)"
  shows "\<not> in_frame new x \<Longrightarrow> rd (copy_slots cur new is vm) x = rd vm x"
    and "i < 512 \<Longrightarrow> rd (copy_slots cur new is vm) (slot_of new i) =
           (if i \<in> set is then rd vm (slot_of cur i) else rd vm (slot_of new i))"
proof -
  have ne: "slot_of new j \<noteq> x" if "j < 512" "\<not> in_frame new x" for j x
    using that slot_in_frame by blast
  show "\<not> in_frame new x \<Longrightarrow> rd (copy_slots cur new is vm) x = rd vm x"
    using assms(1) ne by (induction "is" arbitrary: vm) auto
  show "i < 512 \<Longrightarrow> rd (copy_slots cur new is vm) (slot_of new i) =
      (if i \<in> set is then rd vm (slot_of cur i) else rd vm (slot_of new i))"
    using assms(1)
  proof (induction "is" arbitrary: vm)
    case (Cons j js)
    have "slot_of cur i \<noteq> slot_of new j" using assms(2) Cons.prems slot_in_frame by (metis list.set_intros(1))
    then show ?case using Cons slot_inj [of i j new] by auto
  qed simp
qed

lemma copy_slots_frames:
  assumes "\<forall>i \<in> set is. i < 512" and "take_bit 12 new = 0" and "pmm_inv (frames vm)"
    and "frame_span new \<inter> free_space (frames vm) = {}"
  shows "pmm_inv (frames (copy_slots cur new is vm)) \<and>
         free_space (frames (copy_slots cur new is vm)) = free_space (frames vm) \<and>
         vmm_l4 (copy_slots cur new is vm) = vmm_l4 vm"
  using assms
proof (induction "is" arbitrary: vm)
  case (Cons i "is")
  have "unat (slot_of new i) \<notin> free_space (frames vm)"
    using Cons.prems in_frame_span [of new "slot_of new i"] slot_in_frame [of i new] by auto
  note st = vm_store(1,2) [OF Cons.prems(3) this]
  show ?case using Cons.IH [of "wr (slot_of new i) (rd vm (slot_of cur i)) vm"] Cons.prems st by simp
qed simp

lemma set_index_range:
  assumes "hi \<le> 512"
  shows "set (index_range lo hi) = {i. lo \<le> unat i \<and> unat i < hi}"
proof (intro set_eqI iffI)
  fix i :: u64
  assume "i \<in> {i. lo \<le> unat i \<and> unat i < hi}"
  then have "unat i \<in> {lo..<hi}" and "i = of_nat (unat i)" by auto
  then show "i \<in> set (index_range lo hi)" unfolding index_range_def by (metis image_eqI list.set_map set_upt)
next
  fix i :: u64
  assume "i \<in> set (index_range lo hi)"
  then obtain n where "i = of_nat n" "lo \<le> n" "n < hi" by (auto simp: index_range_def)
  moreover from this have "unat (of_nat n :: u64) = n" using assms by (simp add: unat_of_nat)
  ultimately show "i \<in> {i. lo \<le> unat i \<and> unat i < hi}" by simp
qed

lemma half_indices: "set (index_range 256 512) = {i. 256 \<le> i \<and> i < 512}"
  by (simp add: set_index_range word_le_nat_alt word_less_nat_alt)

text \<open>The first frame: a zeroed table with the kernel half copied in.\<close>

lemma new_l4_contents:
  fixes cr3 :: u64
  defines "cur \<equiv> cr3 AND NOT 0xFFF"
  assumes inv: "pmm_inv (frames vm)" and al: "alloc_frame (frames vm) = Some (new, b)"
    and cur: "frame_span cur \<inter> free_space (frames vm) = {}"
    and vm1: "vm1 = copy_kernel_half cur new (zero_frame new (set_frames b vm))"
  shows "pmm_inv (frames vm1)" and "free_space (frames vm1) = free_space (frames vm) - frame_span new"
    and "vmm_l4 vm1 = vmm_l4 vm" and "take_bit 12 new = 0"
    and "unat x \<notin> free_space (frames vm) \<Longrightarrow> rd vm1 x = rd vm x"
    and "i < 512 \<Longrightarrow> rd vm1 (slot_of new i) = (if 256 \<le> i then rd vm (slot_of cur i) else 0)"
proof -
  note p = pmm.alloc_inv [OF inv al] pmm.alloc_frame_ok [OF inv al] pmm.alloc_free [OF inv al]
    pmm.alloc_takes [OF inv al]
  note new = frame_ok_aligned [OF p(2)]
  show "take_bit 12 new = 0" by (rule new)
  let ?v = "zero_frame new (set_frames b vm)"
  have z: "pmm_inv (frames ?v)" "free_space (frames ?v) = free_space b"
    using vm_store(3,4) [of "set_frames b vm" new] new p by auto
  have "take_bit 12 cur = 0"
    using take_bit_push_drop [of 12 cr3] and_not_mask [of cr3 12] by (simp add: cur_def)
  note inc = in_frame_span [OF this] and inn = in_frame_span [OF new]
  have cslot: "unat (slot_of cur j) \<notin> free_space (frames vm)" if "j < 512" for j
    using inc slot_in_frame [OF that, of cur] cur by blast
  have out: "\<not> in_frame new x" if "unat x \<notin> free_space (frames vm)" for x using that p(3) inn by blast
  have ids: "\<forall>i \<in> set (index_range 256 512). i < 512" by (simp add: half_indices)
  have no: "\<forall>j < 512. \<not> in_frame new (slot_of cur j)" using out cslot by blast
  have keep: "rd (set_frames b vm) x = rd vm x" if "unat x \<notin> free_space (frames vm)" for x
    using rd_set_frames [OF alloc_frame_keeps [OF inv al] that] .
  show "pmm_inv (frames vm1)" and "free_space (frames vm1) = free_space (frames vm) - frame_span new"
    and "vmm_l4 vm1 = vmm_l4 vm"
    using copy_slots_frames [OF ids new z(1), of cur] z p(4) by (auto simp: vm1 copy_kernel_half_def)
  show "unat x \<notin> free_space (frames vm) \<Longrightarrow> rd vm1 x = rd vm x"
    using copy_slots_rd(1) [OF ids no] out keep by (simp add: vm1 copy_kernel_half_def)
  show "i < 512 \<Longrightarrow> rd vm1 (slot_of new i) = (if 256 \<le> i then rd vm (slot_of cur i) else 0)"
    unfolding vm1 copy_kernel_half_def
    by (subst copy_slots_rd(2) [OF ids no])
      (use half_indices slot_in_frame no cslot keep in auto)
qed

lemma leaf_slot_unmapped: "rd vm (slot_of cr3 (table_idx 39 va)) = 0 \<Longrightarrow> leaf_slot cr3 va vm = None"
  by (simp add: leaf_slot_def flag_def Let_def)

text \<open>The second frame: the trampoline page. Only free memory changes.\<close>

lemma vdso_page_keeps:
  assumes inv: "pmm_inv (frames vm)" and al: "alloc_frame (frames vm) = Some (vdso, b)"
    and vm2: "vm2 = wr vdso VDSO_CODE (zero_frame vdso (set_frames b vm))"
  shows "unat x \<notin> free_space (frames vm) \<Longrightarrow> rd vm2 x = rd vm x"
    and "free_space (frames vm2) \<subseteq> free_space (frames vm)"
proof -
  note p = pmm.alloc_frame_ok [OF inv al] pmm.alloc_free [OF inv al] pmm.alloc_inv [OF inv al]
    pmm.alloc_takes [OF inv al]
  note v = frame_ok_aligned [OF p(1)]
  show "rd vm2 x = rd vm x" if x: "unat x \<notin> free_space (frames vm)"
  proof -
    have "\<not> in_frame vdso x" using x p(2) in_frame_span [OF v] by blast
    moreover from this have "vdso \<noteq> x" by (auto simp: in_frame_def)
    ultimately show ?thesis using rd_set_frames [OF alloc_frame_keeps [OF inv al] x] by (simp add: vm2)
  qed
  let ?v = "zero_frame vdso (set_frames b vm)"
  have "pmm_inv (frames ?v)" "free_space (frames ?v) = free_space b"
    using vm_store(3,4) [of "set_frames b vm" vdso] v p by auto
  moreover have "unat vdso \<notin> free_space b" using p(4) by simp
  ultimately show "free_space (frames vm2) \<subseteq> free_space (frames vm)"
    using vm_store(2) [of ?v vdso] p(4) by (auto simp: vm2)
qed

text \<open>A new address space shares the kernel half of the current one, and its user half is
  empty: the trampoline page, mapped through the mapper of the boot tables, is not in it,
  although \<^verbatim>\<open>alloc_user_cr3\<close> switches to the new tables around the call to put it there.\<close>

theorem new_address_space_lacks_vdso:
  assumes "map_to_local map_to" and "pmm_inv (frames vm)" and "tables_allocated vm"
    and "frame_span (cr3 AND NOT 0xFFF) \<inter> free_space (frames vm) = {}"
    and "alloc_user_cr3 map_to cr3 vm = (Some new, vm')"
  shows "(\<forall>i. 256 \<le> i \<and> i < 512 \<longrightarrow> rd vm' (slot_of new i) = rd vm (slot_of (cr3 AND NOT 0xFFF) i)) \<and>
         (\<forall>i < 256. rd vm' (slot_of new i) = 0) \<and> leaf_slot new VDSO_ADDR vm' = None"
proof -
  let ?cur = "cr3 AND NOT 0xFFF"
  from assms(5) obtain b where al: "alloc_frame (frames vm) = Some (new, b)"
    by (auto simp: alloc_user_cr3_def Let_def split: option.splits)
  define vm1 where "vm1 = copy_kernel_half ?cur new (zero_frame new (set_frames b vm))"
  note n = new_l4_contents [OF assms(2) al assms(4) vm1_def]
  have un: "alloc_user_cr3 map_to cr3 vm = (case alloc_frame (frames vm1) of None \<Rightarrow> (None, vm1)
      | Some (vdso, b2) \<Rightarrow> (let vm2 = wr vdso VDSO_CODE (zero_frame vdso (set_frames b2 vm1))
          in (Some new, snd (map_page map_to VDSO_ADDR vdso (PTE_PRESENT OR 4) vm2))))"
    unfolding alloc_user_cr3_def al vm1_def by (simp only: Let_def option.case prod.case)
  from assms(5) obtain vdso b2 where al2: "alloc_frame (frames vm1) = Some (vdso, b2)"
    unfolding un by (auto split: option.splits)
  define vm2 where "vm2 = wr vdso VDSO_CODE (zero_frame vdso (set_frames b2 vm1))"
  have vm': "vm' = snd (map_to (vmm_l4 vm) VDSO_ADDR vdso (PTE_PRESENT OR 4) vm2)"
    using assms(5) al2 n(3) unfolding un by (simp add: Let_def map_page_def vm2_def)
  note v = vdso_page_keeps [OF n(1) al2 vm2_def]
  have "rd vm' (slot_of new i) = rd vm1 (slot_of new i)" if "i < 512" for i
  proof -
    let ?x = "slot_of new i"
    have new_x: "unat ?x \<in> frame_span new" using in_frame_span [OF n(4)] slot_in_frame [OF that] by blast
    then have nf: "unat ?x \<notin> free_space (frames vm1)" using n(2) by simp
    have "\<not> in_frame t ?x" if t: "table_of vm2 (vmm_l4 vm) t" for t
    proof -
      have "rd vm2 x = rd vm x" if "unat x \<notin> free_space (frames vm)" for x
        using that n(2) n(5) v(1) by auto
      then have "table_of vm (vmm_l4 vm) t" using table_of_stable [OF t refl assms(3)] by blast
      then have "take_bit 12 t = 0" "frame_span t \<inter> free_space (frames vm) = {}"
        using assms(3) by (auto simp: tables_allocated_def)
      then show ?thesis using in_frame_span [of t ?x] new_x pmm.alloc_free [OF assms(2) al] by blast
    qed
    then have "rd vm' ?x = rd vm2 ?x" using assms(1) nf v(2) unfolding vm' map_to_local_def by blast
    then show ?thesis using v(1) [OF nf] by simp
  qed
  then have c: "rd vm' (slot_of new i) = (if 256 \<le> i then rd vm (slot_of ?cur i) else 0)" if "i < 512" for i
    using n(6) that by simp
  moreover have "table_idx 39 VDSO_ADDR = 255" by (simp add: table_idx_def VDSO_ADDR_def)
  ultimately have "leaf_slot new VDSO_ADDR vm' = None" by (intro leaf_slot_unmapped) simp
  moreover have "i < 512 \<and> \<not> 256 \<le> i" if "i < (256::u64)" for i
    using that by (simp add: word_le_nat_alt word_less_nat_alt)
  ultimately show ?thesis using c by auto
qed

text \<open>A mapper that only writes the top-level entry of the page.\<close>

definition map_top_entry :: mapper where
  "map_top_entry l4 page frame flags vm = (True, wr (slot_of l4 (table_idx 39 page)) (frame OR flags) vm)"

lemma table_idx_less: "table_idx k va < 512"
proof -
  have "table_idx k va \<le> 0x1FF" unfolding table_idx_def by (rule word_and_le1)
  also have "\<dots> < 512" by simp
  finally show ?thesis .
qed

lemma map_top_entry_local: "map_to_local map_top_entry"
  using slot_in_frame [OF table_idx_less] table_of.root
  by (fastforce simp: map_to_local_def map_top_entry_def split: if_splits)

lemma cow_vm_tables: "tables_allocated (cow_vm pmm_example)"
proof -
  have "t \<in> {0x10000, 0x11000, 0x12000, 0x13000, 0x15000}"
    if "table_of (cow_vm pmm_example) (vmm_l4 (cow_vm pmm_example)) t" for t
    using that
  proof induction
    case root
    then show ?case by (simp add: cow_vm_def)
  next
    case (child t i)
    then show ?case
      by (auto simp: cow_vm_rd cow_cells_def flag_def PTE_PRESENT_def pte_phys_def PTE_ADDR_MASK_def
          split: if_splits)
  qed
  then show ?thesis by (fastforce simp: tables_allocated_def cow_vm_inv frame_span_def span_def)
qed

theorem new_address_space_lacks_vdso_witness:
  "\<exists>new vm'. alloc_user_cr3 map_top_entry 0x10000 (cow_vm pmm_example) = (Some new, vm') \<and>
     leaf_slot new VDSO_ADDR vm' = None"
proof -
  let ?vm = "cow_vm pmm_example"
  have cur: "frame_span (0x10000 AND NOT 0xFFF) \<inter> free_space (frames ?vm) = {}"
    by (simp add: cow_vm_inv frame_span_def span_def)
  obtain new b where al: "alloc_frame (frames ?vm) = Some (new, b)" using free_frame_exists by blast
  define vm1 where "vm1 = copy_kernel_half (0x10000 AND NOT 0xFFF) new (zero_frame new (set_frames b ?vm))"
  note n = new_l4_contents [OF cow_vm_inv(1) al cur vm1_def]
  have "card (frame_span new) = 4096" by (simp add: frame_span_def span_def)
  then have "free_space (frames vm1) \<noteq> {}"
    using n(2) cow_vm_inv(2) card_mono [of "frame_span new" "{0x2000 ..< 0x4000}"]
    by (auto simp: frame_span_def span_def)
  then obtain vdso b2 where "alloc_frame (frames vm1) = Some (vdso, b2)"
    using alloc_frame_none [OF n(1)] by (cases "alloc_frame (frames vm1)") auto
  then obtain vm' where a: "alloc_user_cr3 map_top_entry 0x10000 ?vm = (Some new, vm')"
    unfolding alloc_user_cr3_def al vm1_def by (simp only: Let_def option.case prod.case)
  from new_address_space_lacks_vdso [OF map_top_entry_local cow_vm_inv(1) cow_vm_tables cur a] a
  show ?thesis by blast
qed

end
