(* ===== verification/Runqueue.thy ===== *)
theory Runqueue
  imports Prelude
begin

section \<open>The run queue\<close>

text \<open>
  Model of \<^verbatim>\<open>kernel/src/scheduler/runqueue.rs\<close>: a double-ended queue of process ids, the
  running process and its remaining ticks. A quantum override comes from the burst
  prediction and is clamped to 1..50 ticks.
\<close>

type_synonym Pid = u64

record RunQueue =
  queue :: "Pid list"
  timeslice :: u32
  ticks_left :: u32
  current_pid :: "Pid option"

abbreviation (input) DEFAULT_TIMESLICE :: u32 where "DEFAULT_TIMESLICE \<equiv> 10"

definition rq_new :: RunQueue where
  "rq_new = \<lparr>queue = [], timeslice = DEFAULT_TIMESLICE, ticks_left = DEFAULT_TIMESLICE,
     current_pid = None\<rparr>"

definition rq_enqueue :: "Pid \<Rightarrow> RunQueue \<Rightarrow> RunQueue" where
  "rq_enqueue pid rq = rq\<lparr>queue := queue rq @ [pid]\<rparr>"

text \<open>\<^verbatim>\<open>move_to_front\<close> removes the first occurrence of the process and pushes it in front.\<close>

definition rq_move_to_front :: "Pid \<Rightarrow> RunQueue \<Rightarrow> RunQueue" where
  "rq_move_to_front pid rq =
     (if pid \<in> set (queue rq) then rq\<lparr>queue := pid # remove1 pid (queue rq)\<rparr> else rq)"

definition clamp_quantum :: "u32 \<Rightarrow> u32" where
  "clamp_quantum q = (if q < 1 then 1 else if 50 < q then 50 else q)"

definition rq_schedule_next :: "u32 option \<Rightarrow> RunQueue \<Rightarrow> Pid option \<times> RunQueue" where
  "rq_schedule_next quantum_override rq =
     (let q1 = (case current_pid rq of Some cur \<Rightarrow> queue rq @ [cur] | None \<Rightarrow> queue rq);
          nxt = (case q1 of [] \<Rightarrow> None | p # _ \<Rightarrow> Some p);
          left = (case quantum_override of Some q \<Rightarrow> clamp_quantum q | None \<Rightarrow> timeslice rq)
      in (nxt, rq\<lparr>queue := tl q1, current_pid := nxt, ticks_left := left\<rparr>))"

definition rq_tick :: "u32 option \<Rightarrow> RunQueue \<Rightarrow> Pid option \<times> RunQueue" where
  "rq_tick quantum_override rq =
     (let rq1 = rq\<lparr>ticks_left := saturating_sub (ticks_left rq) 1\<rparr>
      in if ticks_left rq1 = 0 then rq_schedule_next quantum_override rq1 else (None, rq1))"

definition rq_set_current :: "Pid \<Rightarrow> RunQueue \<Rightarrow> RunQueue" where
  "rq_set_current pid rq = rq\<lparr>current_pid := Some pid\<rparr>"

definition rq_remove :: "Pid \<Rightarrow> RunQueue \<Rightarrow> RunQueue" where
  "rq_remove pid rq =
     (let rq1 = rq\<lparr>queue := filter (\<lambda>p. p \<noteq> pid) (queue rq)\<rparr>
      in if current_pid rq = Some pid then rq1\<lparr>current_pid := None\<rparr> else rq1)"

definition rq_peek_front :: "RunQueue \<Rightarrow> Pid option" where
  "rq_peek_front rq = (case queue rq of [] \<Rightarrow> current_pid rq | p # _ \<Rightarrow> Some p)"

subsection \<open>Everything the queue knows\<close>

text \<open>The processes in rotation order: the queue, then the running one.\<close>

definition rq_order :: "RunQueue \<Rightarrow> Pid list" where
  "rq_order rq = queue rq @ (case current_pid rq of Some c \<Rightarrow> [c] | None \<Rightarrow> [])"

definition rq_inv :: "RunQueue \<Rightarrow> bool" where
  "rq_inv rq \<longleftrightarrow> distinct (rq_order rq)"

lemma rq_order_schedule_next:
  "rq_order (snd (rq_schedule_next q rq)) = rotate1 (rq_order rq)"
  by (auto simp: rq_order_def rq_schedule_next_def Let_def split: option.splits list.splits)

lemma rq_schedule_next_fst: "fst (rq_schedule_next q rq) = rq_peek_front rq"
  by (auto simp: rq_schedule_next_def rq_peek_front_def Let_def split: option.splits list.splits)

lemma rq_schedule_next_current: "current_pid (snd (rq_schedule_next q rq)) = rq_peek_front rq"
  by (auto simp: rq_schedule_next_def rq_peek_front_def Let_def split: option.splits list.splits)

lemma rq_order_tick:
  "rq_order (snd (rq_tick q rq)) =
     (if ticks_left rq \<le> 1 then rotate1 (rq_order rq) else rq_order rq)"
proof -
  have "saturating_sub (ticks_left rq) 1 = 0 \<longleftrightarrow> ticks_left rq \<le> 1"
    using unat_saturating_sub [of "ticks_left rq" 1]
    by (auto simp: word_le_nat_alt simp flip: unat_eq_zero)
  moreover have "rq_order (rq\<lparr>ticks_left := t\<rparr>) = rq_order rq" for t by (simp add: rq_order_def)
  ultimately show ?thesis by (simp add: rq_tick_def Let_def rq_order_schedule_next)
qed

lemma rq_inv_new [kinv]: "rq_inv rq_new"
  by (simp add: rq_inv_def rq_order_def rq_new_def)

lemma rq_inv_enqueue [kinv]: "rq_inv rq \<Longrightarrow> pid \<notin> set (rq_order rq) \<Longrightarrow> rq_inv (rq_enqueue pid rq)"
  by (auto simp: rq_inv_def rq_order_def rq_enqueue_def split: option.splits)

lemma rq_inv_move [kinv]: "rq_inv rq \<Longrightarrow> rq_inv (rq_move_to_front pid rq)"
  by (auto simp: rq_inv_def rq_order_def rq_move_to_front_def split: option.splits)

lemma rq_inv_tick [kinv]: "rq_inv rq \<Longrightarrow> rq_inv (snd (rq_tick q rq))"
  by (simp add: rq_inv_def rq_order_tick)

lemma rq_inv_remove [kinv]: "rq_inv rq \<Longrightarrow> rq_inv (rq_remove pid rq)"
  by (auto simp: rq_inv_def rq_order_def rq_remove_def Let_def split: option.splits)

lemma rq_order_enqueue [simp]: "set (rq_order (rq_enqueue pid rq)) = insert pid (set (rq_order rq))"
  by (auto simp: rq_order_def rq_enqueue_def)

lemma rq_order_move [simp]: "set (rq_order (rq_move_to_front pid rq)) = set (rq_order rq)"
  by (auto simp: rq_order_def rq_move_to_front_def dest: notin_set_remove1)

lemma rq_order_remove [simp]: "set (rq_order (rq_remove pid rq)) = set (rq_order rq) - {pid}"
  by (auto simp: rq_order_def rq_remove_def Let_def split: option.splits)

lemma rq_order_tick_set [simp]: "set (rq_order (snd (rq_tick q rq))) = set (rq_order rq)"
  by (simp add: rq_order_tick)

lemma rq_quantum_bounds:
  "1 \<le> clamp_quantum q \<and> clamp_quantum q \<le> 50"
  by (auto simp: clamp_quantum_def word_le_nat_alt word_less_nat_alt unat_word_ariths)

subsection \<open>Fairness of the rotation\<close>

text \<open>\<open>k\<close> forced switches in a row, as \<^verbatim>\<open>dequeue_next\<close> makes them.\<close>

primrec rq_switches :: "nat \<Rightarrow> RunQueue \<Rightarrow> RunQueue" where
  "rq_switches 0 rq = rq"
| "rq_switches (Suc k) rq = rq_switches k (snd (rq_schedule_next None rq))"

lemma rq_order_switches: "rq_order (rq_switches k rq) = rotate k (rq_order rq)"
  by (induction k arbitrary: rq) (simp_all add: rq_order_schedule_next rotate1_rotate_swap)

lemma rq_current_last:
  "current_pid rq \<noteq> None \<Longrightarrow> current_pid rq = Some (last (rq_order rq))"
  by (auto simp: rq_order_def)

lemma rq_switches_current:
  "current_pid rq \<noteq> None \<Longrightarrow> current_pid (rq_switches k rq) \<noteq> None"
proof (induction k arbitrary: rq)
  case (Suc k)
  then have "current_pid (snd (rq_schedule_next None rq)) \<noteq> None"
    by (auto simp: rq_schedule_next_current rq_peek_front_def split: list.splits)
  with Suc.IH show ?case by simp
qed simp

lemma last_rotate:
  assumes "i < length xs"
  shows "last (rotate (Suc i) xs) = xs ! i"
proof -
  have "xs \<noteq> []" using assms by auto
  then have "last (rotate (Suc i) xs) = rotate (Suc i) xs ! (length xs - 1)"
    by (simp add: last_conv_nth)
  also have "\<dots> = xs ! ((Suc i + (length xs - 1)) mod length xs)"
    using assms by (subst nth_rotate) auto
  also have "Suc i + (length xs - 1) = i + length xs" using assms by simp
  also have "(i + length xs) mod length xs = i" using assms by simp
  finally show ?thesis .
qed

text \<open>C5: round robin is fair. With a running process, the process at position \<open>i\<close> of the
  rotation runs after exactly \<open>i + 1\<close> switches, so every process gets the CPU within one round,
  and after a whole round the queue is as it was.\<close>

theorem round_robin_fair:
  assumes "current_pid rq \<noteq> None" and "i < length (rq_order rq)"
  shows "current_pid (rq_switches (i + 1) rq) = Some (rq_order rq ! i) \<and>
         rq_order (rq_switches (length (rq_order rq)) rq) = rq_order rq"
  using rq_current_last [OF rq_switches_current [OF assms(1), of "Suc i"]] last_rotate [OF assms(2)]
  by (simp add: rq_order_switches rq_order_schedule_next rotate1_rotate_swap)

theorem round_robin_fair_witness:
  "current_pid (rq_switches 2 (rq_set_current 0 (rq_enqueue 2 (rq_enqueue 1 rq_new)))) = Some 2"
  using round_robin_fair [of "rq_set_current 0 (rq_enqueue 2 (rq_enqueue 1 rq_new))" 1]
  by (simp add: rq_order_def rq_set_current_def rq_enqueue_def rq_new_def numeral_2_eq_2)

end
