(* ===== verification/Causal.thy ===== *)
theory Causal
  imports Runqueue "HOL-Library.Multiset"
begin

section \<open>The causal wakeup graph\<close>

text \<open>
  Model of \<^verbatim>\<open>kernel/src/causal.rs\<close>: a ring of the last 512 wakeups and the queries the scheduler,
  job control and the panic handler make on it. A probability is kept as the count it is computed
  from (out of ten). The text reports and the risk score, which compares floating-point
  coherence values, are left out.
\<close>

abbreviation (input) AI_KERNEL_PID :: u64 where "AI_KERNEL_PID \<equiv> - 1"

definition N_EDGES :: nat where "N_EDGES = 512"

record Edge =
  waker :: u64
  wakee :: u64
  edge_ms :: u64

record CausalGraph =
  edges :: "Edge list"
  cg_head :: nat
  cg_count :: nat

definition causal_new :: CausalGraph where
  "causal_new = \<lparr>edges = replicate N_EDGES \<lparr>waker = 0, wakee = 0, edge_ms = 0\<rparr>, cg_head = 0, cg_count = 0\<rparr>"

text \<open>\<^verbatim>\<open>count\<close> is a saturating 64-bit counter.\<close>

definition causal_record :: "Edge \<Rightarrow> CausalGraph \<Rightarrow> CausalGraph" where
  "causal_record e g =
     g\<lparr>edges := (edges g)[cg_head g := e], cg_head := (cg_head g + 1) mod N_EDGES,
       cg_count := min (cg_count g + 1) (2 ^ 64 - 1)\<rparr>"

definition live_edges :: "CausalGraph \<Rightarrow> nat" where
  "live_edges g = min (cg_count g) N_EDGES"

definition edge_back :: "CausalGraph \<Rightarrow> nat \<Rightarrow> Edge" where
  "edge_back g i = edges g ! ((cg_head g + N_EDGES - 1 - i) mod N_EDGES)"

text \<open>The loops over \<^verbatim>\<open>0..n\<close> of the queries: the last \<open>n\<close> edges, newest first.\<close>

definition recent :: "CausalGraph \<Rightarrow> nat \<Rightarrow> Edge list" where
  "recent g n = map (edge_back g) [0..<n]"

definition last_waker :: "u64 \<Rightarrow> CausalGraph \<Rightarrow> u64 option" where
  "last_waker p g = map_option waker (List.find (\<lambda>e. wakee e = p) (rev (recent g (live_edges g))))"

definition count_wakees :: "u64 \<Rightarrow> Edge list \<Rightarrow> (u64, nat) btree" where
  "count_wakees p es =
     fold (\<lambda>e freq. if waker e = p \<and> wakee e \<noteq> 0
                    then bt_insert (wakee e) (case bt_get freq (wakee e) of Some c \<Rightarrow> c + 1 | None \<Rightarrow> 1) freq
                    else freq) es []"

text \<open>\<^verbatim>\<open>max_by_key\<close> returns the last of several maximal elements.\<close>

definition max_count :: "(u64, nat) btree \<Rightarrow> (u64 \<times> nat) option" where
  "max_count freq =
     fold (\<lambda>x best. case best of None \<Rightarrow> Some x | Some b \<Rightarrow> if snd b \<le> snd x then Some x else Some b) freq None"

definition predict_next_wake :: "u64 \<Rightarrow> CausalGraph \<Rightarrow> (u64 \<times> nat) option" where
  "predict_next_wake p g = max_count (count_wakees p (recent g (min (live_edges g) 10)))"

definition predict_successors :: "u64 \<Rightarrow> CausalGraph \<Rightarrow> u64 list" where
  "predict_successors p g =
     (let freq = count_wakees p (recent g (min (live_edges g) 64));
          candidates = filter (\<lambda>(_, c). 2 \<le> c) freq
      in map fst (take 4 (sort_key (\<lambda>(_, c). - int c) candidates)))"

text \<open>The limit is tested after an edge has been pushed.\<close>

definition edges_for_pid :: "u64 \<Rightarrow> nat \<Rightarrow> CausalGraph \<Rightarrow> (u64 \<times> u64 \<times> u64) list" where
  "edges_for_pid p limit g =
     take (max 1 limit)
       (map (\<lambda>e. (waker e, wakee e, edge_ms e))
          (filter (\<lambda>e. waker e = p \<or> wakee e = p) (recent g (live_edges g))))"

fun waker_chain_loop :: "nat \<Rightarrow> u64 list \<Rightarrow> u64 \<Rightarrow> CausalGraph \<Rightarrow> u64 list" where
  "waker_chain_loop 0 chn cur g = chn"
| "waker_chain_loop (Suc depth) chn cur g =
     (case last_waker cur g of
        Some w \<Rightarrow> if w = 0 \<or> w \<in> set chn then chn else waker_chain_loop depth (chn @ [w]) w g
      | None \<Rightarrow> chn)"

definition waker_chain :: "u64 \<Rightarrow> nat \<Rightarrow> CausalGraph \<Rightarrow> u64 list" where
  "waker_chain p depth g = waker_chain_loop depth [p] p g"

definition fanout_pids :: "u64 \<Rightarrow> CausalGraph \<Rightarrow> u64 list" where
  "fanout_pids p g =
     fold (\<lambda>e s. if waker e = p \<and> wakee e \<noteq> 0 then (if wakee e \<in> set s then s else insort (wakee e) s) else s)
       (recent g (min (live_edges g) 64)) []"

definition causal_fanout :: "u64 \<Rightarrow> CausalGraph \<Rightarrow> nat" where
  "causal_fanout p g = length (fanout_pids p g)"

text \<open>The process \<^verbatim>\<open>attribute_io_error\<close> blames: the waker of the latest edge, 0 if there is none.\<close>

definition io_error_culprit :: "CausalGraph \<Rightarrow> u64" where
  "io_error_culprit g =
     fst (fold (\<lambda>e (best_pid, best_time).
            if waker e \<noteq> 0 \<and> best_time < edge_ms e then (waker e, edge_ms e) else (best_pid, best_time))
          (take (live_edges g) (edges g)) (0, 0))"

subsection \<open>The graph is a bounded log of wakeups\<close>

definition causal_view :: "CausalGraph \<Rightarrow> Edge list" where
  "causal_view g = ring_view (edges g) (cg_head g) (live_edges g)"

definition causal_inv :: "CausalGraph \<Rightarrow> bool" where
  "causal_inv g \<longleftrightarrow> length (edges g) = N_EDGES \<and> ring_inv (edges g) (cg_head g) (live_edges g) \<and>
     cg_count g < 2 ^ 64"

lemma causal_inv_new [kinv]: "causal_inv causal_new"
  by (simp add: causal_inv_def causal_new_def ring_inv_def live_edges_def N_EDGES_def)

lemma causal_record_push:
  "causal_inv g \<Longrightarrow> ring_push e (edges g) (cg_head g) (live_edges g) =
     (edges (causal_record e g), cg_head (causal_record e g), live_edges (causal_record e g))"
  by (auto simp: ring_push_def causal_record_def causal_inv_def live_edges_def N_EDGES_def)

lemma causal_inv_record [kinv]: "causal_inv g \<Longrightarrow> causal_inv (causal_record e g)"
  using ring_inv_push [OF _ causal_record_push]
  by (auto simp: causal_inv_def causal_record_def)

interpretation wakeups: bounded_log causal_record causal_view "\<lambda>e. e" causal_inv N_EDGES
proof unfold_locales
  fix g e
  assume g: "causal_inv g"
  then show "causal_view (causal_record e g) = drop (length (causal_view g) + 1 - N_EDGES) (causal_view g @ [e])"
    using ring_view_push [OF _ causal_record_push [OF g]] by (simp add: causal_view_def causal_inv_def)
  from g show "length (causal_view g) \<le> N_EDGES" by (simp add: causal_view_def live_edges_def)
qed (rule causal_inv_record)

lemma recent_view:
  assumes "causal_inv g" and "n \<le> live_edges g"
  shows "recent g n = take n (rev (causal_view g))"
proof (rule nth_equalityI)
  show len: "length (recent g n) = length (take n (rev (causal_view g)))"
    using assms(2) by (simp add: recent_def causal_view_def)
  fix i
  assume "i < length (recent g n)"
  then have i: "i < n" by (simp add: recent_def)
  have c: "live_edges g \<le> 512" "cg_head g < 512" "live_edges g < 512 \<Longrightarrow> cg_head g = live_edges g"
    "length (edges g) = 512"
    using assms(1) by (auto simp: causal_inv_def ring_inv_def N_EDGES_def)
  have "rev (causal_view g) ! i = causal_view g ! (live_edges g - Suc i)"
    using i assms(2) by (simp add: rev_nth causal_view_def)
  also have "\<dots> = edges g ! ((cg_head g + 511 - i) mod 512)"
  proof (cases "live_edges g = 512")
    case True
    then have "512 - Suc i = 511 - i" "cg_head g + (511 - i) = cg_head g + 511 - i"
      using i assms(2) by auto
    then show ?thesis using True i assms(2) c(4) by (simp add: causal_view_def ring_view_def)
  next
    case False
    then have h: "cg_head g = live_edges g" using c by simp
    then have "cg_head g + 511 - i = (live_edges g - Suc i) + 512" using i assms(2) by simp
    then have "(cg_head g + 511 - i) mod 512 = live_edges g - Suc i" using False c(1) by simp
    then show ?thesis using False i assms(2) c by (simp add: causal_view_def ring_view_def)
  qed
  finally show "recent g n ! i = take n (rev (causal_view g)) ! i"
    using i by (simp add: recent_def edge_back_def N_EDGES_def add.commute)
qed

lemma causal_history:
  fixes es :: "Edge list"
  defines "g \<equiv> fold causal_record es causal_new"
  shows "causal_inv g" and "causal_view g = drop (length es - 512) es" and "live_edges g = min 512 (length es)"
proof -
  have v: "causal_view causal_new = []" by (simp add: causal_view_def live_edges_def causal_new_def)
  show "causal_inv g" unfolding g_def by (rule wakeups.inv_fold [OF causal_inv_new])
  show "causal_view g = drop (length es - 512) es"
    using wakeups.view_fold [OF causal_inv_new, of es] v by (simp add: g_def N_EDGES_def)
  then have "length (causal_view g) = min 512 (length es)" by auto
  then show "live_edges g = min 512 (length es)" by (simp add: causal_view_def)
qed

subsection \<open>Predicted successors\<close>

definition wakes :: "u64 \<Rightarrow> u64 \<Rightarrow> Edge list \<Rightarrow> nat" where
  "wakes p q es = length (filter (\<lambda>e. waker e = p \<and> wakee e = q) es)"

lemma count_wakees_spec:
  "bt_get (count_wakees p es) q = (if q \<noteq> 0 \<and> 0 < wakes p q es then Some (wakes p q es) else None) \<and>
   bt_wf (count_wakees p es)"
proof (induction es arbitrary: q rule: rev_induct)
  case (snoc e es)
  let ?c = "count_wakees p es"
  have step: "count_wakees p (es @ [e]) = (if waker e = p \<and> wakee e \<noteq> 0
      then bt_insert (wakee e) (case bt_get ?c (wakee e) of Some c \<Rightarrow> c + 1 | None \<Rightarrow> 1) ?c else ?c)"
    by (simp add: count_wakees_def)
  have "bt_wf (count_wakees p (es @ [e]))" using snoc.IH by (simp add: step bt_wf_insert)
  moreover have "bt_get (count_wakees p (es @ [e])) q =
      (if q \<noteq> 0 \<and> 0 < wakes p q (es @ [e]) then Some (wakes p q (es @ [e])) else None)"
    using snoc.IH [of q] snoc.IH [of "wakee e"] by (auto simp: step wakes_def)
  ultimately show ?case by blast
qed (simp add: count_wakees_def wakes_def)

lemma sort_key_take_max:
  assumes "x \<in> set xs" and "x \<notin> set (take k (sort_key f xs))" and "y \<in> set (take k (sort_key f xs))"
  shows "f y \<le> f x"
proof -
  let ?s = "sort_key f xs"
  have "x \<in> set (drop k ?s)"
    using assms(1,2) append_take_drop_id [of k ?s] set_sort [of f xs] by (metis UnE set_append)
  moreover have "sorted (map f (take k ?s @ drop k ?s))" by simp
  ultimately show ?thesis using assms(3) unfolding map_append sorted_append by auto
qed

text \<open>The predicted successors of a process are the processes it woke at least twice among the
  last 64 wakeups, most frequent first, without repetition and at most four; a habitual consumer
  is left out only when four others were woken at least as often.\<close>

theorem successors_are_habitual:
  fixes es :: "Edge list"
  defines "seen \<equiv> take 64 (rev es)"
  shows "distinct (predict_successors p (fold causal_record es causal_new)) \<and>
         length (predict_successors p (fold causal_record es causal_new)) \<le> 4 \<and>
         (\<forall>q \<in> set (predict_successors p (fold causal_record es causal_new)). q \<noteq> 0 \<and> 2 \<le> wakes p q seen) \<and>
         (\<forall>q r. q \<noteq> 0 \<and> 2 \<le> wakes p q seen \<and>
            q \<notin> set (predict_successors p (fold causal_record es causal_new)) \<and>
            r \<in> set (predict_successors p (fold causal_record es causal_new)) \<longrightarrow>
            wakes p q seen \<le> wakes p r seen)"
proof -
  let ?g = "fold causal_record es causal_new"
  note h = causal_history [of es]
  have "recent ?g (min (live_edges ?g) 64) = seen"
    using recent_view [OF h(1), of "min (live_edges ?g) 64"] h(2,3)
    by (auto simp: seen_def rev_drop min_def)
  define cand where "cand = filter (\<lambda>(_, c). 2 \<le> c) (count_wakees p seen)"
  let ?k = "\<lambda>(_ :: u64, c). - int c"
  have res: "predict_successors p ?g = map fst (take 4 (sort_key ?k cand))"
    using \<open>recent ?g _ = seen\<close> by (simp add: predict_successors_def cand_def Let_def)
  have wf: "bt_wf (count_wakees p seen)" using count_wakees_spec by blast
  have mem: "(q, c) \<in> set cand \<longleftrightarrow> q \<noteq> 0 \<and> c = wakes p q seen \<and> 2 \<le> c" for q c
    using count_wakees_spec [of p seen q]
    by (auto simp: cand_def bt_get_eq_mem [OF wf, symmetric] split: if_splits)
  have "distinct (map fst cand)" unfolding cand_def by (rule distinct_map_filter [OF bt_wf_distinct [OF wf]])
  moreover have "mset (map fst (sort_key ?k cand)) = mset (map fst cand)" by simp
  ultimately have "distinct (map fst (sort_key ?k cand))" by (metis mset_eq_imp_distinct_iff)
  then have d: "distinct (predict_successors p ?g)"
    unfolding res by (simp add: take_map [symmetric] distinct_take)
  have sub: "set (take 4 (sort_key ?k cand)) \<subseteq> set cand" by (metis set_sort set_take_subset)
  have order: "wakes p q seen \<le> wakes p r seen"
    if "q \<noteq> 0" "2 \<le> wakes p q seen" "q \<notin> set (predict_successors p ?g)" "r \<in> set (predict_successors p ?g)" for q r
  proof -
    let ?x = "(q, wakes p q seen)" and ?y = "(r, wakes p r seen)"
    have "?y \<in> set (take 4 (sort_key ?k cand))" using that(4) sub mem unfolding res by auto
    moreover have "?x \<in> set cand" "?x \<notin> set (take 4 (sort_key ?k cand))"
      using that mem unfolding res by (auto simp: image_iff)
    ultimately show ?thesis using sort_key_take_max [of ?x cand 4 ?k ?y] by simp
  qed
  have "\<forall>q \<in> set (predict_successors p ?g). q \<noteq> 0 \<and> 2 \<le> wakes p q seen"
    using sub mem unfolding res by auto
  moreover have "length (predict_successors p ?g) \<le> 4" by (simp add: res)
  ultimately show ?thesis using d order by blast
qed

theorem successors_are_habitual_witness:
  "\<not> 5 \<in> set (predict_successors 3 (fold causal_record [\<lparr>waker = 3, wakee = 5, edge_ms = 1\<rparr>] causal_new))"
  using successors_are_habitual [of 3 "[\<lparr>waker = 3, wakee = 5, edge_ms = 1\<rparr>]"]
  by (auto simp: wakes_def)

subsection \<open>Who woke a process\<close>

text \<open>The query for the most recent waker of a process answers with the waker of its oldest
  wakeup among the last 512: the loop counts its offset from the newest edge down from the
  largest.\<close>

theorem last_waker_is_oldest:
  "last_waker p (fold causal_record es causal_new) =
     map_option waker (List.find (\<lambda>e. wakee e = p) (drop (length es - 512) es))"
  using recent_view [OF causal_history(1) order_refl, of es] causal_history [of es]
  by (simp add: last_waker_def causal_view_def)

lemma waker_chain_loop_distinct:
  "distinct chn \<Longrightarrow> distinct (waker_chain_loop depth chn cur g) \<and>
     length (waker_chain_loop depth chn cur g) \<le> length chn + depth"
  by (induction depth chn cur g rule: waker_chain_loop.induct) (fastforce split: option.splits)+

lemma waker_chain_distinct: "distinct (waker_chain p depth g) \<and> length (waker_chain p depth g) \<le> depth + 1"
  using waker_chain_loop_distinct [of "[p]" depth p g] by (simp add: waker_chain_def)

end
