(* ===== verification/Task.thy ===== *)
theory Task
  imports Vmm Runqueue
begin

section \<open>Tasks and their kernel stacks\<close>

text \<open>
  Model of \<^verbatim>\<open>kernel/src/scheduler/task.rs\<close>. Floating-point fields are their 32-bit patterns. Kernel
  stacks are cells of the kernel memory; a saved interrupt frame is twenty cells, the registers
  r15, r14, r13, r12, rbp, rbx, r11, r10, r9, r8, rdi, rsi, rdx, rcx, rax and then RIP, CS, RFLAGS,
  RSP and SS.
\<close>

abbreviation (input) FRAME_RAX_OFFSET :: u64 where "FRAME_RAX_OFFSET \<equiv> 112"

definition FRAME_SIZE :: u64 where "FRAME_SIZE = 160"

abbreviation (input) FRAME_RIP_OFFSET :: u64 where "FRAME_RIP_OFFSET \<equiv> 120"

definition STACK_PAGES :: u64 where "STACK_PAGES = 4"

datatype TaskState = Runnable | Running | Sleeping | Zombie

definition fpu_default_state :: "u8 list" where
  "fpu_default_state =
     (replicate 512 0)[0 := 0x7F, 1 := 0x03, 24 := 0x80, 25 := 0x1F, 28 := 0xFF, 29 := 0xFF]"

record CpuContext =
  r15 :: u64
  r14 :: u64
  r13 :: u64
  r12 :: u64
  rbp :: u64
  rbx :: u64
  r11 :: u64
  r10 :: u64
  r9 :: u64
  r8 :: u64
  rax :: u64
  rcx :: u64
  rdx :: u64
  rsi :: u64
  rdi :: u64
  rip :: u64
  cs :: u64
  rflags :: u64
  rsp :: u64
  ss :: u64

definition cpu_context_default :: CpuContext where
  "cpu_context_default = \<lparr>r15 = 0, r14 = 0, r13 = 0, r12 = 0, rbp = 0, rbx = 0, r11 = 0, r10 = 0,
     r9 = 0, r8 = 0, rax = 0, rcx = 0, rdx = 0, rsi = 0, rdi = 0, rip = 0, cs = 0, rflags = 0,
     rsp = 0, ss = 0\<rparr>"

record AiProfile =
  burst_estimate_us :: u64
  io_cpu_ratio :: u32
  cache_miss_rate :: u32
  ai_nice_adjust :: int
  ticks_run :: u64

definition ai_profile_default :: AiProfile where
  "ai_profile_default = \<lparr>burst_estimate_us = 0, io_cpu_ratio = 0, cache_miss_rate = 0,
     ai_nice_adjust = 0, ticks_run = 0\<rparr>"

record Task =
  t_pid :: Pid
  t_name :: string
  t_state :: TaskState
  t_priority :: int
  t_kernel_stack_top :: u64
  t_saved_kernel_rsp :: u64
  t_cr3 :: u64
  t_context :: CpuContext
  t_ai_profile :: AiProfile
  t_fds :: "u32 list"
  t_signal_mask :: u64
  t_signal_handlers :: "u64 list"
  t_uid :: u32
  t_euid :: u32
  t_gid :: u32
  t_egid :: u32
  t_parent_pid :: Pid
  t_exit_code :: "int option"
  t_robust_list_head :: u64
  t_robust_list_len :: nat
  t_intent :: u8
  t_intent_hint :: u64
  t_pending_signals :: u64
  t_fpu_state :: "u8 list"
  t_user_brk :: u64
  t_fs_base :: u64
  t_woke_by :: "Pid option"
  t_runnable_at :: u64
  t_sched_latency_total_us :: u64
  t_sched_count :: u64
  t_stack_canary :: u64
  t_stack_canary_addr :: u64
  t_mhs_snapshot :: "u32 list option"

text \<open>Cells at kernel addresses, and runs of cells.\<close>

definition peek :: "Vm \<Rightarrow> u64 \<Rightarrow> u64" where
  "peek vm a = mem (frames vm) a"

definition poke :: "u64 \<Rightarrow> u64 \<Rightarrow> Vm \<Rightarrow> Vm" where
  "poke a v vm = vm\<lparr>frames := (frames vm)\<lparr>mem := (mem (frames vm))(a := v)\<rparr>\<rparr>"

primrec poke_cells :: "u64 \<Rightarrow> u64 list \<Rightarrow> Vm \<Rightarrow> Vm" where
  "poke_cells a [] vm = vm"
| "poke_cells a (v # vs) vm = poke_cells (a + 8) vs (poke a v vm)"

definition peek_cells :: "Vm \<Rightarrow> u64 \<Rightarrow> nat \<Rightarrow> u64 list" where
  "peek_cells vm a n = map (\<lambda>i. peek vm (a + 8 * of_nat i)) [0..<n]"

text \<open>The frame written for a new thread: fifteen zero registers and the return frame.\<close>

definition thread_frame :: "u64 \<Rightarrow> u64 \<Rightarrow> u64 list" where
  "thread_frame entry stack_top = replicate 15 0 @ [entry, 0x08, 0x202, stack_top, 0x10]"

definition new_kernel_thread :: "u64 \<Rightarrow> Pid \<Rightarrow> string \<Rightarrow> u64 \<Rightarrow> u64 \<Rightarrow> Vm \<Rightarrow> Task \<times> Vm" where
  "new_kernel_thread cr3_reg pid name entry stack_top vm =
     (let frame_base = stack_top - FRAME_SIZE;
          vm1 = poke_cells frame_base (thread_frame entry stack_top) vm;
          ctx = cpu_context_default\<lparr>rip := entry, rsp := stack_top, cs := 0x08, ss := 0x10, rflags := 0x202\<rparr>
      in (\<lparr>t_pid = pid, t_name = name, t_state = Runnable, t_priority = 0,
           t_kernel_stack_top = stack_top, t_saved_kernel_rsp = frame_base, t_cr3 = cr3_reg,
           t_context = ctx, t_ai_profile = ai_profile_default, t_fds = [], t_signal_mask = 0,
           t_signal_handlers = replicate 64 0, t_uid = 0, t_euid = 0, t_gid = 0, t_egid = 0,
           t_parent_pid = 0, t_exit_code = None, t_robust_list_head = 0, t_robust_list_len = 0,
           t_intent = 0, t_intent_hint = 0, t_pending_signals = 0, t_fpu_state = fpu_default_state,
           t_user_brk = 0, t_fs_base = 0, t_woke_by = None, t_runnable_at = 0,
           t_sched_latency_total_us = 0, t_sched_count = 0, t_stack_canary = 0,
           t_stack_canary_addr = 0, t_mhs_snapshot = None\<rparr>, vm1))"

definition new_idle :: "u64 \<Rightarrow> Pid \<Rightarrow> Task" where
  "new_idle cr3_reg pid =
     \<lparr>t_pid = pid, t_name = ''idle'', t_state = Running, t_priority = 0, t_kernel_stack_top = 0,
      t_saved_kernel_rsp = 0, t_cr3 = cr3_reg, t_context = cpu_context_default,
      t_ai_profile = ai_profile_default, t_fds = [], t_signal_mask = 0,
      t_signal_handlers = replicate 64 0, t_uid = 0, t_euid = 0, t_gid = 0, t_egid = 0,
      t_parent_pid = 0, t_exit_code = None, t_robust_list_head = 0, t_robust_list_len = 0,
      t_intent = 0, t_intent_hint = 0, t_pending_signals = 0, t_fpu_state = fpu_default_state,
      t_user_brk = 0, t_fs_base = 0, t_woke_by = None, t_runnable_at = 0,
      t_sched_latency_total_us = 0, t_sched_count = 0, t_stack_canary = 0, t_stack_canary_addr = 0,
      t_mhs_snapshot = None\<rparr>"

text \<open>\<^verbatim>\<open>clone_shallow\<close>: a new kernel stack of four pages with a copy of the parent's saved frame.\<close>

definition clone_shallow :: "Pid \<Rightarrow> Task \<Rightarrow> Vm \<Rightarrow> (Task \<times> Vm) option" where
  "clone_shallow child_pid t vm =
     (case alloc_frames 2 (frames vm) of
        None \<Rightarrow> None
      | Some (stack_phys, b) \<Rightarrow>
          (let vm1 = set_frames b vm;
               stack_top = phys_offset b + stack_phys + STACK_PAGES * PAGE_SIZE;
               child_frame_base = stack_top - FRAME_SIZE;
               vm2 = poke_cells child_frame_base (peek_cells vm1 (t_saved_kernel_rsp t) 20) vm1;
               vm3 = poke (child_frame_base + FRAME_RAX_OFFSET) 0 vm2
           in Some (t\<lparr>t_pid := child_pid, t_state := Runnable, t_kernel_stack_top := stack_top,
                      t_saved_kernel_rsp := child_frame_base, t_ai_profile := ai_profile_default,
                      t_parent_pid := t_pid t, t_exit_code := None, t_robust_list_head := 0,
                      t_robust_list_len := 0, t_pending_signals := 0, t_woke_by := None,
                      t_runnable_at := 0, t_sched_latency_total_us := 0, t_sched_count := 0,
                      t_stack_canary := 0, t_stack_canary_addr := 0\<rparr>, vm3)))"

subsection \<open>Runs of cells\<close>

lemma peek_poke [simp]: "peek (poke a v vm) x = (if x = a then v else peek vm x)"
  by (simp add: peek_def poke_def)

lemma peek_rd: "peek vm (phys_offset (frames vm) + a) = rd vm a"
  by (simp add: peek_def rd_def)

lemma cell_inj:
  assumes "i < 2 ^ 61" and "j < 2 ^ 61"
  shows "(8::u64) * of_nat i = 8 * of_nat j \<longleftrightarrow> i = j"
proof
  assume h: "(8::u64) * of_nat i = 8 * of_nat j"
  have "unat ((8::u64) * of_nat k) = 8 * k" if "k < 2 ^ 61" for k
    using that by (simp add: unat_word_ariths unat_of_nat)
  then show "i = j" using h assms by (metis mult_left_cancel zero_neq_numeral)
qed simp

lemma peek_poke_cells_out:
  "\<forall>i < length vs. x \<noteq> a + 8 * of_nat i \<Longrightarrow> peek (poke_cells a vs vm) x = peek vm x"
proof (induction vs arbitrary: a vm)
  case (Cons v vs)
  have "x \<noteq> a + 8 + 8 * of_nat i" if "i < length vs" for i
    using Cons.prems [rule_format, of "Suc i"] that by (simp add: algebra_simps)
  moreover have "x \<noteq> a" using Cons.prems [rule_format, of 0] by simp
  ultimately show ?case using Cons.IH [of "a + 8" "poke a v vm"] by simp
qed simp

lemma peek_poke_cells_at:
  assumes "i < length vs" and "length vs < 2 ^ 61"
  shows "peek (poke_cells a vs vm) (a + 8 * of_nat i) = vs ! i"
  using assms
proof (induction vs arbitrary: a vm i)
  case (Cons v vs)
  show ?case
  proof (cases i)
    case 0
    have "(8::u64) * of_nat (Suc j) \<noteq> 8 * of_nat 0" if "j < length vs" for j
      using cell_inj [of "Suc j" 0] Cons.prems(2) that by simp
    then have "\<forall>j < length vs. a \<noteq> a + 8 + 8 * of_nat j" by (auto simp: algebra_simps)
    then show ?thesis using 0 peek_poke_cells_out by simp
  next
    case (Suc j)
    then have "peek (poke_cells (a + 8) vs (poke a v vm)) (a + 8 + 8 * of_nat j) = vs ! j"
      using Cons.IH [of j "a + 8" "poke a v vm"] Cons.prems by simp
    then show ?thesis using Suc by (simp add: algebra_simps)
  qed
qed simp

lemma peek_cells_nth [simp]: "i < n \<Longrightarrow> peek_cells vm a n ! i = peek vm (a + 8 * of_nat i)"
  by (simp add: peek_cells_def)

lemma length_peek_cells [simp]: "length (peek_cells vm a n) = n"
  by (simp add: peek_cells_def)

lemma poke_parts [simp]:
  "phys_offset (frames (poke a v vm)) = phys_offset (frames vm)"
  "cow_refs (poke a v vm) = cow_refs vm" "vm_reserves (poke a v vm) = vm_reserves vm"
  "vmm_l4 (poke a v vm) = vmm_l4 vm"
  by (simp_all add: poke_def)

lemma poke_cells_parts [simp]:
  "phys_offset (frames (poke_cells a vs vm)) = phys_offset (frames vm)"
  "cow_refs (poke_cells a vs vm) = cow_refs vm" "vm_reserves (poke_cells a vs vm) = vm_reserves vm"
  "vmm_l4 (poke_cells a vs vm) = vmm_l4 vm"
  by (induction vs arbitrary: a vm) simp_all

subsection \<open>Stores to a kernel stack\<close>

lemma poke_wr: "poke (phys_offset (frames vm) + a) v vm = wr a v vm"
  by (simp add: poke_def wr_def)

text \<open>Cells of an allocated block: storing there leaves the allocator and all other memory alone.\<close>

definition stays :: "nat set \<Rightarrow> Vm \<Rightarrow> Vm \<Rightarrow> bool" where
  "stays A vm vm' \<longleftrightarrow> (pmm_inv (frames vm) \<longrightarrow> pmm_inv (frames vm')) \<and>
     free_space (frames vm') = free_space (frames vm) \<and> keeps_outside A (frames vm) (frames vm')"

lemma stays_trans: "stays A vm vm1 \<Longrightarrow> stays A vm1 vm2 \<Longrightarrow> stays A vm vm2"
  by (auto simp: stays_def intro: keeps_outside_trans)

lemma poke_stays:
  assumes "pmm_inv (frames vm)" and "A \<inter> free_space (frames vm) = {}" and "unat p \<in> A"
    and "a = phys_offset (frames vm) + p"
  shows "stays A vm (poke a v vm)"
proof -
  have "unat p \<notin> free_space (frames vm)" using assms(2,3) by auto
  note st = vm_store(1,2) [OF assms(1) this, of v]
  have "keeps_outside A (frames vm) (frames (wr p v vm))"
    using assms(3) by (auto simp: keeps_outside_def wr_def)
  then show ?thesis using st by (simp add: stays_def assms(4) poke_wr)
qed

lemma poke_cells_stays:
  assumes "pmm_inv (frames vm)" and "A \<inter> free_space (frames vm) = {}"
    and "\<forall>i < length vs. unat (p + 8 * of_nat i) \<in> A" and "a = phys_offset (frames vm) + p"
  shows "stays A vm (poke_cells a vs vm)"
  using assms
proof (induction vs arbitrary: a p vm)
  case Nil
  then show ?case by (simp add: stays_def)
next
  case (Cons v vs)
  have "unat p \<in> A" using Cons.prems(3) [rule_format, of 0] by simp
  note st = poke_stays [OF Cons.prems(1,2) this Cons.prems(4), of v]
  have "\<forall>i < length vs. unat (p + 8 + 8 * of_nat i) \<in> A"
  proof (intro allI impI)
    fix i assume "i < length vs"
    then show "unat (p + 8 + 8 * of_nat i) \<in> A"
      using Cons.prems(3) [rule_format, of "Suc i"] by (simp add: algebra_simps)
  qed
  then have "stays A (poke a v vm) (poke_cells (a + 8) vs (poke a v vm))"
    using st Cons.prems by (intro Cons.IH [of _ "p + 8"]) (auto simp: stays_def)
  then show ?case using stays_trans [OF st] by simp
qed

text \<open>Offsets into a four-page block.\<close>

lemma stack_cell:
  assumes "block_ok s 2" and "n < 16384"
  shows "unat (s + of_nat n) = unat s + n" and "unat (s + of_nat n) \<in> span s 2"
proof -
  have "unat s + 2 ^ 14 \<le> 2 ^ 64"
    using aligned_end [of 14 s] assms(1) by (simp add: block_ok_def)
  then show "unat (s + of_nat n) = unat s + n"
    using assms(2) by (subst unat_add_lem [THEN iffD1]) (simp_all add: unat_of_nat)
  then show "unat (s + of_nat n) \<in> span s 2" using assms(2) by (simp add: span_def)
qed

lemma stack_frame_cell:
  assumes "block_ok s 2" and "i < 20"
  shows "unat (s + STACK_PAGES * PAGE_SIZE - FRAME_SIZE + 8 * of_nat i) \<in> span s 2"
proof -
  have "s + STACK_PAGES * PAGE_SIZE - FRAME_SIZE + 8 * of_nat i = s + of_nat (16224 + 8 * i)"
    by (simp add: STACK_PAGES_def PAGE_SIZE_def FRAME_SIZE_def)
  then show ?thesis using stack_cell(2) [OF assms(1), of "16224 + 8 * i"] assms(2) by (simp only:)
qed

text \<open>A frame copied to the top of a stack, with the RAX cell cleared.\<close>

definition fork_frame :: "u64 \<Rightarrow> u64 \<Rightarrow> Vm \<Rightarrow> Vm" where
  "fork_frame src base vm =
     poke (base + FRAME_RAX_OFFSET) 0 (poke_cells base (peek_cells vm src 20) vm)"

lemma fork_frame_cells:
  assumes "i < 20"
  shows "peek (fork_frame src base vm) (base + 8 * of_nat i) =
     (if i = 14 then 0 else peek vm (src + 8 * of_nat i))"
proof -
  have "base + FRAME_RAX_OFFSET = base + 8 * of_nat 14" by simp
  then have "base + 8 * of_nat i = base + FRAME_RAX_OFFSET \<longleftrightarrow> i = 14"
    using cell_inj [of i 14] assms by simp
  moreover have "peek (poke_cells base (peek_cells vm src 20) vm) (base + 8 * of_nat i) =
      peek_cells vm src 20 ! i"
    by (rule peek_poke_cells_at) (use assms in simp_all)
  ultimately show ?thesis using assms by (simp add: fork_frame_def)
qed

lemma fork_frame_stays:
  assumes "pmm_inv (frames vm)" and "block_ok s 2" and "span s 2 \<inter> free_space (frames vm) = {}"
    and "base = phys_offset (frames vm) + (s + STACK_PAGES * PAGE_SIZE - FRAME_SIZE)"
  shows "stays (span s 2) vm (fork_frame src base vm)"
proof -
  let ?p = "s + STACK_PAGES * PAGE_SIZE - FRAME_SIZE"
  let ?vm = "poke_cells base (peek_cells vm src 20) vm"
  have cells: "\<forall>i < 20. unat (?p + 8 * of_nat i) \<in> span s 2"
    using stack_frame_cell [OF assms(2)] by blast
  have st: "stays (span s 2) vm ?vm"
    by (rule poke_cells_stays [OF assms(1,3) _ assms(4)]) (use cells in simp)
  have c14: "unat (?p + 8 * of_nat 14) \<in> span s 2"
    by (rule stack_frame_cell [OF assms(2)]) simp
  have rax: "base + FRAME_RAX_OFFSET = phys_offset (frames ?vm) + (?p + 8 * of_nat 14)"
    by (simp add: assms(4))
  have "stays (span s 2) ?vm (fork_frame src base vm)" unfolding fork_frame_def
    by (rule poke_stays [OF _ _ c14 rax]) (use st assms(1,3) in \<open>auto simp: stays_def\<close>)
  then show ?thesis by (rule stays_trans [OF st])
qed

lemma clone_shallow_cases:
  assumes "clone_shallow child t vm = Some (t', vm')"
  obtains s b where "alloc_order 2 (frames vm) = Some (s, b)"
    and "t_kernel_stack_top t' = phys_offset b + s + STACK_PAGES * PAGE_SIZE"
    and "t_saved_kernel_rsp t' = t_kernel_stack_top t' - FRAME_SIZE"
    and "vm' = fork_frame (t_saved_kernel_rsp t) (t_saved_kernel_rsp t') (set_frames b vm)"
  using assms
  by (auto simp: clone_shallow_def Let_def alloc_frames_def fork_frame_def split: option.splits)

lemma clone_shallow_task:
  assumes "clone_shallow child t vm = Some (t', vm')"
  shows "t_pid t' = child" and "t_state t' = Runnable" and "t_parent_pid t' = t_pid t"
    and "t_exit_code t' = None" and "t_priority t' = t_priority t" and "t_cr3 t' = t_cr3 t"
    and "t_signal_handlers t' = t_signal_handlers t" and "t_stack_canary_addr t' = 0"
    and "cow_refs vm' = cow_refs vm"
  using assms by (auto simp: clone_shallow_def Let_def split: option.splits)

lemma clone_shallow_correct:
  assumes "pmm_inv (frames vm)" and "clone_shallow child t vm = Some (t', vm')"
    and "\<forall>i < 20. \<exists>p. t_saved_kernel_rsp t + 8 * of_nat i = phys_offset (frames vm) + p \<and>
           unat p \<notin> free_space (frames vm)"
  shows "\<exists>s. span s 2 \<subseteq> free_space (frames vm) \<and> pmm_inv (frames vm') \<and>
           free_space (frames vm') = free_space (frames vm) - span s 2 \<and>
           keeps_outside (free_space (frames vm)) (frames vm) (frames vm') \<and>
           t_kernel_stack_top t' = phys_offset (frames vm) + s + 16384 \<and>
           t_saved_kernel_rsp t' = t_kernel_stack_top t' - 160 \<and>
           (\<forall>i < 20. peek vm' (t_saved_kernel_rsp t' + 8 * of_nat i) =
              (if i = 14 then 0 else peek vm (t_saved_kernel_rsp t + 8 * of_nat i)))"
proof -
  obtain s b where al: "alloc_order 2 (frames vm) = Some (s, b)"
    and top: "t_kernel_stack_top t' = phys_offset b + s + STACK_PAGES * PAGE_SIZE"
    and rsp: "t_saved_kernel_rsp t' = t_kernel_stack_top t' - FRAME_SIZE"
    and vm': "vm' = fork_frame (t_saved_kernel_rsp t) (t_saved_kernel_rsp t') (set_frames b vm)"
    by (rule clone_shallow_cases [OF assms(2)])
  note ok = alloc_order_correct [OF assms(1) al] and keep = alloc_order_keeps [OF assms(1) al]
  have po: "phys_offset b = phys_offset (frames vm)" using keep by (simp add: keeps_outside_def)
  have st: "stays (span s 2) (set_frames b vm) vm'" unfolding vm'
    by (rule fork_frame_stays) (use ok top rsp in \<open>auto simp: algebra_simps\<close>)
  then have "keeps_outside (span s 2) b (frames vm')" by (simp add: stays_def)
  then have ko: "keeps_outside (free_space (frames vm)) (frames vm) (frames vm')"
    using keep ok(3) by (blast intro: keeps_outside_trans keeps_outside_mono)
  have src: "peek (set_frames b vm) (t_saved_kernel_rsp t + 8 * of_nat i) =
      peek vm (t_saved_kernel_rsp t + 8 * of_nat i)" if "i < 20" for i
    using assms(3) that keep by (auto simp: peek_def keeps_outside_def)
  have "pmm_inv (frames vm')" "free_space (frames vm') = free_space (frames vm) - span s 2"
    using st ok by (auto simp: stays_def)
  moreover have "\<forall>i < 20. peek vm' (t_saved_kernel_rsp t' + 8 * of_nat i) =
      (if i = 14 then 0 else peek vm (t_saved_kernel_rsp t + 8 * of_nat i))"
    using fork_frame_cells src by (simp add: vm')
  ultimately show ?thesis using ok(3) ko top rsp po
    by (intro exI [of _ s]) (simp add: STACK_PAGES_def PAGE_SIZE_def FRAME_SIZE_def)
qed

end
