(* ===== verification/Rlimit.thy ===== *)
theory Rlimit
  imports Prelude
begin

section \<open>Resource limits\<close>

text \<open>
  Model of \<^verbatim>\<open>kernel/src/rlimit.rs\<close>: a table from process ids to sixteen pairs of a soft and
  a hard limit. A process without an entry is unlimited.
\<close>

definition N_RLIMITS :: nat where "N_RLIMITS = 16"

record Rlimit =
  rl_cur :: u64
  rl_max :: u64

definition unlimited :: Rlimit where
  "unlimited = \<lparr>rl_cur = - 1, rl_max = - 1\<rparr>"

type_synonym ProcLimits = "Rlimit list"

definition proc_limits_new :: ProcLimits where
  "proc_limits_new = replicate N_RLIMITS unlimited"

type_synonym rlimit_table = "(u64, ProcLimits) btree"

text \<open>\<^verbatim>\<open>entry(pid).or_insert_with\<close>\<close>

definition or_default :: "u64 \<Rightarrow> rlimit_table \<Rightarrow> rlimit_table" where
  "or_default pid t = (case bt_get t pid of None \<Rightarrow> bt_insert pid proc_limits_new t | Some _ \<Rightarrow> t)"

definition rlimit_init_pid :: "u64 \<Rightarrow> u64 option \<Rightarrow> rlimit_table \<Rightarrow> rlimit_table" where
  "rlimit_init_pid pid parent_pid t =
     (case Option.bind parent_pid (bt_get t) of
        Some p \<Rightarrow> bt_insert pid p t
      | None \<Rightarrow> or_default pid t)"

definition rlimit_remove_pid :: "u64 \<Rightarrow> rlimit_table \<Rightarrow> rlimit_table" where
  "rlimit_remove_pid pid t = bt_remove pid t"

definition rlimit_get :: "u64 \<Rightarrow> nat \<Rightarrow> rlimit_table \<Rightarrow> Rlimit" where
  "rlimit_get pid resource t =
     (if N_RLIMITS \<le> resource then unlimited
      else case bt_get t pid of Some p \<Rightarrow> p ! resource | None \<Rightarrow> unlimited)"

definition rlimit_set :: "u64 \<Rightarrow> nat \<Rightarrow> u64 \<Rightarrow> u64 \<Rightarrow> rlimit_table \<Rightarrow> int \<times> rlimit_table" where
  "rlimit_set pid resource new_cur new_max t =
     (if N_RLIMITS \<le> resource then (-1, t)
      else let t1 = or_default pid t;
               limits = the (bt_get t1 pid);
               current_hard = rl_max (limits ! resource)
           in if new_max > current_hard \<and> current_hard \<noteq> - 1 then (-1, t1)
              else if new_cur > new_max then (-1, t1)
              else (0, bt_insert pid (limits[resource := \<lparr>rl_cur = new_cur, rl_max = new_max\<rparr>]) t1))"

subsection \<open>Soft limits stay below hard limits\<close>

definition rlimit_inv :: "rlimit_table \<Rightarrow> bool" where
  "rlimit_inv t \<longleftrightarrow> (\<forall>pid p. bt_get t pid = Some p \<longrightarrow>
     length p = N_RLIMITS \<and> (\<forall>l \<in> set p. rl_cur l \<le> rl_max l))"

lemma proc_limits_new_ok:
  "length proc_limits_new = N_RLIMITS \<and> (\<forall>l \<in> set proc_limits_new. rl_cur l \<le> rl_max l)"
  by (auto simp: proc_limits_new_def unlimited_def)

lemma rlimit_inv_insert [kinv]:
  "rlimit_inv t \<Longrightarrow> length p = N_RLIMITS \<Longrightarrow> \<forall>l \<in> set p. rl_cur l \<le> rl_max l \<Longrightarrow>
     rlimit_inv (bt_insert pid p t)"
  by (auto simp: rlimit_inv_def)

lemma rlimit_inv_empty [kinv]: "rlimit_inv []"
  by (simp add: rlimit_inv_def)

lemma rlimit_inv_or_default [kinv]: "rlimit_inv t \<Longrightarrow> rlimit_inv (or_default pid t)"
  using proc_limits_new_ok by (auto simp: or_default_def split: option.splits intro: rlimit_inv_insert)

lemma rlimit_inv_init [kinv]:
  assumes "rlimit_inv t"
  shows "rlimit_inv (rlimit_init_pid pid par t)"
proof (cases "Option.bind par (bt_get t)")
  case None
  then show ?thesis using rlimit_inv_or_default [OF assms] by (simp add: rlimit_init_pid_def)
next
  case (Some p)
  then obtain y where "bt_get t y = Some p" by (auto simp: bind_eq_Some_conv)
  then have "length p = N_RLIMITS \<and> (\<forall>l \<in> set p. rl_cur l \<le> rl_max l)"
    using assms by (simp add: rlimit_inv_def)
  then show ?thesis using Some rlimit_inv_insert [OF assms] by (simp add: rlimit_init_pid_def)
qed

lemma rlimit_inv_remove [kinv]: "rlimit_inv t \<Longrightarrow> rlimit_inv (rlimit_remove_pid pid t)"
  by (auto simp: rlimit_inv_def rlimit_remove_pid_def)

lemma or_default_some: "\<exists>p. bt_get (or_default pid t) pid = Some p"
  by (auto simp: or_default_def split: option.splits)

lemma rlimit_get_or_default [simp]: "rlimit_get q r (or_default pid t) = rlimit_get q r t"
  by (auto simp: rlimit_get_def or_default_def proc_limits_new_def split: option.splits)

lemma rlimit_get_unlimited_hard: "rl_max (rlimit_get q N_RLIMITS t) = - 1"
  by (simp add: rlimit_get_def unlimited_def)

lemma rlimit_inv_set [kinv]:
  assumes "rlimit_inv t"
  shows "rlimit_inv (snd (rlimit_set pid r c m t))"
proof -
  obtain p where p: "bt_get (or_default pid t) pid = Some p" using or_default_some by blast
  have "rlimit_inv (or_default pid t)" by (rule rlimit_inv_or_default [OF assms])
  moreover from this p have "length p = N_RLIMITS" "\<forall>l \<in> set p. rl_cur l \<le> rl_max l"
    by (auto simp: rlimit_inv_def)
  ultimately show ?thesis using assms p
    by (auto simp: rlimit_set_def Let_def not_less intro!: rlimit_inv_insert
        dest!: set_update_subset_insert [THEN subsetD])
qed

text \<open>C33: what setting a limit does. It succeeds exactly when the new hard limit does not
  exceed the old one and the new soft limit does not exceed the new hard one; on success only
  that limit of that process changes, on failure every limit reads as before.\<close>

theorem rlimit_set_spec:
  assumes "rlimit_inv t" and "r < 16"
  shows "fst (rlimit_set pid r c m t) =
           (if m \<le> rl_max (rlimit_get pid r t) \<and> c \<le> m then 0 else -1) \<and>
         rlimit_get q k (snd (rlimit_set pid r c m t)) =
           (if m \<le> rl_max (rlimit_get pid r t) \<and> c \<le> m \<and> q = pid \<and> k = r
            then \<lparr>rl_cur = c, rl_max = m\<rparr> else rlimit_get q k t)"
proof -
  obtain p where p: "bt_get (or_default pid t) pid = Some p" using or_default_some by blast
  have len: "length p = N_RLIMITS"
    using rlimit_inv_or_default [OF assms(1), of pid] p by (simp add: rlimit_inv_def)
  have r: "r < N_RLIMITS" using assms(2) by (simp add: N_RLIMITS_def)
  have get: "rlimit_get pid r t = p ! r"
    using rlimit_get_or_default [of pid r pid t] p r by (simp add: rlimit_get_def)
  have top: "m \<le> (- 1 :: u64)" by simp
  have ins: "rlimit_get q k (bt_insert pid (p[r := x]) (or_default pid t)) =
      (if q = pid \<and> k = r then x else rlimit_get q k t)" for x
    using rlimit_get_or_default [of q k pid t] p r len
    by (auto simp: rlimit_get_def nth_list_update)
  show ?thesis
    using r p ins top by (auto simp: rlimit_set_def Let_def get not_less not_le)
qed

theorem rlimit_set_spec_witness:
  "fst (rlimit_set 7 3 10 20 []) = 0 \<and>
   rlimit_get 7 3 (snd (rlimit_set 7 3 10 20 [])) = \<lparr>rl_cur = 10, rl_max = 20\<rparr>"
  using rlimit_set_spec [OF rlimit_inv_empty, of 3 7 10 20 7 3]
  by (simp add: rlimit_get_def N_RLIMITS_def unlimited_def)

end
