(* ===== verification/Job_Groups.thy ===== *)
theory Job_Groups
  imports Prelude
begin

section \<open>Process group tables\<close>

text \<open>
  The two tables of \<^verbatim>\<open>kernel/src/job_control.rs\<close>: the group of each process and the members
  of each group. The parts of job control that act on the scheduler are in a later theory.
\<close>

record JobTables =
  pid_pgid :: "(u32, u32) btree"
  pgid_members :: "(u32, u32 list) btree"
  fg_pgid :: u32

text \<open>\<^verbatim>\<open>BTreeSet\<close> insertion and removal on ascending lists.\<close>

definition bs_insert :: "'a::linorder \<Rightarrow> 'a list \<Rightarrow> 'a list" where
  "bs_insert x xs = (if x \<in> set xs then xs else insort x xs)"

definition bs_remove :: "'a \<Rightarrow> 'a list \<Rightarrow> 'a list" where
  "bs_remove x xs = filter (\<lambda>y. y \<noteq> x) xs"

definition job_new :: JobTables where
  "job_new = \<lparr>pid_pgid = [], pgid_members = [], fg_pgid = 0\<rparr>"

definition setpgid :: "u32 \<Rightarrow> u32 \<Rightarrow> JobTables \<Rightarrow> JobTables" where
  "setpgid pid pgid_in j =
     (let pgid = (if pgid_in = 0 then pid else pgid_in);
          old_pgid = bt_get (pid_pgid j) pid;
          m1 = (case old_pgid of Some old \<Rightarrow> bt_modify old (bs_remove pid) (pgid_members j)
                               | None \<Rightarrow> pgid_members j);
          cur = (case bt_get m1 pgid of Some s \<Rightarrow> s | None \<Rightarrow> [])
      in j\<lparr>pid_pgid := bt_insert pid pgid (pid_pgid j),
           pgid_members := bt_insert pgid (bs_insert pid cur) m1\<rparr>)"

definition getpgid :: "u32 \<Rightarrow> JobTables \<Rightarrow> u32" where
  "getpgid pid j = (case bt_get (pid_pgid j) pid of Some g \<Rightarrow> g | None \<Rightarrow> pid)"

definition group_members :: "u32 \<Rightarrow> JobTables \<Rightarrow> u32 list" where
  "group_members pgid j = (case bt_get (pgid_members j) pgid of Some s \<Rightarrow> s | None \<Rightarrow> [])"

definition job_cleanup_pid :: "u64 \<Rightarrow> JobTables \<Rightarrow> JobTables" where
  "job_cleanup_pid pid j =
     (let p = ucast pid;
          j1 = j\<lparr>pid_pgid := bt_remove p (pid_pgid j)\<rparr>
      in case bt_get (pid_pgid j) p of
           Some pgid \<Rightarrow> j1\<lparr>pgid_members := bt_modify pgid (bs_remove p) (pgid_members j)\<rparr>
         | None \<Rightarrow> j1)"

subsection \<open>The two tables agree\<close>

definition bs_wf :: "'a::linorder list \<Rightarrow> bool" where
  "bs_wf xs \<longleftrightarrow> sorted xs \<and> distinct xs"

definition job_inv :: "JobTables \<Rightarrow> bool" where
  "job_inv j \<longleftrightarrow> (\<forall>pid g. pid \<in> set (group_members g j) \<longleftrightarrow> bt_get (pid_pgid j) pid = Some g) \<and>
     (\<forall>g. bs_wf (group_members g j))"

lemma set_bs_insert [simp]: "set (bs_insert x xs) = insert x (set xs)"
  by (auto simp: bs_insert_def set_insort_key)

lemma set_bs_remove [simp]: "set (bs_remove x xs) = set xs - {x}"
  by (auto simp: bs_remove_def)

lemma bs_wf_Nil [simp]: "bs_wf []"
  by (simp add: bs_wf_def)

lemma bs_insert_wf [simp]: "bs_wf xs \<Longrightarrow> bs_wf (bs_insert x xs)"
  by (simp add: bs_wf_def bs_insert_def sorted_insort distinct_insort)

lemma bs_remove_wf [simp]: "bs_wf xs \<Longrightarrow> bs_wf (bs_remove x xs)"
  by (simp add: bs_wf_def bs_remove_def sorted_wrt_filter)

lemma job_inv_new [kinv]: "job_inv job_new"
  by (simp add: job_inv_def job_new_def group_members_def)

lemma group_members_setpgid:
  assumes "job_inv j"
  defines "pgid \<equiv> \<lambda>pid pgid_in. if pgid_in = 0 then pid else pgid_in"
  shows "group_members g (setpgid pid g0 j) =
     (if g = pgid pid g0 then bs_insert pid (bs_remove pid (group_members g j))
      else bs_remove pid (group_members g j))"
proof -
  have idle: "bs_remove pid (group_members h j) = group_members h j"
    if "bt_get (pid_pgid j) pid \<noteq> Some h" for h
  proof -
    have "pid \<notin> set (group_members h j)" using assms(1) that by (simp add: job_inv_def)
    then show ?thesis by (auto simp: bs_remove_def filter_id_conv)
  qed
  show ?thesis
    using idle [of g] by (auto simp: setpgid_def group_members_def pgid_def Let_def bs_remove_def
        split: option.splits)
qed

lemma job_inv_setpgid [kinv]:
  assumes "job_inv j"
  shows "job_inv (setpgid pid g j)"
proof -
  have "bt_get (pid_pgid (setpgid pid g j)) = (bt_get (pid_pgid j))(pid \<mapsto> if g = 0 then pid else g)"
    by (simp add: setpgid_def Let_def)
  then show ?thesis
    using assms
    by (auto simp: job_inv_def group_members_setpgid [OF assms])
qed

lemma job_inv_cleanup [kinv]:
  assumes "job_inv j"
  shows "job_inv (job_cleanup_pid pid j)"
proof -
  let ?p = "ucast pid :: u32"
  have "group_members g (job_cleanup_pid pid j) = bs_remove ?p (group_members g j)" for g
  proof (cases "bt_get (pid_pgid j) ?p = Some g")
    case True
    then show ?thesis by (simp add: job_cleanup_pid_def group_members_def Let_def bs_remove_def split: option.splits)
  next
    case False
    then have "?p \<notin> set (group_members g j)" using assms by (simp add: job_inv_def)
    then have "bs_remove ?p (group_members g j) = group_members g j"
      by (auto simp: bs_remove_def filter_id_conv)
    then show ?thesis using False
      by (auto simp: job_cleanup_pid_def group_members_def Let_def split: option.splits)
  qed
  moreover have "bt_get (pid_pgid (job_cleanup_pid pid j)) = (bt_get (pid_pgid j))(?p := None)"
    by (simp add: job_cleanup_pid_def Let_def split: option.splits)
  ultimately show ?thesis using assms by (auto simp: job_inv_def)
qed

text \<open>The operations that change the tables, and any sequence of them.\<close>

datatype job_op = SetPgid u32 u32 | Cleanup u64

fun job_step :: "job_op \<Rightarrow> JobTables \<Rightarrow> JobTables" where
  "job_step (SetPgid pid g) j = setpgid pid g j"
| "job_step (Cleanup pid) j = job_cleanup_pid pid j"

lemma job_inv_steps: "job_inv j \<Longrightarrow> job_inv (fold job_step ops j)"
proof (induction ops arbitrary: j)
  case (Cons a ops)
  then show ?case by (cases a) (auto intro: kinv)
qed simp

text \<open>After any sequence of group changes and exits, a process is listed as a member of a
  group exactly when its recorded group is that one: no process is in two groups and none is
  left behind.\<close>

theorem job_tables_agree:
  "pid \<in> set (group_members g (fold job_step ops job_new)) \<longleftrightarrow>
     bt_get (pid_pgid (fold job_step ops job_new)) pid = Some g"
  using job_inv_steps [OF job_inv_new, of ops] by (simp add: job_inv_def)

end
