(* ===== verification/Security.thy ===== *)
theory Security
  imports Prelude
begin

section \<open>Capabilities and system-call filters\<close>

text \<open>
  Model of \<^verbatim>\<open>kernel/src/security.rs\<close>: the bit set filter over the first 256 system calls and the
  table of capability masks. Closing the open handles of a revoked capability belongs to the
  system-call layer and is the argument \<open>invalidate\<close> on that layer's state. The control-register
  bits and the address-space offset are hardware settings and left out.
\<close>

abbreviation (input) CAP_SYS_MODULE :: u64 where "CAP_SYS_MODULE \<equiv> push_bit 5 1"

abbreviation (input) CAP_SETUID :: u64 where "CAP_SETUID \<equiv> push_bit 4 1"

abbreviation (input) CAP_NET_RAW :: u64 where "CAP_NET_RAW \<equiv> push_bit 1 1"

abbreviation (input) CAP_NET_BIND :: u64 where "CAP_NET_BIND \<equiv> push_bit 6 1"

abbreviation (input) CAP_SYS_BOOT :: u64 where "CAP_SYS_BOOT \<equiv> push_bit 7 1"

abbreviation (input) CAP_AI_OVERRIDE :: u64 where "CAP_AI_OVERRIDE \<equiv> push_bit 62 1"

abbreviation (input) CAP_KERNEL :: u64 where "CAP_KERNEL \<equiv> - 1"

datatype SeccompAction = Allow | Block | Kill

record SyscallFilter =
  allowed :: "u64 list"
  default_action :: SeccompAction

definition allow_all :: SyscallFilter where
  "allow_all = \<lparr>allowed = replicate 4 (- 1), default_action = Allow\<rparr>"

definition deny_all :: SyscallFilter where
  "deny_all = \<lparr>allowed = replicate 4 0, default_action = Block\<rparr>"

definition filter_allow :: "u64 \<Rightarrow> SyscallFilter \<Rightarrow> SyscallFilter" where
  "filter_allow nr f =
     (if nr < 256
      then let i = unat (nr div 64)
           in f\<lparr>allowed := (allowed f)[i := allowed f ! i OR push_bit (unat (nr mod 64)) 1]\<rparr>
      else f)"

definition filter_block :: "u64 \<Rightarrow> SyscallFilter \<Rightarrow> SyscallFilter" where
  "filter_block nr f =
     (if nr < 256
      then let i = unat (nr div 64)
           in f\<lparr>allowed := (allowed f)[i := allowed f ! i AND NOT (push_bit (unat (nr mod 64)) 1)]\<rparr>
      else f)"

definition filter_check :: "u64 \<Rightarrow> SyscallFilter \<Rightarrow> SeccompAction" where
  "filter_check nr f =
     (if nr < 256
      then if allowed f ! unat (nr div 64) AND push_bit (unat (nr mod 64)) 1 \<noteq> 0 then Allow
           else default_action f
      else default_action f)"

abbreviation (input) STACK_CANARY :: u64 where "STACK_CANARY \<equiv> 0xDEADBEEFCAFEBABE"

definition place_stack_canary :: "u64 \<Rightarrow> (u64 \<Rightarrow> u64) \<Rightarrow> (u64 \<Rightarrow> u64)" where
  "place_stack_canary stack_base m = m(stack_base := STACK_CANARY)"

definition check_stack_canary :: "u64 \<Rightarrow> (u64 \<Rightarrow> u64) \<Rightarrow> bool" where
  "check_stack_canary stack_base m \<longleftrightarrow> m stack_base = STACK_CANARY"

text \<open>A security context is its capability mask.\<close>

type_synonym contexts = "(u64, u64) btree"

definition init_task_context :: "u64 \<Rightarrow> u64 option \<Rightarrow> contexts \<Rightarrow> contexts" where
  "init_task_context pid parent_pid c =
     (let caps = (if pid = 0 \<or> pid = 1 then CAP_KERNEL
                  else case parent_pid of
                         Some ppid \<Rightarrow> (case bt_get c ppid of Some k \<Rightarrow> k | None \<Rightarrow> 0)
                       | None \<Rightarrow> 0)
      in bt_insert pid caps c)"

definition cleanup_task_context :: "u64 \<Rightarrow> contexts \<Rightarrow> contexts" where
  "cleanup_task_context pid c = bt_remove pid c"

definition has_capability :: "u64 \<Rightarrow> u64 \<Rightarrow> contexts \<Rightarrow> bool" where
  "has_capability pid cap c =
     (if pid = 0 \<or> pid = 1 then True
      else case bt_get c pid of Some k \<Rightarrow> k AND cap = cap | None \<Rightarrow> False)"

abbreviation (input) MIN_CONFINABLE_PID :: u64 where "MIN_CONFINABLE_PID \<equiv> 8"

definition REVOKE_MASK :: u64 where
  "REVOKE_MASK = CAP_NET_BIND OR CAP_SYS_MODULE OR CAP_SETUID OR CAP_SYS_BOOT"

definition escalate_confinement ::
  "(u64 \<Rightarrow> u64 \<Rightarrow> 'w \<Rightarrow> 'w) \<Rightarrow> u64 \<Rightarrow> contexts \<times> 'w \<Rightarrow> contexts \<times> 'w" where
  "escalate_confinement invalidate pid st =
     (let (c, w) = st
      in if pid < MIN_CONFINABLE_PID then st
      else case bt_get c pid of
             None \<Rightarrow> st
           | Some k \<Rightarrow>
               (let revoked = k AND REVOKE_MASK
                in if revoked = 0 then st
                else (bt_insert pid (k AND NOT REVOKE_MASK) c,
                      if revoked AND CAP_NET_BIND \<noteq> 0 then invalidate pid CAP_NET_RAW w else w)))"

definition revoke_capability ::
  "(u64 \<Rightarrow> u64 \<Rightarrow> 'w \<Rightarrow> 'w) \<Rightarrow> u64 \<Rightarrow> u64 \<Rightarrow> contexts \<times> 'w \<Rightarrow> contexts \<times> 'w" where
  "revoke_capability invalidate pid cap st =
     (let (c, w) = st
      in (bt_modify pid (\<lambda>k. k AND NOT cap) c, invalidate pid cap w))"

definition security_init :: contexts where
  "security_init = init_task_context 0 None []"

subsection \<open>The filter as a set of system calls\<close>

definition permitted :: "SyscallFilter \<Rightarrow> u64 \<Rightarrow> bool" where
  "permitted f nr \<longleftrightarrow> bit (allowed f ! unat (nr div 64)) (unat (nr mod 64))"

lemma and_bit_nonzero: "n < 64 \<Longrightarrow> (x::u64) AND push_bit n 1 \<noteq> 0 \<longleftrightarrow> bit x n"
  by (auto simp: word_bits_eq bit_simps)

lemma mod_64_less: "unat ((nr::u64) mod 64) < 64"
  by (simp add: unat_mod)

lemma word_index:
  "(nr::u64) < 256 \<Longrightarrow> unat (nr div 64) < 4"
  by (simp add: unat_div word_less_nat_alt)

lemma same_index:
  "(nr::u64) div 64 = m div 64 \<and> nr mod 64 = m mod 64 \<longleftrightarrow> nr = m"
  by (metis word_mod_div_equality)

lemma filter_check_permitted:
  "nr < 256 \<Longrightarrow> filter_check nr f = (if permitted f nr then Allow else default_action f)"
  using and_bit_nonzero [OF mod_64_less [of nr]] by (simp add: filter_check_def permitted_def)

lemma permitted_update:
  assumes "length (allowed f) = 4" and "nr < 256" and "m < 256"
  shows "permitted (filter_allow nr f) m \<longleftrightarrow> m = nr \<or> permitted f m"
    and "permitted (filter_block nr f) m \<longleftrightarrow> m \<noteq> nr \<and> permitted f m"
proof -
  have i: "unat (nr div 64) < 4" "unat (m div 64) < 4" using assms(2,3) word_index by auto
  have "unat (nr div 64) = unat (m div 64) \<and> unat (nr mod 64) = unat (m mod 64) \<longleftrightarrow> m = nr"
    using same_index [of nr m] by (auto simp flip: word_unat_eq_iff)
  then show "permitted (filter_allow nr f) m \<longleftrightarrow> m = nr \<or> permitted f m"
    and "permitted (filter_block nr f) m \<longleftrightarrow> m \<noteq> nr \<and> permitted f m"
    using assms i mod_64_less [of m]
    by (auto simp: permitted_def filter_allow_def filter_block_def Let_def nth_list_update bit_simps
        possible_bit_def)
qed

lemma filter_updates [simp]:
  "length (allowed (filter_allow nr f)) = length (allowed f)"
  "default_action (filter_allow nr f) = default_action f"
  "length (allowed (filter_block nr f)) = length (allowed f)"
  "default_action (filter_block nr f) = default_action f"
  by (simp_all add: filter_allow_def filter_block_def Let_def)

lemma filter_allow_outside: "\<not> nr < 256 \<Longrightarrow> filter_allow nr f = f"
  by (simp add: filter_allow_def)

lemma permitted_deny_all: "m < 256 \<Longrightarrow> \<not> permitted deny_all m"
  using word_index [of m] by (simp add: permitted_def deny_all_def)

lemma permitted_whitelist:
  assumes "length (allowed f) = 4" and "m < 256"
  shows "permitted (fold filter_allow nrs f) m \<longleftrightarrow> m \<in> set nrs \<or> permitted f m"
  using assms
proof (induction nrs arbitrary: f)
  case (Cons nr nrs)
  then show ?case
    using permitted_update(1) [of f nr m] filter_allow_outside [of nr f]
    by (cases "nr < 256") auto
qed simp

lemma filter_fold_default:
  "default_action (fold filter_allow nrs f) = default_action f"
  "default_action (fold filter_block nrs f) = default_action f"
  by (induction nrs arbitrary: f) simp_all

text \<open>A whitelist lets through exactly the listed system calls: starting from the filter that
  denies everything, after allowing a list of numbers a call below 256 is allowed when it is in the
  list and blocked otherwise, and every call from 256 on is blocked.\<close>

theorem whitelist_exact:
  "filter_check nr (fold filter_allow nrs deny_all) = (if nr < 256 \<and> nr \<in> set nrs then Allow else Block)"
proof -
  have "length (allowed deny_all) = 4" "default_action deny_all = Block" by (simp_all add: deny_all_def)
  then show ?thesis
    using filter_check_permitted [of nr "fold filter_allow nrs deny_all"]
      permitted_whitelist [of deny_all nr nrs] permitted_deny_all [of nr]
    by (auto simp: filter_fold_default filter_check_def)
qed

text \<open>Blocking calls in the filter that allows everything has no effect: a call whose bit is
  cleared falls through to the default action, which is to allow it.\<close>

theorem blacklist_blocks_nothing:
  "filter_check nr (fold filter_block nrs allow_all) = Allow"
  by (simp add: filter_check_def filter_fold_default) (simp add: allow_all_def)

subsection \<open>Capabilities\<close>

definition caps_of :: "contexts \<Rightarrow> u64 \<Rightarrow> u64" where
  "caps_of c pid = (case bt_get c pid of Some k \<Rightarrow> k | None \<Rightarrow> 0)"



end
