(* ===== verification/Crash_Recovery.thy ===== *)
theory Crash_Recovery
  imports Causal
begin

section \<open>Crash records\<close>

text \<open>
  Model of the crash ring of \<^verbatim>\<open>kernel/src/causal_recovery.rs\<close>, with the spin lock that guards it: a
  lock that is held is never granted again, so taking it a second time does not return (\<open>None\<close>).
  A fingerprint is a list of 32-bit float patterns. Building one and comparing two are
  floating-point code: the fingerprint is an argument and \<open>sim\<close> gives the similarity as an
  order-preserving integer, with \<open>threshold\<close> for 0.70.
\<close>

abbreviation (input) LOCAL_RING_SIZE :: nat where "LOCAL_RING_SIZE \<equiv> 32"

record CrashRecord =
  fingerprint :: "u32 list"
  crash_exit :: int
  crash_ms :: u64

record CrashRing =
  crashes :: "CrashRecord list"
  crash_locked :: bool

definition crash_ring_new :: CrashRing where
  "crash_ring_new = \<lparr>crashes = [], crash_locked = False\<rparr>"

definition lock_ring :: "CrashRing \<Rightarrow> CrashRing option" where
  "lock_ring r = (if crash_locked r then None else Some (r\<lparr>crash_locked := True\<rparr>))"

definition unlock_ring :: "CrashRing \<Rightarrow> CrashRing" where
  "unlock_ring r = r\<lparr>crash_locked := False\<rparr>"

definition best_match ::
  "(u32 list \<Rightarrow> u32 list \<Rightarrow> int) \<Rightarrow> u32 list \<Rightarrow> u64 \<Rightarrow> int \<Rightarrow> CrashRecord list \<Rightarrow> int \<times> int" where
  "best_match sim fp now exit_code rs =
     fold (\<lambda>r (best_sim, best_exit).
             if best_sim < sim fp (fingerprint r) \<and> crash_ms r < now - 1000
             then (sim fp (fingerprint r), crash_exit r) else (best_sim, best_exit))
       rs (0, exit_code)"

definition check_recovery ::
  "(u32 list \<Rightarrow> u32 list \<Rightarrow> int) \<Rightarrow> int \<Rightarrow> u32 list \<Rightarrow> int \<Rightarrow> Pid \<Rightarrow> u64 \<Rightarrow>
   CrashRing \<times> CausalGraph \<Rightarrow> (CrashRing \<times> CausalGraph) option" where
  "check_recovery sim threshold fp exit_code pid now st =
     (let (r, g) = st
      in case lock_ring r of
           None \<Rightarrow> None
         | Some r1 \<Rightarrow>
             (let (best_sim, best_exit) = best_match sim fp now exit_code (crashes r1);
                  g1 = (if threshold \<le> best_sim \<and> best_exit \<noteq> exit_code
                        then causal_record \<lparr>waker = AI_KERNEL_PID, wakee = pid, edge_ms = now\<rparr> g else g)
              in Some (unlock_ring r1, g1)))"

text \<open>The guard taken at the start is still alive when \<^verbatim>\<open>check_recovery\<close> is called.\<close>

definition record_crash ::
  "(u32 list \<Rightarrow> u32 list \<Rightarrow> int) \<Rightarrow> int \<Rightarrow> u32 list \<Rightarrow> Pid \<Rightarrow> int \<Rightarrow> u64 \<Rightarrow>
   CrashRing \<times> CausalGraph \<Rightarrow> (CrashRing \<times> CausalGraph) option" where
  "record_crash sim threshold fp pid exit_code now st =
     (let (r, g) = st
      in case lock_ring r of
           None \<Rightarrow> None
         | Some r1 \<Rightarrow>
             (let kept = (if LOCAL_RING_SIZE \<le> length (crashes r1) then tl (crashes r1) else crashes r1);
                  r2 = r1\<lparr>crashes := kept @ [\<lparr>fingerprint = fp, crash_exit = exit_code, crash_ms = now\<rparr>]\<rparr>
              in map_option (\<lambda>(r3, g1). (unlock_ring r3, g1))
                   (check_recovery sim threshold fp exit_code pid now (r2, g))))"

lemma record_crash_hangs: "record_crash sim threshold fp pid code now (r, g) = None"
  by (simp add: record_crash_def check_recovery_def lock_ring_def Let_def)

end
