(* ===== verification/Scheduler.thy ===== *)
theory Scheduler
  imports Task Rlimit Job_Groups Security Crash_Recovery
begin

section \<open>The scheduler\<close>

text \<open>
  Model of \<^verbatim>\<open>kernel/src/scheduler/mod.rs\<close>. The state holds the task table, the run queue and what
  the scheduler's operations change elsewhere: memory and copy-on-write counts, resource limits,
  process groups, security contexts, the causal graph, the crash ring and the registers a switch
  loads. The kernel runs on one processor with interrupts off in these paths, so an operation is a
  function of the state; an operation that can hang returns an option.

  \<open>others\<close> is the state of the parts that are not modelled (AI models, statistics, descriptor
  tables, namespaces, sound). The scheduler calls them at fixed points; those calls are the fields
  of \<open>Hooks\<close>, arguments of the operations.
\<close>

record Cpu =
  cr3_reg :: u64
  rsp0 :: u64
  fs_reg :: u64
  fpu_owner :: Pid

record 'w Sched =
  s_vm :: Vm
  s_tasks :: "(Pid, Task) btree"
  s_next_pid :: u64
  s_uptime :: u64
  s_quantum_ms :: u64
  s_runq :: RunQueue
  s_rlimits :: rlimit_table
  s_jobs :: JobTables
  s_contexts :: contexts
  s_graph :: CausalGraph
  s_crash :: CrashRing
  s_cpu :: Cpu
  s_others :: 'w

record 'w Hooks =
  h_map_to :: mapper
  h_born :: "'w \<Rightarrow> 'w"
  h_overflow :: "Pid \<Rightarrow> 'w \<Rightarrow> 'w"
  h_classify :: "Pid \<Rightarrow> 'w \<Rightarrow> int option"
  h_audio :: "'w \<Rightarrow> 'w"
  h_deschedule :: "Pid \<Rightarrow> int \<Rightarrow> u32 \<Rightarrow> 'w \<Rightarrow> 'w"
  h_scaled_ticks :: "Pid \<Rightarrow> u64 \<Rightarrow> 'w \<Rightarrow> u32"
  h_prefetch :: "Pid \<Rightarrow> Vm \<times> 'w \<Rightarrow> Vm \<times> 'w"
  h_blended_nice :: "Pid \<Rightarrow> CausalGraph \<Rightarrow> 'w \<Rightarrow> int"
  h_record_wait :: "Pid \<Rightarrow> u64 \<Rightarrow> 'w \<Rightarrow> 'w"
  h_fingerprint :: "Pid \<Rightarrow> 'w \<Rightarrow> u32 list"
  h_similarity :: "u32 list \<Rightarrow> u32 list \<Rightarrow> int"
  h_threshold :: int
  h_cleanup :: "Pid \<Rightarrow> 'w \<Rightarrow> 'w"
  h_cleanup_direct :: "Pid \<Rightarrow> 'w \<Rightarrow> 'w"
  h_interaction :: "Pid \<Rightarrow> Pid \<Rightarrow> 'w \<Rightarrow> 'w"
  h_on_spawn :: "Pid \<Rightarrow> Pid \<Rightarrow> 'w \<Rightarrow> 'w"

definition IDLE_PID :: Pid where "IDLE_PID = 0"

definition get_task :: "Pid \<Rightarrow> 'w Sched \<Rightarrow> Task option" where
  "get_task pid s = bt_get (s_tasks s) pid"

text \<open>\<^verbatim>\<open>if let Some(t) = tasks.get_mut(&pid)\<close>\<close>

definition mod_task :: "Pid \<Rightarrow> (Task \<Rightarrow> Task) \<Rightarrow> 'w Sched \<Rightarrow> 'w Sched" where
  "mod_task pid f s = s\<lparr>s_tasks := bt_modify pid f (s_tasks s)\<rparr>"

definition task_field :: "Pid \<Rightarrow> (Task \<Rightarrow> 'a) \<Rightarrow> 'a \<Rightarrow> 'w Sched \<Rightarrow> 'a" where
  "task_field pid f d s = (case get_task pid s of Some t \<Rightarrow> f t | None \<Rightarrow> d)"

definition on_runq :: "(RunQueue \<Rightarrow> RunQueue) \<Rightarrow> 'w Sched \<Rightarrow> 'w Sched" where
  "on_runq f s = s\<lparr>s_runq := f (s_runq s)\<rparr>"

definition alloc_pid :: "'w Sched \<Rightarrow> Pid \<times> 'w Sched" where
  "alloc_pid s = (s_next_pid s, s\<lparr>s_next_pid := s_next_pid s + 1\<rparr>)"

definition set_current_idle :: "'w Sched \<Rightarrow> 'w Sched" where
  "set_current_idle s = on_runq (rq_set_current IDLE_PID) s"

definition register_idle_task :: "'w Sched \<Rightarrow> 'w Sched" where
  "register_idle_task s =
     set_current_idle (s\<lparr>s_tasks := bt_insert IDLE_PID (new_idle (cr3_reg (s_cpu s)) IDLE_PID) (s_tasks s)\<rparr>)"

subsection \<open>New threads\<close>

definition canary_value :: "Pid \<Rightarrow> u64" where
  "canary_value pid = 0xDEADC0DECAFE0000 XOR push_bit 3 pid"

definition spawn_kernel_thread :: "'w Hooks \<Rightarrow> string \<Rightarrow> u64 \<Rightarrow> 'w Sched \<Rightarrow> 'w Sched rust" where
  "spawn_kernel_thread h name entry s =
     (case alloc_frames 2 (frames (s_vm s)) of
        None \<Rightarrow> Inl ExpectFailed
      | Some (stack_phys, b) \<Rightarrow>
          (let vm1 = set_frames b (s_vm s);
               stack_top = phys_offset b + stack_phys + STACK_PAGES * PAGE_SIZE;
               (pid, s1) = alloc_pid s;
               (task, vm2) = new_kernel_thread (cr3_reg (s_cpu s)) pid name entry stack_top vm1;
               canary_addr = phys_offset b + stack_phys;
               vm3 = poke canary_addr (canary_value pid) vm2;
               task1 = task\<lparr>t_stack_canary := canary_value pid, t_stack_canary_addr := canary_addr,
                            t_runnable_at := s_uptime s\<rparr>
           in Inr (s1\<lparr>s_vm := vm3, s_tasks := bt_insert pid task1 (s_tasks s),
                      s_runq := rq_enqueue pid (s_runq s),
                      s_rlimits := rlimit_init_pid pid None (s_rlimits s),
                      s_others := h_born h (s_others s)\<rparr>)))"

subsection \<open>Sleeping, waking and signals\<close>

definition wake_pid :: "Pid \<Rightarrow> 'w Sched \<Rightarrow> 'w Sched" where
  "wake_pid pid s =
     (case get_task pid s of
        Some t \<Rightarrow>
          if t_state t = Sleeping
          then on_runq (rq_enqueue pid)
                 (mod_task pid (\<lambda>t. t\<lparr>t_state := Runnable, t_runnable_at := s_uptime s\<rparr>) s)
          else s
      | None \<Rightarrow> s)"

definition sleep_current :: "'w Sched \<Rightarrow> 'w Sched" where
  "sleep_current s =
     (case current_pid (s_runq s) of
        Some pid \<Rightarrow> on_runq (rq_remove pid) (mod_task pid (\<lambda>t. t\<lparr>t_state := Sleeping\<rparr>) s)
      | None \<Rightarrow> s)"

definition send_signal :: "Pid \<Rightarrow> u8 \<Rightarrow> 'w Sched \<Rightarrow> 'w Sched" where
  "send_signal pid signum s =
     (if 64 \<le> signum then s
      else let should_wake = task_field pid (\<lambda>t. t_state t = Sleeping) False s;
               s1 = mod_task pid (\<lambda>t. t\<lparr>t_pending_signals :=
                      t_pending_signals t OR push_bit (unat signum) 1\<rparr>) s
           in if should_wake then wake_pid pid s1 else s1)"

definition kill_task :: "Pid \<Rightarrow> int \<Rightarrow> 'w Sched \<Rightarrow> 'w Sched" where
  "kill_task pid code s = send_signal pid 9 s"

text \<open>\<^verbatim>\<open>trailing_zeros\<close> of a non-zero mask: its lowest set bit.\<close>

definition lowest_bit :: "u64 \<Rightarrow> nat" where
  "lowest_bit x = (case List.find (bit x) [0..<64] of Some n \<Rightarrow> n | None \<Rightarrow> 64)"

definition take_pending_signal :: "Pid \<Rightarrow> 'w Sched \<Rightarrow> (u8 \<times> u64) option \<times> 'w Sched" where
  "take_pending_signal pid s =
     (case get_task pid s of
        None \<Rightarrow> (None, s)
      | Some t \<Rightarrow>
          (let deliverable = t_pending_signals t AND NOT (t_signal_mask t)
           in if deliverable = 0 then (None, s)
           else let signum = lowest_bit deliverable
           in (Some (of_nat signum, t_signal_handlers t ! signum),
               mod_task pid (\<lambda>t. t\<lparr>t_pending_signals :=
                 t_pending_signals t AND NOT (push_bit signum 1)\<rparr>) s)))"

definition get_pending_signals :: "Pid \<Rightarrow> 'w Sched \<Rightarrow> u64" where
  "get_pending_signals pid s = task_field pid t_pending_signals 0 s"

definition consume_masked_signal :: "Pid \<Rightarrow> u64 \<Rightarrow> 'w Sched \<Rightarrow> u8 option \<times> 'w Sched" where
  "consume_masked_signal pid msk s =
     (case get_task pid s of
        None \<Rightarrow> (None, s)
      | Some t \<Rightarrow>
          (let matched = t_pending_signals t AND msk
           in if matched = 0 then (None, s)
           else let signum = lowest_bit matched
           in (Some (of_nat signum),
               mod_task pid (\<lambda>t. t\<lparr>t_pending_signals :=
                 t_pending_signals t AND NOT (push_bit signum 1)\<rparr>) s)))"

definition set_signal_handler :: "Pid \<Rightarrow> nat \<Rightarrow> u64 \<Rightarrow> 'w Sched \<Rightarrow> 'w Sched" where
  "set_signal_handler pid signum handler s =
     mod_task pid (\<lambda>t. if signum < 64
       then t\<lparr>t_signal_handlers := (t_signal_handlers t)[signum := handler]\<rparr> else t) s"

text \<open>The index of \<^verbatim>\<open>get_signal_handler\<close> is not checked: it panics from 64 on.\<close>

definition get_signal_handler :: "Pid \<Rightarrow> nat \<Rightarrow> 'w Sched \<Rightarrow> u64 rust" where
  "get_signal_handler pid signum s =
     (case get_task pid s of
        None \<Rightarrow> Inr 0
      | Some t \<Rightarrow> if signum < length (t_signal_handlers t) then Inr (t_signal_handlers t ! signum)
                 else Inl IndexOutOfBounds)"

definition get_signal_mask :: "Pid \<Rightarrow> 'w Sched \<Rightarrow> u64" where
  "get_signal_mask pid s = task_field pid t_signal_mask 0 s"

definition set_signal_mask :: "Pid \<Rightarrow> u64 \<Rightarrow> 'w Sched \<Rightarrow> 'w Sched" where
  "set_signal_mask pid msk s = mod_task pid (\<lambda>t. t\<lparr>t_signal_mask := msk\<rparr>) s"

definition mask_signals :: "Pid \<Rightarrow> u64 \<Rightarrow> 'w Sched \<Rightarrow> 'w Sched" where
  "mask_signals pid msk s = mod_task pid (\<lambda>t. t\<lparr>t_signal_mask := t_signal_mask t OR msk\<rparr>) s"

definition unmask_signals :: "Pid \<Rightarrow> u64 \<Rightarrow> 'w Sched \<Rightarrow> 'w Sched" where
  "unmask_signals pid msk s = mod_task pid (\<lambda>t. t\<lparr>t_signal_mask := t_signal_mask t AND NOT msk\<rparr>) s"

subsection \<open>The timer interrupt\<close>

definition canary_mismatch :: "Pid \<Rightarrow> 'w Sched \<Rightarrow> bool" where
  "canary_mismatch pid s =
     task_field pid (\<lambda>t. t_stack_canary_addr t \<noteq> 0 \<and>
       peek (s_vm s) (t_stack_canary_addr t) \<noteq> t_stack_canary t) False s"

definition check_canary :: "'w Hooks \<Rightarrow> Pid \<Rightarrow> 'w Sched \<Rightarrow> 'w Sched" where
  "check_canary h pid s =
     (if canary_mismatch pid s
      then kill_task pid 6 (s\<lparr>s_others := h_overflow h pid (s_others s)\<rparr>) else s)"

definition save_outgoing :: "Pid \<Rightarrow> u64 \<Rightarrow> 'w Sched \<Rightarrow> 'w Sched" where
  "save_outgoing pid old_rsp s =
     mod_task pid (\<lambda>t. t\<lparr>t_saved_kernel_rsp := old_rsp,
       t_state := (if t_state t = Running then Runnable else t_state t)\<rparr>) s"

definition set_nice :: "int \<Rightarrow> Task \<Rightarrow> Task" where
  "set_nice n t = t\<lparr>t_ai_profile := (t_ai_profile t)\<lparr>ai_nice_adjust := n\<rparr>\<rparr>"

definition ai_feedback :: "'w Hooks \<Rightarrow> Pid \<Rightarrow> 'w Sched \<Rightarrow> 'w Sched" where
  "ai_feedback h pid s =
     (let s1 = (case h_classify h pid (s_others s) of
                  Some nice \<Rightarrow> mod_task pid (\<lambda>t. if t_intent t = 0 then set_nice nice t else t) s
                | None \<Rightarrow> s);
          (actual_nice, actual_burst) =
            task_field pid (\<lambda>t. (ai_nice_adjust (t_ai_profile t), ucast (ticks_run (t_ai_profile t)))) (0, 1) s1;
          s2 = s1\<lparr>s_others := h_deschedule h pid actual_nice actual_burst (s_others s1)\<rparr>
      in on_runq (fold rq_move_to_front (rev (predict_successors pid (s_graph s2)))) s2)"

definition audio_tick :: "'w Hooks \<Rightarrow> 'w Sched \<Rightarrow> 'w Sched" where
  "audio_tick h s = s\<lparr>s_others := h_audio h (s_others s)\<rparr>"

definition next_burst_ticks :: "'w Hooks \<Rightarrow> 'w Sched \<Rightarrow> u32 option" where
  "next_burst_ticks h s =
     (case rq_peek_front (s_runq s) of
        None \<Rightarrow> None
      | Some pid \<Rightarrow>
          (case get_task pid s of
             None \<Rightarrow> None
           | Some t \<Rightarrow>
               (let us = burst_estimate_us (t_ai_profile t)
                in if us = 0 then None else Some (max (h_scaled_ticks h pid (us div 10000) (s_others s)) 1))))"

definition prewake_one :: "Pid \<Rightarrow> 'w Sched \<Rightarrow> 'w Sched" where
  "prewake_one succ_pid s =
     (if task_field succ_pid (\<lambda>t. t_state t = Sleeping) False s
      then on_runq (rq_enqueue succ_pid) (mod_task succ_pid (\<lambda>t. t\<lparr>t_state := Runnable\<rparr>) s)
      else s)"

definition prewake :: "Pid \<Rightarrow> 'w Sched \<Rightarrow> 'w Sched" where
  "prewake next_pid s = fold prewake_one (predict_successors next_pid (s_graph s)) s"

text \<open>A probability above 0.60 is a count of at least seven out of ten.\<close>

definition causal_prefetch :: "'w Hooks \<Rightarrow> Pid \<Rightarrow> 'w Sched \<Rightarrow> 'w Sched" where
  "causal_prefetch h next_pid s =
     (case predict_next_wake next_pid (s_graph s) of
        Some (pp, n) \<Rightarrow>
          if 7 \<le> n
          then let (vm, w) = h_prefetch h pp (s_vm s, s_others s) in s\<lparr>s_vm := vm, s_others := w\<rparr>
          else s
      | None \<Rightarrow> s)"

definition saturating_add :: "u64 \<Rightarrow> u64 \<Rightarrow> u64" where
  "saturating_add a b = (if a + b < a then - 1 else a + b)"

definition clamp_nice :: "int \<Rightarrow> int" where
  "clamp_nice n = max (-20) (min 20 n)"

definition account_switch :: "'w Hooks \<Rightarrow> Pid \<Rightarrow> u64 \<Rightarrow> 'w Sched \<Rightarrow> Task \<Rightarrow> Task" where
  "account_switch h next_pid wait_us s t =
     (let t1 = t\<lparr>t_sched_latency_total_us := saturating_add (t_sched_latency_total_us t) wait_us,
                 t_sched_count := t_sched_count t + 1,
                 t_ai_profile := (t_ai_profile t)\<lparr>ticks_run := ticks_run (t_ai_profile t) + 1\<rparr>,
                 t_state := Running\<rparr>
      in if t_intent t1 = 0 then set_nice (clamp_nice (h_blended_nice h next_pid (s_graph s) (s_others s))) t1
         else t1)"

definition switch_to :: "'w Hooks \<Rightarrow> u64 \<Rightarrow> Pid \<Rightarrow> u64 \<Rightarrow> 'w Sched \<Rightarrow> u64 \<times> 'w Sched" where
  "switch_to h uptime_ms next_pid old_rsp s =
     (case get_task next_pid s of
        None \<Rightarrow> (old_rsp, s)
      | Some t \<Rightarrow>
          (let wait_us = saturating_sub uptime_ms (t_runnable_at t) * 1000;
               cpu = s_cpu s;
               cpu1 = (if t_kernel_stack_top t \<noteq> 0 then cpu\<lparr>rsp0 := t_kernel_stack_top t\<rparr> else cpu);
               cpu2 = cpu1\<lparr>fpu_owner := next_pid, cr3_reg := t_cr3 t\<rparr>;
               cpu3 = (if t_fs_base t \<noteq> 0 then cpu2\<lparr>fs_reg := t_fs_base t\<rparr> else cpu2)
           in (t_saved_kernel_rsp t,
               (mod_task next_pid (account_switch h next_pid wait_us s) s)
                 \<lparr>s_others := h_record_wait h next_pid wait_us (s_others s), s_cpu := cpu3\<rparr>)))"

definition schedule_from_interrupt :: "'w Hooks \<Rightarrow> u64 \<Rightarrow> 'w Sched \<Rightarrow> u64 \<times> 'w Sched" where
  "schedule_from_interrupt h old_rsp s =
     (let uptime_ms = s_uptime s;
          s1 = s\<lparr>s_uptime := s_uptime s + 10\<rparr>
      in case current_pid (s_runq s1) of
           None \<Rightarrow> (old_rsp, audio_tick h s1)
         | Some pid \<Rightarrow>
             (let s2 = check_canary h pid s1;
                  s3 = save_outgoing pid old_rsp s2;
                  s4 = audio_tick h (ai_feedback h pid s3);
                  (next_pid, rq) = rq_tick (next_burst_ticks h s4) (s_runq s4);
                  s5 = s4\<lparr>s_runq := rq\<rparr>
              in case next_pid of
                   None \<Rightarrow> (old_rsp, s5)
                 | Some nxt \<Rightarrow>
                     switch_to h uptime_ms nxt old_rsp (causal_prefetch h nxt (prewake nxt s5))))"

subsection \<open>Exit and reaping\<close>

definition record_wakeup :: "'w Hooks \<Rightarrow> Pid \<Rightarrow> Pid \<Rightarrow> 'w Sched \<Rightarrow> 'w Sched" where
  "record_wakeup h waker_pid wakee_pid s =
     (mod_task wakee_pid (\<lambda>t. t\<lparr>t_woke_by := Some waker_pid\<rparr>) s)
       \<lparr>s_graph := causal_record \<lparr>waker = waker_pid, wakee = wakee_pid, edge_ms = s_uptime s\<rparr> (s_graph s),
        s_others := h_interaction h waker_pid wakee_pid (s_others s)\<rparr>"

definition make_zombie :: "Pid \<Rightarrow> int \<Rightarrow> 'w Sched \<Rightarrow> 'w Sched" where
  "make_zombie pid code s =
     on_runq (rq_remove pid) (mod_task pid (\<lambda>t. t\<lparr>t_state := Zombie, t_exit_code := Some code\<rparr>) s)"

text \<open>Releasing the shared frames may panic or hang in the frame allocator: \<open>None\<close>.\<close>

definition release_memory :: "u64 \<Rightarrow> 'w Sched \<Rightarrow> 'w Sched option" where
  "release_memory cr3 s =
     (if cr3 = 0 then Some s
      else case release_user_cow_refs cr3 (s_vm s) of
             (True, vm) \<Rightarrow> Some (s\<lparr>s_vm := vm\<rparr>)
           | (False, _) \<Rightarrow> None)"

definition cleanup_tables :: "(Pid \<Rightarrow> 'w \<Rightarrow> 'w) \<Rightarrow> Pid \<Rightarrow> 'w Sched \<Rightarrow> 'w Sched" where
  "cleanup_tables cleanup pid s =
     s\<lparr>s_rlimits := rlimit_remove_pid pid (s_rlimits s), s_jobs := job_cleanup_pid pid (s_jobs s),
       s_contexts := cleanup_task_context pid (s_contexts s), s_others := cleanup pid (s_others s)\<rparr>"

text \<open>Both exits end in a halt loop; the result is the state in which the processor halts.\<close>

definition exit_current_direct :: "'w Hooks \<Rightarrow> Pid \<Rightarrow> int \<Rightarrow> 'w Sched \<Rightarrow> 'w Sched option" where
  "exit_current_direct h pid code s =
     (let parent_pid = task_field pid t_parent_pid 0 s;
          task_cr3 = task_field pid t_cr3 0 s
      in case release_memory task_cr3 (make_zombie pid code s) of
           None \<Rightarrow> None
         | Some s1 \<Rightarrow>
             (case (if code \<noteq> 0
                    then map_option (\<lambda>(r, g). s1\<lparr>s_crash := r, s_graph := g\<rparr>)
                           (record_crash (h_similarity h) (h_threshold h) (h_fingerprint h pid (s_others s1))
                              pid code (s_uptime s1) (s_crash s1, s_graph s1))
                    else Some s1) of
                None \<Rightarrow> None
              | Some s2 \<Rightarrow>
                  (let s3 = cleanup_tables (h_cleanup_direct h) pid s2
                   in Some (if parent_pid \<noteq> 0 then send_signal parent_pid 17 (wake_pid parent_pid s3) else s3))))"

definition exit_current :: "'w Hooks \<Rightarrow> int \<Rightarrow> 'w Sched \<Rightarrow> 'w Sched option" where
  "exit_current h code s =
     (let pid = (case current_pid (s_runq s) of Some p \<Rightarrow> p | None \<Rightarrow> 0);
          parent_pid = (if pid \<noteq> 0 then task_field pid t_parent_pid 0 s else 0);
          s1 = (if pid \<noteq> 0 then make_zombie pid code s else s);
          s2 = (if pid \<noteq> 0 then release_memory (task_field pid t_cr3 0 s1) s1 else Some s1)
      in case s2 of
           None \<Rightarrow> None
         | Some s3 \<Rightarrow>
             (let s4 = cleanup_tables (h_cleanup h) pid s3
              in Some (if parent_pid \<noteq> 0
                       then send_signal parent_pid 17 (wake_pid parent_pid
                              (if pid \<noteq> 0 then record_wakeup h pid parent_pid s4 else s4))
                       else s4)))"

definition reap_zombie_child :: "Pid \<Rightarrow> 'w Sched \<Rightarrow> (Pid \<times> int) option \<times> 'w Sched" where
  "reap_zombie_child parent_pid s =
     (case List.find (\<lambda>(_, t). t_parent_pid t = parent_pid \<and> t_state t = Zombie) (s_tasks s) of
        None \<Rightarrow> (None, s)
      | Some (cpid, t) \<Rightarrow>
          (Some (cpid, case t_exit_code t of Some c \<Rightarrow> c | None \<Rightarrow> 0),
           s\<lparr>s_tasks := bt_remove cpid (s_tasks s)\<rparr>))"

subsection \<open>Fork and threads\<close>

definition fork_task :: "'w Hooks \<Rightarrow> Pid \<Rightarrow> 'w Sched \<Rightarrow> Pid option \<times> 'w Sched" where
  "fork_task h parent_pid s =
     (let (child_pid, s1) = alloc_pid s
      in case get_task parent_pid s1 of
           None \<Rightarrow> (None, s1)
         | Some parent \<Rightarrow>
             (let (new_cr3, vm1) = alloc_user_cr3 (h_map_to h) (cr3_reg (s_cpu s1)) (s_vm s1);
                  child_cr3 = (case new_cr3 of Some c \<Rightarrow> c | None \<Rightarrow> cr3_reg (s_cpu s1) AND NOT 0xFFF);
                  (_, vm2, _) = copy_user_address_space (t_cr3 parent) child_cr3 vm1;
                  s2 = s1\<lparr>s_vm := vm2\<rparr>
              in case clone_shallow child_pid parent vm2 of
                   None \<Rightarrow> (None, s2)
                 | Some (child, vm3) \<Rightarrow>
                     (Some child_pid,
                      s2\<lparr>s_vm := vm3,
                         s_tasks := bt_insert child_pid (child\<lparr>t_cr3 := child_cr3\<rparr>) (s_tasks s2),
                         s_runq := rq_enqueue child_pid (s_runq s2),
                         s_contexts := init_task_context child_pid (Some parent_pid) (s_contexts s2)\<rparr>)))"

definition spawn_user_thread ::
  "'w Hooks \<Rightarrow> Pid \<Rightarrow> u64 \<Rightarrow> u64 \<Rightarrow> bool \<Rightarrow> 'w Sched \<Rightarrow> Pid option \<times> 'w Sched" where
  "spawn_user_thread h parent_pid new_stack tls settls s =
     (let (child_pid, s1) = alloc_pid s
      in case get_task parent_pid s1 of
           None \<Rightarrow> (None, s1)
         | Some parent \<Rightarrow>
             (case clone_shallow child_pid parent (s_vm s1) of
                None \<Rightarrow> (None, s1)
              | Some (child, vm1) \<Rightarrow>
                  (let vm2 = poke (t_saved_kernel_rsp child + 144) new_stack vm1;
                       child1 = child\<lparr>t_fs_base := (if settls then tls else t_fs_base child),
                                      t_parent_pid := parent_pid\<rparr>
                   in (Some child_pid,
                       s1\<lparr>s_vm := vm2, s_tasks := bt_insert child_pid child1 (s_tasks s1),
                          s_runq := rq_enqueue child_pid (s_runq s1),
                          s_rlimits := rlimit_init_pid child_pid (Some parent_pid) (s_rlimits s1),
                          s_others := h_on_spawn h child_pid parent_pid (s_others s1)\<rparr>))))"

subsection \<open>Scheduling parameters and accessors\<close>

definition set_quantum_ms :: "u64 \<Rightarrow> 'w Sched \<Rightarrow> 'w Sched" where
  "set_quantum_ms ms s = s\<lparr>s_quantum_ms := ms\<rparr>"

abbreviation (input) INTENT_DEFAULT :: u8 where "INTENT_DEFAULT \<equiv> 0"

abbreviation (input) INTENT_LATENCY :: u8 where "INTENT_LATENCY \<equiv> 1"

abbreviation (input) INTENT_BATCH :: u8 where "INTENT_BATCH \<equiv> 2"

abbreviation (input) INTENT_INTERACTIVE :: u8 where "INTENT_INTERACTIVE \<equiv> 3"

abbreviation (input) INTENT_CPU_BOUND :: u8 where "INTENT_CPU_BOUND \<equiv> 7"

definition intent_priority :: "u8 \<Rightarrow> int \<Rightarrow> int" where
  "intent_priority intent old =
     (if intent = INTENT_LATENCY then -15 else if intent = INTENT_INTERACTIVE then -10
      else if intent = INTENT_DEFAULT then 0 else if intent = INTENT_BATCH then 10
      else if intent = INTENT_CPU_BOUND then 5 else old)"

definition set_intent :: "Pid \<Rightarrow> u8 \<Rightarrow> u64 \<Rightarrow> 'w Sched \<Rightarrow> 'w Sched" where
  "set_intent pid intent hint s =
     mod_task pid (\<lambda>t. t\<lparr>t_intent := intent, t_intent_hint := hint,
       t_priority := intent_priority intent (t_priority t)\<rparr>) s"

definition adjust_priority :: "Pid \<Rightarrow> int \<Rightarrow> 'w Sched \<Rightarrow> 'w Sched" where
  "adjust_priority pid delta s =
     mod_task pid (\<lambda>t. t\<lparr>t_priority := max (-20) (min 20 (t_priority t + delta))\<rparr>) s"

definition set_nice_override :: "Pid \<Rightarrow> int \<Rightarrow> 'w Sched \<Rightarrow> 'w Sched" where
  "set_nice_override pid nice s = mod_task pid (set_nice nice) s"

definition set_woke_by :: "Pid \<Rightarrow> Pid \<Rightarrow> 'w Sched \<Rightarrow> 'w Sched" where
  "set_woke_by wakee_pid waker_pid s = mod_task wakee_pid (\<lambda>t. t\<lparr>t_woke_by := Some waker_pid\<rparr>) s"

definition set_user_brk :: "Pid \<Rightarrow> u64 \<Rightarrow> 'w Sched \<Rightarrow> 'w Sched" where
  "set_user_brk pid brk s = mod_task pid (\<lambda>t. t\<lparr>t_user_brk := brk\<rparr>) s"

definition set_fs_base :: "Pid \<Rightarrow> u64 \<Rightarrow> 'w Sched \<Rightarrow> 'w Sched" where
  "set_fs_base pid base s = mod_task pid (\<lambda>t. t\<lparr>t_fs_base := base\<rparr>) s"

definition set_robust_list :: "Pid \<Rightarrow> u64 \<Rightarrow> nat \<Rightarrow> 'w Sched \<Rightarrow> 'w Sched" where
  "set_robust_list pid head len s =
     mod_task pid (\<lambda>t. t\<lparr>t_robust_list_head := head, t_robust_list_len := len\<rparr>) s"

definition set_task_cr3 :: "Pid \<Rightarrow> u64 \<Rightarrow> 'w Sched \<Rightarrow> 'w Sched" where
  "set_task_cr3 pid cr3 s = mod_task pid (\<lambda>t. t\<lparr>t_cr3 := cr3\<rparr>) s"

text \<open>\<^verbatim>\<open>set_euid\<close> gives up when the table is locked; on one processor with the table free it is not.\<close>

definition set_euid :: "Pid \<Rightarrow> u32 \<Rightarrow> 'w Sched \<Rightarrow> 'w Sched" where
  "set_euid pid euid s = mod_task pid (\<lambda>t. t\<lparr>t_euid := euid\<rparr>) s"

definition sched_current_pid :: "'w Sched \<Rightarrow> Pid" where
  "sched_current_pid s = (case current_pid (s_runq s) of Some p \<Rightarrow> p | None \<Rightarrow> 1)"

definition task_count :: "'w Sched \<Rightarrow> nat" where
  "task_count s = length (s_tasks s)"

definition list_pids :: "'w Sched \<Rightarrow> Pid list" where
  "list_pids s = map fst (filter (\<lambda>(_, t). t_state t \<noteq> Zombie) (s_tasks s))"

definition all_pids :: "'w Sched \<Rightarrow> Pid list" where
  "all_pids s = map fst (s_tasks s)"

definition pid_exists :: "Pid \<Rightarrow> 'w Sched \<Rightarrow> bool" where
  "pid_exists pid s \<longleftrightarrow> get_task pid s \<noteq> None"

definition state_char :: "TaskState \<Rightarrow> char" where
  "state_char st = (case st of Runnable \<Rightarrow> CHR ''R'' | Sleeping \<Rightarrow> CHR ''S'' | Zombie \<Rightarrow> CHR ''Z'' | _ \<Rightarrow> CHR ''S'')"

definition task_info :: "Pid \<Rightarrow> 'w Sched \<Rightarrow> (string \<times> char \<times> Pid \<times> nat \<times> nat) option" where
  "task_info pid s =
     map_option (\<lambda>t. (t_name t, state_char (t_state t), t_parent_pid t, 1, 0)) (get_task pid s)"

definition get_credentials :: "Pid \<Rightarrow> 'w Sched \<Rightarrow> u32 \<times> u32 \<times> u32 \<times> u32" where
  "get_credentials pid s = task_field pid (\<lambda>t. (t_uid t, t_gid t, t_euid t, t_egid t)) (0, 0, 0, 0) s"

definition cpu_usage_pct :: "'w Sched \<Rightarrow> nat" where
  "cpu_usage_pct s =
     min (length (filter (\<lambda>(_, t). t_state t = Running \<or> t_state t = Runnable) (s_tasks s)) * 25) 100"

definition user_process_count :: "'w Sched \<Rightarrow> nat" where
  "user_process_count s =
     length (filter (\<lambda>(_, t). \<not> (case t_name t of c # _ \<Rightarrow> c = CHR ''['' | [] \<Rightarrow> False)) (s_tasks s))"

definition get_user_brk :: "Pid \<Rightarrow> 'w Sched \<Rightarrow> u64" where
  "get_user_brk pid s = task_field pid t_user_brk 0 s"

definition get_fs_base :: "Pid \<Rightarrow> 'w Sched \<Rightarrow> u64" where
  "get_fs_base pid s = task_field pid t_fs_base 0 s"

definition get_parent_pid :: "Pid \<Rightarrow> 'w Sched \<Rightarrow> Pid" where
  "get_parent_pid pid s = task_field pid t_parent_pid 0 s"

definition task_name :: "Pid \<Rightarrow> 'w Sched \<Rightarrow> string option" where
  "task_name pid s = map_option t_name (get_task pid s)"

definition task_mem_bytes :: "Pid \<Rightarrow> 'w Sched \<Rightarrow> u64" where
  "task_mem_bytes pid s = task_field pid t_user_brk 0 s"

definition get_task_cr3 :: "Pid \<Rightarrow> 'w Sched \<Rightarrow> u64 option" where
  "get_task_cr3 pid s = map_option t_cr3 (get_task pid s)"

definition get_saved_rsp :: "Pid \<Rightarrow> 'w Sched \<Rightarrow> u64 option" where
  "get_saved_rsp pid s = map_option t_saved_kernel_rsp (get_task pid s)"

definition get_euid :: "Pid \<Rightarrow> 'w Sched \<Rightarrow> u32 option" where
  "get_euid pid s = map_option t_euid (get_task pid s)"

text \<open>The rows of \<^verbatim>\<open>format_sched_latency\<close>, highest average wait first: process, average, total, count, name.\<close>

definition sched_latency_rows :: "'w Sched \<Rightarrow> (Pid \<times> u64 \<times> u64 \<times> u64 \<times> string) list" where
  "sched_latency_rows s =
     sort_key (\<lambda>(_, avg, _). - int (unat avg))
       (map (\<lambda>(pid, t). (pid, t_sched_latency_total_us t div t_sched_count t,
               t_sched_latency_total_us t, t_sched_count t, t_name t))
          (filter (\<lambda>(_, t). 0 < t_sched_count t) (s_tasks s)))"

end
