(* ===== verification/Scheduler_Inv.thy ===== *)
theory Scheduler_Inv
  imports Scheduler
begin

section \<open>The task table and the run queue agree\<close>

text \<open>
  The scheduler's main invariant: a process is in the run queue (waiting or running) exactly when
  the task table has it as runnable or running, and never twice. The operations are the rules of a
  step relation; the invariant holds in every state reachable from boot.
\<close>

definition runnable :: "Task \<Rightarrow> bool" where
  "runnable t \<longleftrightarrow> t_state t = Runnable \<or> t_state t = Running"

definition task_ok :: "Task \<Rightarrow> bool" where
  "task_ok t \<longleftrightarrow> -20 \<le> t_priority t \<and> t_priority t \<le> 20 \<and> length (t_signal_handlers t) = 64"

definition sched_inv :: "'w Sched \<Rightarrow> bool" where
  "sched_inv s \<longleftrightarrow> bt_wf (s_tasks s) \<and> rq_inv (s_runq s) \<and>
     (\<forall>pid. pid \<in> set (rq_order (s_runq s)) \<longleftrightarrow> (\<exists>t. get_task pid s = Some t \<and> runnable t)) \<and>
     (\<forall>pid t. get_task pid s = Some t \<longrightarrow> t_pid t = pid \<and> pid < s_next_pid s \<and> task_ok t) \<and>
     0 < s_next_pid s"

subsection \<open>How the primitives change the table\<close>

lemma get_task_mod [simp]:
  "get_task p (mod_task q f s) = (if p = q then map_option f (get_task q s) else get_task p s)"
  by (simp add: get_task_def mod_task_def)

lemma mod_task_parts [simp]:
  "s_runq (mod_task q f s) = s_runq s" "s_next_pid (mod_task q f s) = s_next_pid s"
  "s_graph (mod_task q f s) = s_graph s" "s_uptime (mod_task q f s) = s_uptime s"
  "s_others (mod_task q f s) = s_others s" "s_vm (mod_task q f s) = s_vm s"
  "s_cpu (mod_task q f s) = s_cpu s" "s_rlimits (mod_task q f s) = s_rlimits s"
  by (simp_all add: mod_task_def)

lemma on_runq_parts [simp]:
  "s_runq (on_runq f s) = f (s_runq s)" "s_next_pid (on_runq f s) = s_next_pid s"
  "s_graph (on_runq f s) = s_graph s" "s_uptime (on_runq f s) = s_uptime s"
  "s_tasks (on_runq f s) = s_tasks s" "s_others (on_runq f s) = s_others s"
  "s_vm (on_runq f s) = s_vm s" "s_cpu (on_runq f s) = s_cpu s"
  "get_task p (on_runq f s) = get_task p s" "s_rlimits (on_runq f s) = s_rlimits s"
  by (simp_all add: on_runq_def get_task_def)

lemma audio_tick_parts [simp]:
  "s_runq (audio_tick h s) = s_runq s" "s_next_pid (audio_tick h s) = s_next_pid s"
  "s_graph (audio_tick h s) = s_graph s" "s_uptime (audio_tick h s) = s_uptime s"
  "s_tasks (audio_tick h s) = s_tasks s" "s_vm (audio_tick h s) = s_vm s"
  "s_cpu (audio_tick h s) = s_cpu s" "get_task p (audio_tick h s) = get_task p s"
  by (simp_all add: audio_tick_def get_task_def)

text \<open>The invariant reads only the table, the queue and the next process id.\<close>

lemma sched_inv_cong:
  "s_tasks s' = s_tasks s \<Longrightarrow> s_runq s' = s_runq s \<Longrightarrow> s_next_pid s' = s_next_pid s \<Longrightarrow>
     sched_inv s' = sched_inv s"
  by (simp add: sched_inv_def get_task_def)

lemma bt_wf_mod [simp]: "bt_wf (s_tasks (mod_task q f s)) = bt_wf (s_tasks s)"
  by (simp add: mod_task_def bt_wf_def)

definition harmless :: "(Task \<Rightarrow> Task) \<Rightarrow> bool" where
  "harmless f \<longleftrightarrow> (\<forall>t. t_pid (f t) = t_pid t \<and> (runnable (f t) \<longleftrightarrow> runnable t) \<and> (task_ok t \<longrightarrow> task_ok (f t)))"

lemma sched_inv_mod [kinv]:
  assumes "sched_inv s" and "harmless f"
  shows "sched_inv (mod_task pid f s)"
  using assms unfolding sched_inv_def harmless_def by (auto split: if_splits)

text \<open>Changing the state of one task together with its place in the queue.\<close>

lemma sched_inv_set_state:
  assumes "sched_inv s" and "get_task pid s = Some t"
    and "t_pid (f t) = t_pid t" and "task_ok (f t)"
    and "rq_inv (g (s_runq s))"
    and "set (rq_order (g (s_runq s))) =
           (if runnable (f t) then insert pid (set (rq_order (s_runq s)))
            else set (rq_order (s_runq s)) - {pid})"
  shows "sched_inv (on_runq g (mod_task pid f s))"
  using assms unfolding sched_inv_def by (auto split: if_splits)

lemma sched_inv_queue [kinv]:
  assumes "sched_inv s" and "rq_inv (g (s_runq s))"
    and "set (rq_order (g (s_runq s))) = set (rq_order (s_runq s))"
  shows "sched_inv (on_runq g s)"
  using assms unfolding sched_inv_def by simp

lemma sched_inv_task:
  "sched_inv s \<Longrightarrow> get_task pid s = Some t \<Longrightarrow> t_pid t = pid \<and> pid < s_next_pid s \<and> task_ok t"
  by (simp add: sched_inv_def)

lemma sched_inv_queued:
  "sched_inv s \<Longrightarrow> pid \<in> set (rq_order (s_runq s)) \<longleftrightarrow> (\<exists>t. get_task pid s = Some t \<and> runnable t)"
  by (simp add: sched_inv_def)

subsection \<open>Waking, sleeping, signals\<close>

lemma sched_inv_wake_one:
  assumes "sched_inv s" and "get_task pid s = Some t" and "t_state t = Sleeping"
    and "t_state (f t) = Runnable" and "t_pid (f t) = t_pid t" and "task_ok (f t)"
  shows "sched_inv (on_runq (rq_enqueue pid) (mod_task pid f s))"
proof (rule sched_inv_set_state [where f = f, OF assms(1,2,5,6)])
  have "pid \<notin> set (rq_order (s_runq s))"
    using assms sched_inv_queued [OF assms(1)] by (auto simp: runnable_def)
  then show "rq_inv (rq_enqueue pid (s_runq s))"
    using assms(1) by (intro rq_inv_enqueue) (simp_all add: sched_inv_def)
  show "set (rq_order (rq_enqueue pid (s_runq s))) =
      (if runnable (f t) then insert pid (set (rq_order (s_runq s)))
       else set (rq_order (s_runq s)) - {pid})"
    using assms(4) by (simp add: runnable_def)
qed

lemma sched_inv_wake [kinv]: "sched_inv s \<Longrightarrow> sched_inv (wake_pid pid s)"
  unfolding wake_pid_def
  by (auto split: option.splits intro!: sched_inv_wake_one dest: sched_inv_task simp: task_ok_def)

lemma bt_modify_absent: "bt_get m k = None \<Longrightarrow> bt_modify k f m = m"
  by (induction m) (auto simp: bt_modify_def split: if_splits)

lemma sched_inv_drop_one:
  assumes "sched_inv s" and "\<forall>t. t_pid (f t) = t_pid t \<and> \<not> runnable (f t) \<and> (task_ok t \<longrightarrow> task_ok (f t))"
  shows "sched_inv (on_runq (rq_remove pid) (mod_task pid f s))"
proof (cases "get_task pid s")
  case None
  then have same: "mod_task pid f s = s" by (simp add: mod_task_def get_task_def bt_modify_absent)
  have "pid \<notin> set (rq_order (s_runq s))" using None sched_inv_queued [OF assms(1)] by simp
  then show ?thesis unfolding same using assms(1)
    by (intro sched_inv_queue [OF assms(1)] rq_inv_remove) (simp_all add: sched_inv_def)
next
  case (Some t)
  show ?thesis
    by (rule sched_inv_set_state [OF assms(1) Some])
      (use assms Some sched_inv_task [OF assms(1) Some] in
        \<open>auto simp: sched_inv_def intro: rq_inv_remove\<close>)
qed

lemma sched_inv_sleep [kinv]: "sched_inv s \<Longrightarrow> sched_inv (sleep_current s)"
  unfolding sleep_current_def
  by (auto split: option.splits intro!: sched_inv_drop_one simp: runnable_def task_ok_def)

lemma harmless_fields [simp]:
  "harmless (\<lambda>t. t\<lparr>t_pending_signals := u t\<rparr>)" "harmless (\<lambda>t. t\<lparr>t_signal_mask := u t\<rparr>)"
  "harmless (\<lambda>t. t\<lparr>t_woke_by := w t\<rparr>)" "harmless (\<lambda>t. t\<lparr>t_user_brk := u t\<rparr>)"
  "harmless (\<lambda>t. t\<lparr>t_fs_base := u t\<rparr>)" "harmless (\<lambda>t. t\<lparr>t_cr3 := u t\<rparr>)"
  "harmless (\<lambda>t. t\<lparr>t_euid := v t\<rparr>)" "harmless (\<lambda>t. t\<lparr>t_robust_list_head := u t, t_robust_list_len := n t\<rparr>)"
  "harmless (set_nice k)" "harmless (\<lambda>t. if p t then set_nice k t else t)"
  "harmless (\<lambda>t. if q then t\<lparr>t_signal_handlers := (t_signal_handlers t)[i := x]\<rparr> else t)"
  "harmless (\<lambda>t. t\<lparr>t_priority := max (-20) (min 20 (z t))\<rparr>)"
  by (simp_all add: harmless_def runnable_def task_ok_def set_nice_def)

lemma harmless_intent [simp]:
  "harmless (\<lambda>t. t\<lparr>t_intent := i, t_intent_hint := n, t_priority := intent_priority i (t_priority t)\<rparr>)"
  by (auto simp: harmless_def runnable_def task_ok_def intent_priority_def)

lemma harmless_save [simp]:
  "harmless (\<lambda>t. t\<lparr>t_saved_kernel_rsp := r, t_state := (if t_state t = Running then Runnable else t_state t)\<rparr>)"
  by (auto simp: harmless_def runnable_def task_ok_def)

lemma sched_inv_signal [kinv]: "sched_inv s \<Longrightarrow> sched_inv (send_signal pid n s)"
  by (auto simp: send_signal_def Let_def intro!: kinv)

lemma sched_inv_take_signal [kinv]: "sched_inv s \<Longrightarrow> sched_inv (snd (take_pending_signal pid s))"
  by (auto simp: take_pending_signal_def Let_def split: option.splits intro!: kinv)

lemma sched_inv_consume_signal [kinv]: "sched_inv s \<Longrightarrow> sched_inv (snd (consume_masked_signal pid m s))"
  by (auto simp: consume_masked_signal_def Let_def split: option.splits intro!: kinv)

subsection \<open>The timer interrupt\<close>

lemma sched_inv_others [simp]:
  "sched_inv (s\<lparr>s_others := w\<rparr>) = sched_inv s" "sched_inv (s\<lparr>s_uptime := u\<rparr>) = sched_inv s"
  "sched_inv (s\<lparr>s_vm := vm\<rparr>) = sched_inv s" "sched_inv (s\<lparr>s_cpu := c\<rparr>) = sched_inv s"
  "sched_inv (s\<lparr>s_crash := r\<rparr>) = sched_inv s" "sched_inv (s\<lparr>s_graph := g\<rparr>) = sched_inv s"
  "sched_inv (s\<lparr>s_rlimits := l\<rparr>) = sched_inv s" "sched_inv (s\<lparr>s_jobs := j\<rparr>) = sched_inv s"
  "sched_inv (s\<lparr>s_contexts := k\<rparr>) = sched_inv s" "sched_inv (s\<lparr>s_quantum_ms := u\<rparr>) = sched_inv s"
  by (simp_all add: sched_inv_def get_task_def)

lemma sched_inv_audio [simp]: "sched_inv (audio_tick h s) = sched_inv s"
  by (simp add: audio_tick_def)

lemma rq_moves [simp]:
  "set (rq_order (fold rq_move_to_front ps rq)) = set (rq_order rq)"
  "rq_inv rq \<Longrightarrow> rq_inv (fold rq_move_to_front ps rq)"
  by (induction ps arbitrary: rq) (auto intro: rq_inv_move)

lemma sched_inv_check_canary [kinv]: "sched_inv s \<Longrightarrow> sched_inv (check_canary h pid s)"
  by (auto simp: check_canary_def kill_task_def intro!: kinv)

lemma sched_inv_save [kinv]: "sched_inv s \<Longrightarrow> sched_inv (save_outgoing pid r s)"
  by (auto simp: save_outgoing_def intro!: kinv)

lemma sched_inv_feedback [kinv]:
  assumes "sched_inv s"
  shows "sched_inv (ai_feedback h pid s)"
proof -
  define s1 where "s1 = (case h_classify h pid (s_others s) of
      Some nice \<Rightarrow> mod_task pid (\<lambda>t. if t_intent t = 0 then set_nice nice t else t) s | None \<Rightarrow> s)"
  have i: "sched_inv s1" using assms by (auto simp: s1_def split: option.splits intro!: sched_inv_mod)
  obtain n and k :: u32 where "task_field pid (\<lambda>t. (ai_nice_adjust (t_ai_profile t),
      ucast (ticks_run (t_ai_profile t)))) (0, 1) s1 = (n, k)" by fastforce
  then have w: "ai_feedback h pid s =
      on_runq (fold rq_move_to_front (rev (predict_successors pid (s_graph s1))))
        (s1\<lparr>s_others := h_deschedule h pid n k (s_others s1)\<rparr>)"
    by (simp add: ai_feedback_def Let_def flip: s1_def)
  have "rq_inv (s_runq s1)" using i by (simp add: sched_inv_def)
  then show ?thesis unfolding w using i by (intro sched_inv_queue) simp_all
qed

lemma sched_inv_prewake_one [kinv]: "sched_inv s \<Longrightarrow> sched_inv (prewake_one p s)"
  unfolding prewake_one_def task_field_def
  by (auto split: option.splits intro!: sched_inv_wake_one dest: sched_inv_task simp: task_ok_def)

lemma sched_inv_prewake [kinv]: "sched_inv s \<Longrightarrow> sched_inv (prewake p s)"
proof -
  have "sched_inv s \<Longrightarrow> sched_inv (fold prewake_one ps s)" for ps
    by (induction ps arbitrary: s) (auto intro: sched_inv_prewake_one)
  then show "sched_inv s \<Longrightarrow> sched_inv (prewake p s)" by (simp add: prewake_def)
qed

lemma sched_inv_prefetch [kinv]: "sched_inv s \<Longrightarrow> sched_inv (causal_prefetch h p s)"
  by (auto simp: causal_prefetch_def split: option.splits prod.splits)

text \<open>Queues only grow in these stages, so the chosen process stays queued.\<close>

lemma prewake_queue:
  "current_pid (s_runq (prewake p s)) = current_pid (s_runq s)"
proof -
  have "current_pid (s_runq (prewake_one q s)) = current_pid (s_runq s)" for q and s :: "'a Sched"
    by (simp add: prewake_one_def rq_enqueue_def)
  then have "current_pid (s_runq (fold prewake_one ps s)) = current_pid (s_runq s)" for ps and s :: "'a Sched"
    by (induction ps arbitrary: s) simp_all
  then show ?thesis by (simp add: prewake_def)
qed

lemma prefetch_queue [simp]:
  "s_runq (causal_prefetch h p s) = s_runq s" "s_tasks (causal_prefetch h p s) = s_tasks s"
  by (simp_all add: causal_prefetch_def split: option.splits prod.splits)

lemma current_queued: "current_pid rq = Some p \<Longrightarrow> p \<in> set (rq_order rq)"
  by (simp add: rq_order_def)

lemma sched_inv_switch:
  assumes "sched_inv s" and "current_pid (s_runq s) = Some nxt"
  shows "sched_inv (snd (switch_to h u nxt r s))"
proof -
  from sched_inv_queued [OF assms(1)] current_queued [OF assms(2)] obtain t where
    t: "get_task nxt s = Some t" and rt: "runnable t" by blast
  let ?f = "account_switch h nxt (saturating_sub u (t_runnable_at t) * 1000) s"
  have "t_pid (?f t) = t_pid t" "runnable (?f t)" "task_ok (?f t)"
    using sched_inv_task [OF assms(1) t]
    by (auto simp: account_switch_def Let_def set_nice_def runnable_def task_ok_def)
  then have "sched_inv (on_runq id (mod_task nxt ?f s))"
    by (intro sched_inv_set_state [OF assms(1) t])
      (use assms current_queued [OF assms(2)] in \<open>auto simp: sched_inv_def\<close>)
  moreover have "on_runq id x = x" for x :: "'a Sched" by (simp add: on_runq_def)
  ultimately show ?thesis using t by (simp add: switch_to_def Let_def)
qed

lemma rq_tick_current: "fst (rq_tick q rq) = Some n \<Longrightarrow> current_pid (snd (rq_tick q rq)) = Some n"
  by (auto simp: rq_tick_def Let_def rq_schedule_next_fst rq_schedule_next_current split: if_splits)

definition interrupt_prefix :: "'w Hooks \<Rightarrow> Pid \<Rightarrow> u64 \<Rightarrow> 'w Sched \<Rightarrow> 'w Sched" where
  "interrupt_prefix h pid old_rsp s =
     audio_tick h (ai_feedback h pid
       (save_outgoing pid old_rsp (check_canary h pid (s\<lparr>s_uptime := s_uptime s + 10\<rparr>))))"

lemma schedule_unfold:
  assumes "current_pid (s_runq s) = Some pid"
    and "s4 = interrupt_prefix h pid r s" and "(nxt, rq) = rq_tick (next_burst_ticks h s4) (s_runq s4)"
  shows "schedule_from_interrupt h r s =
     (case nxt of
        None \<Rightarrow> (r, s4\<lparr>s_runq := rq\<rparr>)
      | Some n \<Rightarrow> switch_to h (s_uptime s) n r (causal_prefetch h n (prewake n (s4\<lparr>s_runq := rq\<rparr>))))"
proof -
  have "rq_tick (next_burst_ticks h s4) (s_runq s4) = (nxt, rq)" using assms(3) by simp
  then show ?thesis
    using assms(1) unfolding assms(2) interrupt_prefix_def
    by (simp add: schedule_from_interrupt_def Let_def)
qed

lemma sched_inv_prefix [kinv]: "sched_inv s \<Longrightarrow> sched_inv (interrupt_prefix h pid r s)"
  by (auto simp: interrupt_prefix_def intro!: kinv)

lemma sched_inv_interrupt [kinv]:
  assumes "sched_inv s"
  shows "sched_inv (snd (schedule_from_interrupt h r s))"
proof (cases "current_pid (s_runq s)")
  case None
  then show ?thesis using assms by (simp add: schedule_from_interrupt_def)
next
  case (Some pid)
  define s4 where "s4 = interrupt_prefix h pid r s"
  define q where "q = next_burst_ticks h s4"
  have i4: "sched_inv s4" using assms by (simp add: s4_def sched_inv_prefix)
  have i5: "sched_inv (s4\<lparr>s_runq := snd (rq_tick q (s_runq s4))\<rparr>)"
    using sched_inv_queue [OF i4, of "\<lambda>_. snd (rq_tick q (s_runq s4))"] i4
    by (simp add: on_runq_def sched_inv_def rq_inv_tick)
  note un = schedule_unfold [OF Some s4_def prod.collapse, folded q_def]
  show ?thesis
  proof (cases "fst (rq_tick q (s_runq s4))")
    case None
    then show ?thesis using un i5 by simp
  next
    case (Some n)
    let ?s = "causal_prefetch h n (prewake n (s4\<lparr>s_runq := snd (rq_tick q (s_runq s4))\<rparr>))"
    have i: "sched_inv ?s" using i5 by (auto intro!: kinv)
    have "current_pid (s_runq ?s) = Some n"
      using rq_tick_current [OF Some] by (simp add: prewake_queue)
    from sched_inv_switch [OF i this] show ?thesis using un Some by simp
  qed
qed

subsection \<open>Exit, reaping and new tasks\<close>

lemma sched_inv_zombie [kinv]: "sched_inv s \<Longrightarrow> sched_inv (make_zombie pid code s)"
  unfolding make_zombie_def by (auto intro!: sched_inv_drop_one simp: runnable_def task_ok_def)

lemma sched_inv_release: "sched_inv s \<Longrightarrow> release_memory c s = Some s' \<Longrightarrow> sched_inv s'"
  by (auto simp: release_memory_def split: if_splits prod.splits bool.splits)

lemma sched_inv_cleanup [kinv]: "sched_inv s \<Longrightarrow> sched_inv (cleanup_tables h pid s)"
  by (simp add: cleanup_tables_def)

lemma sched_inv_wakeup [kinv]: "sched_inv s \<Longrightarrow> sched_inv (record_wakeup h p q s)"
  by (simp add: record_wakeup_def sched_inv_mod)

lemma sched_inv_notify:
  "sched_inv s \<Longrightarrow> sched_inv (if p \<noteq> 0 then send_signal p 17 (wake_pid p s) else s)"
  by (simp add: sched_inv_signal sched_inv_wake)

lemma exit_direct_cases:
  assumes "exit_current_direct h pid code s = Some s'"
  obtains s1 r g where "release_memory (task_field pid t_cr3 0 s) (make_zombie pid code s) = Some s1"
    and "code = 0" and "s' = (if task_field pid t_parent_pid 0 s \<noteq> 0
           then send_signal (task_field pid t_parent_pid 0 s) 17
                  (wake_pid (task_field pid t_parent_pid 0 s) (cleanup_tables (h_cleanup_direct h) pid s1))
           else cleanup_tables (h_cleanup_direct h) pid s1)"
  using assms
  by (cases "release_memory (task_field pid t_cr3 0 s) (make_zombie pid code s)")
    (auto simp: exit_current_direct_def Let_def record_crash_hangs split: if_splits)

lemma sched_inv_exit_direct:
  assumes "sched_inv s" and "exit_current_direct h pid code s = Some s'"
  shows "sched_inv s'"
proof -
  from exit_direct_cases [OF assms(2)] obtain s1 where
    r: "release_memory (task_field pid t_cr3 0 s) (make_zombie pid code s) = Some s1"
    and s': "s' = (if task_field pid t_parent_pid 0 s \<noteq> 0
           then send_signal (task_field pid t_parent_pid 0 s) 17
                  (wake_pid (task_field pid t_parent_pid 0 s) (cleanup_tables (h_cleanup_direct h) pid s1))
           else cleanup_tables (h_cleanup_direct h) pid s1)" by blast
  have "sched_inv (cleanup_tables (h_cleanup_direct h) pid s1)"
    by (rule sched_inv_cleanup [OF sched_inv_release [OF sched_inv_zombie [OF assms(1)] r]])
  then show ?thesis unfolding s' by (rule sched_inv_notify)
qed

lemma sched_inv_exit:
  assumes "sched_inv s" and "exit_current h code s = Some s'"
  shows "sched_inv s'"
proof -
  define pid where "pid = (case current_pid (s_runq s) of Some p \<Rightarrow> p | None \<Rightarrow> 0)"
  define par where "par = (if pid \<noteq> 0 then task_field pid t_parent_pid 0 s else 0)"
  define s1 where "s1 = (if pid \<noteq> 0 then make_zombie pid code s else s)"
  have i1: "sched_inv s1" using assms(1) by (simp add: s1_def sched_inv_zombie)
  from assms(2) obtain s3 where
    s3: "(if pid \<noteq> 0 then release_memory (task_field pid t_cr3 0 s1) s1 else Some s1) = Some s3"
    and s': "s' = (if par \<noteq> 0 then send_signal par 17 (wake_pid par
          (if pid \<noteq> 0 then record_wakeup h pid par (cleanup_tables (h_cleanup h) pid s3) else cleanup_tables (h_cleanup h) pid s3))
        else cleanup_tables (h_cleanup h) pid s3)"
    unfolding exit_current_def Let_def pid_def [symmetric] s1_def [symmetric] par_def [symmetric]
    by (auto split: option.splits)
  have "sched_inv s3" using s3 i1 sched_inv_release by (auto split: if_splits)
  then have c: "sched_inv (cleanup_tables (h_cleanup h) pid s3)" by (rule sched_inv_cleanup)
  then have "sched_inv (if pid \<noteq> 0 then record_wakeup h pid par (cleanup_tables (h_cleanup h) pid s3)
      else cleanup_tables (h_cleanup h) pid s3)" using sched_inv_wakeup [OF c] by (cases "pid = 0") auto
  from sched_inv_signal [OF sched_inv_wake [OF this]] c show ?thesis unfolding s' by (cases "par = 0") auto
qed

lemma reap_cases:
  assumes "reap_zombie_child p s = (Some (c, code), s')"
  obtains t where "(c, t) \<in> set (s_tasks s)" and "t_parent_pid t = p" and "t_state t = Zombie"
    and "code = (case t_exit_code t of Some k \<Rightarrow> k | None \<Rightarrow> 0)"
    and "s' = s\<lparr>s_tasks := bt_remove c (s_tasks s)\<rparr>"
proof -
  let ?P = "\<lambda>(_, t). t_parent_pid t = p \<and> t_state t = Zombie"
  from assms obtain t where f: "List.find ?P (s_tasks s) = Some (c, t)"
    and "code = (case t_exit_code t of Some k \<Rightarrow> k | None \<Rightarrow> 0)"
    and "s' = s\<lparr>s_tasks := bt_remove c (s_tasks s)\<rparr>"
    by (auto simp: reap_zombie_child_def split: option.splits)
  moreover have "(c, t) \<in> set (s_tasks s) \<and> ?P (c, t)"
    using f unfolding find_Some_iff by (metis nth_mem)
  ultimately show thesis using that [of t] by auto
qed

lemma sched_inv_reap [kinv]:
  assumes "sched_inv s"
  shows "sched_inv (snd (reap_zombie_child p s))"
proof (cases "reap_zombie_child p s")
  case (Pair r s')
  show ?thesis
  proof (cases r)
    case None
    then show ?thesis using Pair assms by (auto simp: reap_zombie_child_def split: option.splits)
  next
    case (Some x)
    obtain c code where x: "x = (c, code)" by fastforce
    from Pair Some x obtain t where t: "(c, t) \<in> set (s_tasks s)" "t_state t = Zombie"
      and s': "s' = s\<lparr>s_tasks := bt_remove c (s_tasks s)\<rparr>" by (auto elim: reap_cases)
    have "get_task c s = Some t" using t(1) assms by (simp add: get_task_def sched_inv_def bt_get_eq_mem)
    then have "c \<notin> set (rq_order (s_runq s))"
      using sched_inv_queued [OF assms] t(2) by (auto simp: runnable_def)
    then show ?thesis using Pair s' assms
      by (auto simp: sched_inv_def get_task_def bt_wf_remove split: if_splits)
  qed
qed

lemma next_pid_mono:
  assumes "(n :: u64) \<noteq> - 1"
  shows "n < n + 1" and "p < n \<Longrightarrow> p < n + 1"
proof -
  have "1 + n \<noteq> 0" using assms by (metis add.commute eq_neg_iff_add_eq_0)
  from unatSuc [OF this] show "n < n + 1" by (simp add: word_less_nat_alt add.commute)
  then show "p < n \<Longrightarrow> p < n + 1" by (rule less_trans [rotated])
qed

lemma sched_inv_create:
  assumes "sched_inv s" and "s_next_pid s \<noteq> - 1"
    and "s_tasks s' = bt_insert (s_next_pid s) t (s_tasks s)" and "s_next_pid s' = s_next_pid s + 1"
    and "s_runq s' = rq_enqueue (s_next_pid s) (s_runq s)"
    and "t_pid t = s_next_pid s" and "t_state t = Runnable" and "task_ok t"
  shows "sched_inv s'"
proof -
  let ?n = "s_next_pid s"
  note lt = next_pid_mono [OF assms(2)]
  have new: "get_task ?n s = None" using sched_inv_task [OF assms(1), of ?n] by (cases "get_task ?n s") auto
  then have "?n \<notin> set (rq_order (s_runq s))" using sched_inv_queued [OF assms(1)] by simp
  moreover have "get_task p s' = (if p = ?n then Some t else get_task p s)" for p
    using assms(3) by (simp add: get_task_def)
  ultimately show ?thesis
    using assms lt unfolding sched_inv_def
    by (auto simp: bt_wf_insert rq_inv_enqueue runnable_def split: if_splits)
qed

lemma new_kernel_thread_ok:
  "new_kernel_thread c pid name entry stk vm = (t, vm') \<Longrightarrow>
     t_pid t = pid \<and> t_state t = Runnable \<and> task_ok t"
  by (auto simp: new_kernel_thread_def Let_def task_ok_def)

lemma sched_inv_spawn:
  assumes "sched_inv s" and "s_next_pid s \<noteq> - 1" and "spawn_kernel_thread h name entry s = Inr s'"
  shows "sched_inv s'"
proof -
  from assms(3) obtain stack b where al: "alloc_frames 2 (frames (s_vm s)) = Some (stack, b)"
    by (auto simp: spawn_kernel_thread_def split: option.splits)
  obtain t vm where t: "new_kernel_thread (cr3_reg (s_cpu s)) (s_next_pid s) name entry
      (phys_offset b + stack + STACK_PAGES * PAGE_SIZE) (set_frames b (s_vm s)) = (t, vm)" by fastforce
  from new_kernel_thread_ok [OF t] show ?thesis
    using assms(3) al t
    by (intro sched_inv_create [OF assms(1,2), where t = "t\<lparr>t_stack_canary := canary_value (s_next_pid s),
          t_stack_canary_addr := phys_offset b + stack, t_runnable_at := s_uptime s\<rparr>"])
      (auto simp: spawn_kernel_thread_def alloc_pid_def Let_def task_ok_def)
qed

lemma clone_ok:
  "clone_shallow c t vm = Some (t', vm') \<Longrightarrow> task_ok t \<Longrightarrow> task_ok t'"
  using clone_shallow_task by (simp add: task_ok_def)

lemma sched_inv_alloc_only:
  assumes "sched_inv s" and "s_next_pid s \<noteq> - 1"
  shows "sched_inv (s\<lparr>s_next_pid := s_next_pid s + 1\<rparr>)"
proof -
  show ?thesis using assms(1) next_pid_mono [OF assms(2)] unfolding sched_inv_def get_task_def by auto
qed

lemma fork_cases:
  assumes "fork_task h parent s = (r, s')"
  obtains (failed) vm where "r = None" and "s' = s\<lparr>s_next_pid := s_next_pid s + 1, s_vm := vm\<rparr>"
  | (forked) p vm vm' c cr3 where "get_task parent s = Some p" and "r = Some (s_next_pid s)"
      and "clone_shallow (s_next_pid s) p vm = Some (c, vm')"
      and "s' = s\<lparr>s_next_pid := s_next_pid s + 1, s_vm := vm',
             s_tasks := bt_insert (s_next_pid s) (c\<lparr>t_cr3 := cr3\<rparr>) (s_tasks s),
             s_runq := rq_enqueue (s_next_pid s) (s_runq s),
             s_contexts := init_task_context (s_next_pid s) (Some parent) (s_contexts s)\<rparr>"
proof (cases "get_task parent s")
  case None
  then show thesis using assms failed [of "s_vm s"]
    by (auto simp: fork_task_def alloc_pid_def get_task_def)
next
  case (Some p)
  obtain nc vm1 where a: "alloc_user_cr3 (h_map_to h) (cr3_reg (s_cpu s)) (s_vm s) = (nc, vm1)" by fastforce
  define cc where "cc = (case nc of Some c \<Rightarrow> c | None \<Rightarrow> cr3_reg (s_cpu s) AND NOT 0xFFF)"
  obtain ok vm2 n where sh: "copy_user_address_space (t_cr3 p) cc vm1 = (ok, vm2, n)" by (metis prod.exhaust)
  have f: "fork_task h parent s = (case clone_shallow (s_next_pid s) p vm2 of
      None \<Rightarrow> (None, s\<lparr>s_next_pid := s_next_pid s + 1, s_vm := vm2\<rparr>)
    | Some (c, vm3) \<Rightarrow> (Some (s_next_pid s), s\<lparr>s_next_pid := s_next_pid s + 1, s_vm := vm3,
        s_tasks := bt_insert (s_next_pid s) (c\<lparr>t_cr3 := cc\<rparr>) (s_tasks s),
        s_runq := rq_enqueue (s_next_pid s) (s_runq s),
        s_contexts := init_task_context (s_next_pid s) (Some parent) (s_contexts s)\<rparr>))"
    using Some a sh unfolding cc_def
    by (simp add: fork_task_def alloc_pid_def get_task_def Let_def split: option.splits)
  show thesis
  proof (cases "clone_shallow (s_next_pid s) p vm2")
    case None
    then show thesis using f assms failed by simp
  next
    case (Some x)
    then show thesis using f assms forked [OF \<open>get_task parent s = Some p\<close>] by (cases x) auto
  qed
qed

lemma sched_inv_fork:
  assumes "sched_inv s" and "s_next_pid s \<noteq> - 1" and "fork_task h parent s = (r, s')"
  shows "sched_inv s'"
  using assms(3)
proof (cases rule: fork_cases)
  case (failed vm)
  then show ?thesis using sched_inv_alloc_only [OF assms(1,2)] by simp
next
  case (forked p vm vm' c cr3)
  note ct = clone_shallow_task [OF forked(3)]
  have "task_ok c" using clone_ok [OF forked(3)] sched_inv_task [OF assms(1) forked(1)] by blast
  then show ?thesis using forked ct
    by (intro sched_inv_create [OF assms(1,2), where t = "c\<lparr>t_cr3 := cr3\<rparr>"]) (auto simp: task_ok_def)
qed

lemma sched_inv_thread:
  assumes "sched_inv s" and "s_next_pid s \<noteq> - 1" and "spawn_user_thread h parent stk tls settls s = (r, s')"
  shows "sched_inv s'"
proof (cases "get_task parent s")
  case None
  then show ?thesis using assms(3) sched_inv_alloc_only [OF assms(1,2)]
    by (simp add: spawn_user_thread_def alloc_pid_def get_task_def)
next
  case (Some p)
  show ?thesis
  proof (cases "clone_shallow (s_next_pid s) p (s_vm s)")
    case None
    then show ?thesis using assms(3) Some sched_inv_alloc_only [OF assms(1,2)]
      by (simp add: spawn_user_thread_def alloc_pid_def get_task_def)
  next
    case (Some x)
    obtain c vm where x: "x = (c, vm)" by fastforce
    note cl = Some [unfolded x]
    note ct = clone_shallow_task [OF cl]
    have "task_ok c" using clone_ok [OF cl] sched_inv_task [OF assms(1) \<open>get_task parent s = Some p\<close>] by blast
    then show ?thesis using assms(3) \<open>get_task parent s = Some p\<close> cl ct
      by (intro sched_inv_create [OF assms(1,2), where t = "c\<lparr>t_fs_base :=
            (if settls then tls else t_fs_base c), t_parent_pid := parent\<rparr>"])
        (auto simp: spawn_user_thread_def alloc_pid_def get_task_def Let_def task_ok_def)
  qed
qed

end
