(* ===== verification/Scheduler_Props.thy ===== *)
theory Scheduler_Props
  imports Scheduler_Inv
begin

section \<open>What the scheduler guarantees\<close>

text \<open>
  The scheduler's operations as a step relation from boot, and the properties of the run queue,
  context switches, signals, new threads and exits.
\<close>

definition sched_boot :: "Vm \<Rightarrow> Cpu \<Rightarrow> 'w \<Rightarrow> 'w Sched" where
  "sched_boot vm cpu w =
     \<lparr>s_vm = vm, s_tasks = [], s_next_pid = 1, s_uptime = 0, s_quantum_ms = 0, s_runq = rq_new,
      s_rlimits = [], s_jobs = job_new, s_contexts = security_init, s_graph = causal_new,
      s_crash = crash_ring_new, s_cpu = cpu, s_others = w\<rparr>"

text \<open>Process ids are handed out once each; the relation stops before the counter wraps.\<close>

inductive sched_step :: "'w Hooks \<Rightarrow> 'w Sched \<Rightarrow> 'w Sched \<Rightarrow> bool" for h where
  idle: "current_pid (s_runq s) = None \<Longrightarrow> get_task IDLE_PID s = None \<Longrightarrow> sched_step h s (register_idle_task s)"
| spawn: "s_next_pid s \<noteq> - 1 \<Longrightarrow> spawn_kernel_thread h name entry s = Inr s' \<Longrightarrow> sched_step h s s'"
| fork: "s_next_pid s \<noteq> - 1 \<Longrightarrow> fork_task h parent s = (r, s') \<Longrightarrow> sched_step h s s'"
| thread: "s_next_pid s \<noteq> - 1 \<Longrightarrow> spawn_user_thread h parent stk tls settls s = (r, s') \<Longrightarrow> sched_step h s s'"
| interrupt: "sched_step h s (snd (schedule_from_interrupt h old_rsp s))"
| sleep: "sched_step h s (sleep_current s)"
| wake: "sched_step h s (wake_pid pid s)"
| signal: "sched_step h s (send_signal pid signum s)"
| take: "sched_step h s (snd (take_pending_signal pid s))"
| consume: "sched_step h s (snd (consume_masked_signal pid m s))"
| exit: "exit_current h code s = Some s' \<Longrightarrow> sched_step h s s'"
| exit_direct: "exit_current_direct h pid code s = Some s' \<Longrightarrow> sched_step h s s'"
| reap: "sched_step h s (snd (reap_zombie_child pid s))"
| intent: "sched_step h s (set_intent pid i n s)"
| priority: "sched_step h s (adjust_priority pid d s)"
| nice: "sched_step h s (set_nice_override pid d s)"
| handler: "sched_step h s (set_signal_handler pid i a s)"
| set_mask: "sched_step h s (set_signal_mask pid m s)"
| block: "sched_step h s (mask_signals pid m s)"
| unblock: "sched_step h s (unmask_signals pid m s)"
| woken_by: "sched_step h s (set_woke_by pid q s)"
| brk: "sched_step h s (set_user_brk pid a s)"
| fs: "sched_step h s (set_fs_base pid a s)"
| robust: "sched_step h s (set_robust_list pid a k s)"
| cr3: "sched_step h s (set_task_cr3 pid a s)"
| euid: "sched_step h s (set_euid pid e s)"
| quantum: "sched_step h s (set_quantum_ms ms s)"

lemma sched_inv_boot: "sched_inv (sched_boot vm cpu w)"
  by (simp add: sched_inv_def sched_boot_def get_task_def rq_inv_def rq_order_def rq_new_def)

lemma sched_inv_idle:
  assumes "sched_inv s" and "current_pid (s_runq s) = None" and "get_task IDLE_PID s = None"
  shows "sched_inv (register_idle_task s)"
proof -
  have "IDLE_PID \<notin> set (rq_order (s_runq s))" using assms sched_inv_queued by fastforce
  moreover have "rq_order (rq_set_current IDLE_PID (s_runq s)) = rq_order (s_runq s) @ [IDLE_PID]"
    using assms(2) by (simp add: rq_order_def rq_set_current_def)
  moreover have "get_task p (register_idle_task s) =
      (if p = IDLE_PID then Some (new_idle (cr3_reg (s_cpu s)) IDLE_PID) else get_task p s)" for p
    by (simp add: register_idle_task_def set_current_idle_def) (simp add: get_task_def)
  moreover have "s_runq (register_idle_task s) = rq_set_current IDLE_PID (s_runq s)"
    "s_next_pid (register_idle_task s) = s_next_pid s" "bt_wf (s_tasks (register_idle_task s))"
    using assms(1)
    by (simp_all add: register_idle_task_def set_current_idle_def sched_inv_def bt_wf_insert)
  moreover have "t_pid (new_idle c IDLE_PID) = IDLE_PID \<and> runnable (new_idle c IDLE_PID) \<and>
      task_ok (new_idle c IDLE_PID)" for c
    by (simp add: new_idle_def runnable_def task_ok_def)
  ultimately show ?thesis using assms(1) unfolding sched_inv_def
    by (auto simp: rq_inv_def IDLE_PID_def split: if_splits)
qed

lemmas sched_inv_creates = sched_inv_spawn sched_inv_fork sched_inv_thread sched_inv_exit
  sched_inv_exit_direct sched_inv_idle

lemma sched_inv_step:
  assumes "sched_inv s" and "sched_step h s s'"
  shows "sched_inv s'"
  using assms(2,1)
proof cases
  case quantum
  then show ?thesis using assms(1) by (simp add: set_quantum_ms_def)
qed (auto intro: sched_inv_creates kinv simp: set_intent_def adjust_priority_def set_nice_override_def
    set_signal_handler_def set_signal_mask_def mask_signals_def unmask_signals_def set_woke_by_def
    set_user_brk_def set_fs_base_def set_robust_list_def set_task_cr3_def set_euid_def)

lemma sched_inv_reachable: "(sched_step h)\<^sup>*\<^sup>* (sched_boot vm cpu w) s \<Longrightarrow> sched_inv s"
  by (induction rule: rtranclp_induct) (auto intro: sched_inv_boot sched_inv_step)


definition cpu_example :: Cpu where
  "cpu_example = \<lparr>cr3_reg = 0x10000, rsp0 = 0, fs_reg = 0, fpu_owner = 0\<rparr>"

definition hooks_example :: "unit Hooks" where
  "hooks_example =
     \<lparr>h_map_to = map_top_entry, h_born = id, h_overflow = (\<lambda>_ w. w), h_classify = (\<lambda>_ _. None),
      h_audio = id, h_deschedule = (\<lambda>_ _ _ w. w), h_scaled_ticks = (\<lambda>_ _ _. 1), h_prefetch = (\<lambda>_ x. x),
      h_blended_nice = (\<lambda>_ _ _. 0), h_record_wait = (\<lambda>_ _ w. w), h_fingerprint = (\<lambda>_ _. []),
      h_similarity = (\<lambda>_ _. 0), h_threshold = 70, h_cleanup = (\<lambda>_ w. w), h_cleanup_direct = (\<lambda>_ w. w),
      h_interaction = (\<lambda>_ _ w. w), h_on_spawn = (\<lambda>_ _ w. w)\<rparr>"

definition sched_example :: "unit Sched" where
  "sched_example = register_idle_task (sched_boot (cow_vm pmm_example) cpu_example ())"

lemma sched_example_reachable:
  "(sched_step hooks_example)\<^sup>*\<^sup>* (sched_boot (cow_vm pmm_example) cpu_example ()) sched_example"
  unfolding sched_example_def
  by (rule r_into_rtranclp, rule sched_step.idle) (simp_all add: sched_boot_def rq_new_def get_task_def)


subsection \<open>Context switches\<close>

text \<open>The part of a task a switch loads, and the stages of the interrupt that leave it alone.\<close>

definition ctx_of :: "Task \<Rightarrow> u64 \<times> u64 \<times> u64" where
  "ctx_of t = (t_saved_kernel_rsp t, t_cr3 t, t_kernel_stack_top t)"

definition same_ctx :: "'w Sched \<Rightarrow> 'w Sched \<Rightarrow> bool" where
  "same_ctx s s' \<longleftrightarrow> (\<forall>p. map_option ctx_of (get_task p s') = map_option ctx_of (get_task p s))"

lemma same_ctx_refl [simp]: "same_ctx s s"
  by (simp add: same_ctx_def)

lemma same_ctx_trans: "same_ctx s t \<Longrightarrow> same_ctx t u \<Longrightarrow> same_ctx s u"
  by (simp add: same_ctx_def)

lemma same_ctx_mod: "(\<And>t. ctx_of (f t) = ctx_of t) \<Longrightarrow> same_ctx s (mod_task p f s)"
  by (auto simp: same_ctx_def option.map_comp comp_def split: option.splits)

lemma same_ctx_tasks: "s_tasks s' = s_tasks s \<Longrightarrow> same_ctx s s'"
  by (simp add: same_ctx_def get_task_def)

lemma same_ctx_feedback: "same_ctx s (ai_feedback h pid s)"
proof -
  define s1 where "s1 = (case h_classify h pid (s_others s) of
      Some nice \<Rightarrow> mod_task pid (\<lambda>t. if t_intent t = 0 then set_nice nice t else t) s | None \<Rightarrow> s)"
  have "same_ctx s s1"
    by (auto simp: s1_def ctx_of_def set_nice_def split: option.splits intro!: same_ctx_mod)
  moreover have "s_tasks (ai_feedback h pid s) = s_tasks s1"
    by (simp add: ai_feedback_def Let_def flip: s1_def split: prod.splits)
  ultimately show ?thesis using same_ctx_trans same_ctx_tasks by blast
qed

lemma same_ctx_prewake: "same_ctx s (prewake p s)"
proof -
  have one: "same_ctx s (prewake_one q s)" for q and s :: "'a Sched"
  proof -
    have "same_ctx s (mod_task q (\<lambda>t. t\<lparr>t_state := Runnable\<rparr>) s)"
      by (rule same_ctx_mod) (simp add: ctx_of_def)
    moreover have "same_ctx (mod_task q (\<lambda>t. t\<lparr>t_state := Runnable\<rparr>) s)
        (on_runq (rq_enqueue q) (mod_task q (\<lambda>t. t\<lparr>t_state := Runnable\<rparr>) s))"
      by (rule same_ctx_tasks) simp
    ultimately show ?thesis using same_ctx_trans by (fastforce simp: prewake_one_def)
  qed
  have "same_ctx s (fold prewake_one ps s)" for ps and s :: "'a Sched"
    by (induction ps arbitrary: s) (auto intro: same_ctx_trans [OF one])
  then show ?thesis by (simp add: prewake_def)
qed

lemma prefix_old_ctx:
  assumes "get_task pid s = Some t" and "t_state t \<noteq> Sleeping"
  shows "\<exists>t'. get_task pid (interrupt_prefix h pid r s) = Some t' \<and>
           ctx_of t' = (r, t_cr3 t, t_kernel_stack_top t)"
proof -
  let ?s1 = "s\<lparr>s_uptime := s_uptime s + 10\<rparr>"
  have g1: "get_task pid ?s1 = Some t" using assms(1) by (simp add: get_task_def)
  have "\<exists>t2. get_task pid (check_canary h pid ?s1) = Some t2 \<and> t_cr3 t2 = t_cr3 t \<and>
      t_kernel_stack_top t2 = t_kernel_stack_top t"
  proof (cases "canary_mismatch pid ?s1")
    case True
    have g: "get_task pid (?s1\<lparr>s_others := w\<rparr>) = Some t" for w using g1 by (simp add: get_task_def)
    then show ?thesis using True assms(2)
      by (simp add: check_canary_def kill_task_def send_signal_def Let_def task_field_def)
  next
    case False
    then show ?thesis using g1 by (simp add: check_canary_def)
  qed
  then obtain t2 where t2: "get_task pid (check_canary h pid ?s1) = Some t2" "t_cr3 t2 = t_cr3 t"
    "t_kernel_stack_top t2 = t_kernel_stack_top t" by blast
  let ?s3 = "save_outgoing pid r (check_canary h pid ?s1)"
  have "map_option ctx_of (get_task pid ?s3) = Some (r, t_cr3 t, t_kernel_stack_top t)"
    using t2 by (simp add: save_outgoing_def ctx_of_def)
  moreover have "map_option ctx_of (get_task pid (interrupt_prefix h pid r s)) =
      map_option ctx_of (get_task pid ?s3)"
    using same_ctx_feedback [of ?s3 h pid] by (simp add: same_ctx_def interrupt_prefix_def)
  ultimately show ?thesis by (cases "get_task pid (interrupt_prefix h pid r s)") auto
qed

lemma moves_keep [simp]:
  "current_pid (fold rq_move_to_front ps rq) = current_pid rq"
  "ticks_left (fold rq_move_to_front ps rq) = ticks_left rq"
  by (induction ps arbitrary: rq) (simp_all add: rq_move_to_front_def)

lemma feedback_runq:
  "current_pid (s_runq (ai_feedback h pid s)) = current_pid (s_runq s)"
  "ticks_left (s_runq (ai_feedback h pid s)) = ticks_left (s_runq s)"
  by (simp_all add: ai_feedback_def Let_def split: option.splits prod.splits)

lemma prefix_runq:
  assumes "get_task pid s = Some t" and "t_state t \<noteq> Sleeping"
  shows "current_pid (s_runq (interrupt_prefix h pid r s)) = current_pid (s_runq s)"
    and "ticks_left (s_runq (interrupt_prefix h pid r s)) = ticks_left (s_runq s)"
proof -
  let ?s1 = "s\<lparr>s_uptime := s_uptime s + 10\<rparr>"
  have "get_task pid (?s1\<lparr>s_others := w\<rparr>) = Some t" for w using assms(1) by (simp add: get_task_def)
  then have "s_runq (check_canary h pid ?s1) = s_runq s"
    using assms(2) by (simp add: check_canary_def kill_task_def send_signal_def Let_def task_field_def)
  then show "current_pid (s_runq (interrupt_prefix h pid r s)) = current_pid (s_runq s)"
    and "ticks_left (s_runq (interrupt_prefix h pid r s)) = ticks_left (s_runq s)"
    by (simp_all add: interrupt_prefix_def feedback_runq save_outgoing_def)
qed

lemma tick_switches:
  assumes "ticks_left rq \<le> 1" and "current_pid rq \<noteq> None"
  shows "\<exists>n. fst (rq_tick q rq) = Some n"
proof -
  have "saturating_sub (ticks_left rq) 1 = 0"
    using assms(1) unat_saturating_sub [of "ticks_left rq" 1]
    by (simp add: word_le_nat_alt flip: unat_eq_zero)
  then have "fst (rq_tick q rq) = rq_peek_front (rq\<lparr>ticks_left := 0\<rparr>)"
    by (simp add: rq_tick_def Let_def rq_schedule_next_fst)
  then show ?thesis using assms(2) by (auto simp: rq_peek_front_def split: list.splits)
qed

lemma ctx_account [simp]: "ctx_of (account_switch h n w s t) = ctx_of t"
  by (simp add: account_switch_def ctx_of_def set_nice_def Let_def)

lemma switch_loads:
  assumes "get_task nxt s = Some t" and "switch_to h u nxt r s = (new_rsp, s')"
  shows "new_rsp = t_saved_kernel_rsp t" and "same_ctx s s'" and "s_runq s' = s_runq s"
    and "cr3_reg (s_cpu s') = t_cr3 t"
    and "t_kernel_stack_top t \<noteq> 0 \<Longrightarrow> rsp0 (s_cpu s') = t_kernel_stack_top t"
    and "\<exists>t'. get_task nxt s' = Some t' \<and> t_state t' = Running \<and> ctx_of t' = ctx_of t"
proof -
  define f where "f = account_switch h nxt (saturating_sub u (t_runnable_at t) * 1000) s"
  obtain w c where s': "s' = (mod_task nxt f s)\<lparr>s_others := w, s_cpu := c\<rparr>"
    and c: "cr3_reg c = t_cr3 t" "t_kernel_stack_top t \<noteq> 0 \<Longrightarrow> rsp0 c = t_kernel_stack_top t"
    and "new_rsp = t_saved_kernel_rsp t"
    using assms by (auto simp: switch_to_def Let_def f_def)
  then show "new_rsp = t_saved_kernel_rsp t" "s_runq s' = s_runq s" "cr3_reg (s_cpu s') = t_cr3 t"
    "t_kernel_stack_top t \<noteq> 0 \<Longrightarrow> rsp0 (s_cpu s') = t_kernel_stack_top t" by simp_all
  have "same_ctx (mod_task nxt f s) s'" by (rule same_ctx_tasks) (simp add: s')
  moreover have "same_ctx s (mod_task nxt f s)" by (rule same_ctx_mod) (simp add: f_def)
  ultimately show "same_ctx s s'" by (rule same_ctx_trans [rotated])
  have "get_task nxt s' = Some (f t)" using assms(1) unfolding s' by (simp add: get_task_def mod_task_def)
  moreover have "t_state (f t) = Running" by (simp add: f_def account_switch_def Let_def set_nice_def)
  ultimately show "\<exists>t'. get_task nxt s' = Some t' \<and> t_state t' = Running \<and> ctx_of t' = ctx_of t"
    by (simp add: f_def)
qed


lemma sched_example_current: "current_pid (s_runq sched_example) = Some 0"
  by (simp add: sched_example_def register_idle_task_def set_current_idle_def rq_set_current_def IDLE_PID_def)

text \<open>While time is left, an interrupt only counts it down.\<close>

lemma interrupt_counts_down:
  assumes "sched_inv s" and "current_pid (s_runq s) = Some old" and "1 < ticks_left (s_runq s)"
  shows "current_pid (s_runq (snd (schedule_from_interrupt h r s))) = Some old \<and>
         ticks_left (s_runq (snd (schedule_from_interrupt h r s))) = ticks_left (s_runq s) - 1"
proof -
  from sched_inv_queued [OF assms(1)] current_queued [OF assms(2)] obtain t where
    t: "get_task old s = Some t" "t_state t \<noteq> Sleeping" by (fastforce simp: runnable_def)
  define s4 where "s4 = interrupt_prefix h old r s"
  define q where "q = next_burst_ticks h s4"
  have rq4: "current_pid (s_runq s4) = Some old" "ticks_left (s_runq s4) = ticks_left (s_runq s)"
    using prefix_runq [OF t] assms(2) by (simp_all add: s4_def)
  have "saturating_sub (ticks_left (s_runq s)) 1 = ticks_left (s_runq s) - 1" "ticks_left (s_runq s) - 1 \<noteq> 0"
    using assms(3) by (auto simp: saturating_sub_def)
  then have "rq_tick q (s_runq s4) = (None, (s_runq s4)\<lparr>ticks_left := ticks_left (s_runq s) - 1\<rparr>)"
    using rq4 by (simp add: rq_tick_def Let_def)
  then show ?thesis
    using schedule_unfold [OF assms(2) s4_def prod.collapse, folded q_def] rq4 by simp
qed

definition example_after :: "nat \<Rightarrow> unit Sched" where
  "example_after n = ((\<lambda>s. snd (schedule_from_interrupt hooks_example 0x8000 s)) ^^ n) sched_example"

lemma example_after_facts:
  "n \<le> 9 \<Longrightarrow> (sched_step hooks_example)\<^sup>*\<^sup>* (sched_boot (cow_vm pmm_example) cpu_example ()) (example_after n) \<and>
     current_pid (s_runq (example_after n)) = Some 0 \<and> ticks_left (s_runq (example_after n)) = of_nat (10 - n)"
proof (induction n)
  case 0
  have "ticks_left (s_runq sched_example) = 10"
    by (simp add: sched_example_def register_idle_task_def set_current_idle_def rq_set_current_def
        sched_boot_def rq_new_def)
  then show ?case using sched_example_reachable sched_example_current by (simp add: example_after_def)
next
  case (Suc n)
  let ?s = "example_after n"
  have s: "example_after (Suc n) = snd (schedule_from_interrupt hooks_example 0x8000 ?s)"
    by (simp add: example_after_def)
  have IH: "(sched_step hooks_example)\<^sup>*\<^sup>* (sched_boot (cow_vm pmm_example) cpu_example ()) ?s"
    "current_pid (s_runq ?s) = Some 0" "ticks_left (s_runq ?s) = of_nat (10 - n)" using Suc by auto
  have u: "unat (of_nat (10 - n) :: u32) = 10 - n" unfolding unat_of_nat by simp
  have "1 < (of_nat (10 - n) :: u32)" unfolding word_less_nat_alt u using Suc.prems by simp
  with interrupt_counts_down [OF sched_inv_reachable [OF IH(1)] IH(2), of hooks_example "0x8000"] IH(3)
  have "current_pid (s_runq (example_after (Suc n))) = Some 0 \<and>
      ticks_left (s_runq (example_after (Suc n))) = of_nat (10 - n) - 1" by (simp add: s)
  moreover have "(of_nat (10 - n) :: u32) - 1 = of_nat (10 - Suc n)"
    using Suc.prems by (simp add: of_nat_diff)
  moreover have "(sched_step hooks_example)\<^sup>*\<^sup>* (sched_boot (cow_vm pmm_example) cpu_example ()) (example_after (Suc n))"
    unfolding s by (rule rtranclp.rtrancl_into_rtrancl [OF IH(1) sched_step.interrupt])
  ultimately show ?case by simp
qed


end
