(* ===== verification/Lifecycle.thy ===== *)
theory Lifecycle
  imports Scheduler_Props
begin

section \<open>Signals, threads and the end of a process\<close>

text \<open>
  Which signal a process gets and when; what a new user thread starts with; what happens to the
  processor when its process sleeps or exits, and to the parent when a child exits. The operations
  are those of theory \<open>Scheduler\<close>.
\<close>

subsection \<open>Signal delivery\<close>

lemma lowest_bit_found:
  assumes "(x::u64) \<noteq> 0"
  shows "lowest_bit x < 64 \<and> bit x (lowest_bit x) \<and> (\<forall>m < lowest_bit x. \<not> bit x m)"
proof -
  obtain n where "n < 64" "bit x n" using assms by (auto simp: word_bits_eq)
  then obtain k where k: "List.find (bit x) [0..<64] = Some k"
    by (cases "List.find (bit x) [0..<64]") (auto simp: find_None_iff)
  then obtain i where i: "i < 64" "bit x ([0..<64] ! i)" "k = [0..<64] ! i" "\<forall>j<i. \<not> bit x ([0..<64] ! j)"
    by (auto simp: find_Some_iff)
  then show ?thesis using k by (auto simp: lowest_bit_def)
qed

lemma take_signal_none:
  "get_task pid s = Some t \<Longrightarrow> t_pending_signals t AND NOT (t_signal_mask t) = 0 \<Longrightarrow>
     take_pending_signal pid s = (None, s)"
  by (simp add: take_pending_signal_def Let_def)

lemma take_signal_some:
  "get_task pid s = Some t \<Longrightarrow> d = t_pending_signals t AND NOT (t_signal_mask t) \<Longrightarrow> d \<noteq> 0 \<Longrightarrow>
     take_pending_signal pid s =
       (Some (of_nat (lowest_bit d), t_signal_handlers t ! lowest_bit d),
        mod_task pid (\<lambda>t. t\<lparr>t_pending_signals := t_pending_signals t AND NOT (push_bit (lowest_bit d) 1)\<rparr>) s)"
  by (simp add: take_pending_signal_def Let_def)

definition deliverable :: "Task \<Rightarrow> nat \<Rightarrow> bool" where
  "deliverable t n \<longleftrightarrow> bit (t_pending_signals t) n \<and> \<not> bit (t_signal_mask t) n"

lemma deliverable_bits:
  "n < 64 \<Longrightarrow> bit (t_pending_signals t AND NOT (t_signal_mask t)) n \<longleftrightarrow> deliverable t n"
  by (simp add: deliverable_def bit_simps)

lemma signal_delivery_cases:
  assumes "get_task pid s = Some t"
  shows "fst (take_pending_signal pid s) = None \<longleftrightarrow> (\<forall>n < 64. \<not> deliverable t n)"
    and "take_pending_signal pid s = (Some (sig, handler), s') \<Longrightarrow>
           unat sig < 64 \<and> deliverable t (unat sig) \<and> (\<forall>m < unat sig. \<not> deliverable t m) \<and>
           handler = t_signal_handlers t ! unat sig \<and>
           (\<exists>t'. get_task pid s' = Some t' \<and>
              (\<forall>n < 64. bit (t_pending_signals t') n \<longleftrightarrow> bit (t_pending_signals t) n \<and> n \<noteq> unat sig)) \<and>
           (\<forall>q. q \<noteq> pid \<longrightarrow> get_task q s' = get_task q s)"
proof -
  define d where "d = t_pending_signals t AND NOT (t_signal_mask t)"
  have zero: "d = 0 \<longleftrightarrow> (\<forall>n < 64. \<not> deliverable t n)"
    using deliverable_bits [of _ t] by (simp add: word_bits_eq d_def)
  then show "fst (take_pending_signal pid s) = None \<longleftrightarrow> (\<forall>n < 64. \<not> deliverable t n)"
    using take_signal_none [OF assms] take_signal_some [OF assms d_def] by (cases "d = 0") (auto simp: d_def)
  assume i: "take_pending_signal pid s = (Some (sig, handler), s')"
  then have nz: "d \<noteq> 0" using take_signal_none [OF assms] by (auto simp: d_def)
  note low = lowest_bit_found [OF nz]
  have sig: "sig = of_nat (lowest_bit d)" "handler = t_signal_handlers t ! lowest_bit d"
    "s' = mod_task pid (\<lambda>t. t\<lparr>t_pending_signals := t_pending_signals t AND NOT (push_bit (lowest_bit d) 1)\<rparr>) s"
    using i take_signal_some [OF assms d_def nz] by auto
  have "lowest_bit d < 2 ^ 8" using low by simp
  then have u: "unat sig = lowest_bit d" unfolding sig(1) unat_of_nat by simp
  have "deliverable t n \<longleftrightarrow> bit d n" if "n < 64" for n using deliverable_bits [OF that] by (simp add: d_def)
  then have "deliverable t (lowest_bit d)" "\<forall>m < lowest_bit d. \<not> deliverable t m" using low by auto
  then show "unat sig < 64 \<and> deliverable t (unat sig) \<and> (\<forall>m < unat sig. \<not> deliverable t m) \<and>
      handler = t_signal_handlers t ! unat sig \<and>
      (\<exists>t'. get_task pid s' = Some t' \<and>
         (\<forall>n < 64. bit (t_pending_signals t') n \<longleftrightarrow> bit (t_pending_signals t) n \<and> n \<noteq> unat sig)) \<and>
      (\<forall>q. q \<noteq> pid \<longrightarrow> get_task q s' = get_task q s)"
    using low assms unfolding u sig(2,3) by (auto simp: bit_simps)
qed

text \<open>C12: taking a signal delivers the lowest pending signal that is not masked, with the handler
  registered for it, and clears only that bit of only that process; it answers nothing exactly
  when every pending signal is masked.\<close>

theorem signal_delivery:
  assumes "get_task pid s = Some t"
  shows "(fst (take_pending_signal pid s) = None \<longleftrightarrow> (\<forall>n < 64. \<not> deliverable t n)) \<and>
         (\<forall>sig handler s'. take_pending_signal pid s = (Some (sig, handler), s') \<longrightarrow>
           unat sig < 64 \<and> deliverable t (unat sig) \<and> (\<forall>m < unat sig. \<not> deliverable t m) \<and>
           handler = t_signal_handlers t ! unat sig \<and>
           (\<exists>t'. get_task pid s' = Some t' \<and>
              (\<forall>n < 64. bit (t_pending_signals t') n \<longleftrightarrow> bit (t_pending_signals t) n \<and> n \<noteq> unat sig)) \<and>
           (\<forall>q. q \<noteq> pid \<longrightarrow> get_task q s' = get_task q s))"
  using signal_delivery_cases [OF assms] by blast

lemma send_signal_pending:
  assumes "get_task pid s = Some t" and "n < 64"
  shows "\<exists>t'. get_task pid (send_signal pid n s) = Some t' \<and> bit (t_pending_signals t') (unat n) \<and>
           t_signal_mask t' = t_signal_mask t \<and> t_state t' \<noteq> Sleeping"
proof -
  have "bit (x OR push_bit (unat n) (1::u64)) (unat n)" for x :: u64
    using assms(2) by (simp add: bit_simps word_less_nat_alt)
  then show ?thesis
    using assms by (auto simp: send_signal_def Let_def task_field_def wake_pid_def)
qed

lemma sched_example_task: "get_task 0 sched_example = Some (new_idle 0x10000 0)"
  by (simp add: sched_example_def register_idle_task_def set_current_idle_def sched_boot_def IDLE_PID_def
      cpu_example_def) (simp add: get_task_def)

theorem signal_delivery_witness:
  "fst (take_pending_signal 0 sched_example) = None"
  using signal_delivery [OF sched_example_task] by (simp add: deliverable_def new_idle_def)

text \<open>A mask with bit 9 set holds back the kill signal.\<close>

lemma sigkill_can_be_masked:
  assumes "get_task pid s = Some t" and "t_pending_signals t = 0"
  shows "fst (take_pending_signal pid (kill_task pid code (set_signal_mask pid (- 1) s))) = None"
proof -
  let ?s = "set_signal_mask pid (- 1) s"
  have "get_task pid ?s = Some (t\<lparr>t_signal_mask := - 1\<rparr>)" using assms by (simp add: set_signal_mask_def)
  from send_signal_pending [OF this, of 9] obtain t' where
    t': "get_task pid (kill_task pid code ?s) = Some t'" "t_signal_mask t' = - 1"
    by (auto simp: kill_task_def)
  then have "\<forall>n < 64. \<not> deliverable t' n" by (simp add: deliverable_def)
  then show ?thesis using signal_delivery_cases(1) [OF t'(1)] by blast
qed

subsection \<open>A processor whose process is gone\<close>

text \<open>What can happen while no process is running: timer interrupts, wakeups and signals.\<close>

datatype event = Tick u64 | Wake Pid | Signal Pid u8

primrec run_event :: "'w Hooks \<Rightarrow> event \<Rightarrow> 'w Sched \<Rightarrow> 'w Sched" where
  "run_event h (Tick r) s = snd (schedule_from_interrupt h r s)"
| "run_event h (Wake p) s = wake_pid p s"
| "run_event h (Signal p n) s = send_signal p n s"

lemma current_enqueue [simp]: "current_pid (rq_enqueue p rq) = current_pid rq"
  by (simp add: rq_enqueue_def)

lemma current_wake [simp]: "current_pid (s_runq (wake_pid p s)) = current_pid (s_runq s)"
  by (simp add: wake_pid_def split: option.splits)

lemma current_signal [simp]: "current_pid (s_runq (send_signal p n s)) = current_pid (s_runq s)"
  by (simp add: send_signal_def Let_def)

lemma cpu_wake_signal [simp]: "s_cpu (wake_pid p s) = s_cpu s" "s_cpu (send_signal p n s) = s_cpu s"
  by (simp_all add: wake_pid_def send_signal_def Let_def split: option.splits)

lemma interrupt_without_current:
  "current_pid (s_runq s) = None \<Longrightarrow>
     schedule_from_interrupt h r s = (r, audio_tick h (s\<lparr>s_uptime := s_uptime s + 10\<rparr>))"
  by (simp add: schedule_from_interrupt_def Let_def)

lemma run_event_without_current:
  "current_pid (s_runq s) = None \<Longrightarrow>
     current_pid (s_runq (run_event h e s)) = None \<and> s_cpu (run_event h e s) = s_cpu s"
  by (cases e) (simp_all add: interrupt_without_current)

lemma run_events_without_current:
  "current_pid (s_runq s) = None \<Longrightarrow>
     current_pid (s_runq (fold (run_event h) es s)) = None \<and> s_cpu (fold (run_event h) es s) = s_cpu s"
  by (induction es arbitrary: s) (simp_all add: run_event_without_current)

lemma sleep_no_current:
  "current_pid (s_runq s) = Some pid \<Longrightarrow> current_pid (s_runq (sleep_current s)) = None \<and>
     s_cpu (sleep_current s) = s_cpu s"
  by (simp add: sleep_current_def rq_remove_def)

lemma zombie_no_current:
  "current_pid (s_runq s) = Some pid \<Longrightarrow> current_pid (s_runq (make_zombie pid code s)) = None \<and>
     s_cpu (make_zombie pid code s) = s_cpu s"
  by (simp add: make_zombie_def rq_remove_def)

lemma release_keeps: "release_memory c s = Some s' \<Longrightarrow> s_runq s' = s_runq s \<and> s_cpu s' = s_cpu s \<and>
     s_tasks s' = s_tasks s"
  by (auto simp: release_memory_def split: if_splits prod.splits bool.splits)

lemma exit_no_current:
  assumes "current_pid (s_runq s) = Some pid" and "pid \<noteq> 0" and "exit_current h code s = Some s'"
  shows "current_pid (s_runq s') = None \<and> s_cpu s' = s_cpu s"
  using assms zombie_no_current [OF assms(1), of code]
  by (auto simp: exit_current_def Let_def cleanup_tables_def record_wakeup_def
      dest!: release_keeps split: option.splits if_splits)

text \<open>C15: once the running process has gone to sleep or exited, no sequence of timer interrupts,
  wakeups and signals gives the processor to a process again: every later interrupt returns the
  interrupted stack pointer and the registers of the context switch keep their values, even with
  runnable processes in the queue.\<close>

theorem leaving_processor_ends_scheduling:
  assumes "current_pid (s_runq s) = Some pid" and "pid \<noteq> 0"
    and "s0 = sleep_current s \<or> exit_current h code s = Some s0"
  shows "current_pid (s_runq (fold (run_event h) es s0)) = None \<and>
         fst (schedule_from_interrupt h r (fold (run_event h) es s0)) = r \<and>
         s_cpu (snd (schedule_from_interrupt h r (fold (run_event h) es s0))) = s_cpu s"
proof -
  have "current_pid (s_runq s0) = None" "s_cpu s0 = s_cpu s"
    using assms(3) sleep_no_current [OF assms(1)] exit_no_current [OF assms(1,2)] by auto
  then show ?thesis
    using run_events_without_current [of s0 h es] by (simp add: interrupt_without_current)
qed

theorem leaving_processor_ends_scheduling_witness:
  "fst (schedule_from_interrupt hooks_example 0x8000
     (fold (run_event hooks_example) [Wake 3, Tick 0x8000, Signal 3 17]
        (sleep_current (on_runq (rq_set_current 5) sched_example)))) = 0x8000"
  using leaving_processor_ends_scheduling [of "on_runq (rq_set_current 5) sched_example" 5
      "sleep_current (on_runq (rq_set_current 5) sched_example)" hooks_example 0
      "[Wake 3, Tick 0x8000, Signal 3 17]" "0x8000"]
  by (simp add: rq_set_current_def)

subsection \<open>The direct exit\<close>

lemma direct_exit_error: "code \<noteq> 0 \<Longrightarrow> exit_current_direct h pid code s = None"
  by (simp add: exit_current_direct_def Let_def record_crash_hangs split: option.splits)

lemma get_task_release: "release_memory c s = Some s' \<Longrightarrow> get_task p s' = get_task p s"
  by (auto simp: get_task_def dest: release_keeps)

lemma direct_exit_parent:
  assumes "exit_current_direct h pid 0 s = Some s'" and "get_task pid s = Some t"
    and "t_parent_pid t \<noteq> 0" and "t_parent_pid t \<noteq> pid" and "get_task (t_parent_pid t) s = Some pt"
  shows "(\<exists>t'. get_task pid s' = Some t' \<and> t_state t' = Zombie \<and> t_exit_code t' = Some 0) \<and>
         (\<exists>pt'. get_task (t_parent_pid t) s' = Some pt' \<and> bit (t_pending_signals pt') 17 \<and>
            t_state pt' \<noteq> Sleeping)"
proof -
  let ?p = "t_parent_pid t"
  obtain s1 where r: "release_memory (t_cr3 t) (make_zombie pid 0 s) = Some s1"
    and s': "s' = send_signal ?p 17 (wake_pid ?p (cleanup_tables (h_cleanup_direct h) pid s1))"
    using assms(1-3) by (auto simp: exit_current_direct_def task_field_def Let_def split: option.splits)
  let ?s2 = "wake_pid ?p (cleanup_tables (h_cleanup_direct h) pid s1)"
  have g: "get_task q (cleanup_tables (h_cleanup_direct h) pid s1) = get_task q (make_zombie pid 0 s)" for q
    using get_task_release [OF r, of q] by (simp add: cleanup_tables_def get_task_def)
  have other: "get_task q (wake_pid p x) = get_task q x" if "q \<noteq> p" for q p and x :: "'a Sched"
    using that by (simp add: wake_pid_def split: option.splits)
  have "\<exists>t2. get_task ?p ?s2 = Some t2"
    using assms(4,5) g [of ?p] by (auto simp: make_zombie_def wake_pid_def)
  then have "\<exists>pt'. get_task ?p s' = Some pt' \<and> bit (t_pending_signals pt') 17 \<and> t_state pt' \<noteq> Sleeping"
    using send_signal_pending [of ?p ?s2 _ 17] unfolding s' by auto
  moreover have "get_task pid s' = get_task pid (make_zombie pid 0 s)"
    using assms(4) other [of pid ?p] g [of pid] unfolding s' by (auto simp: send_signal_def Let_def)
  ultimately show ?thesis using assms(2) by (simp add: make_zombie_def)
qed

text \<open>C19: the exit path used for a fatal signal or a failed program never gets to its parent: with
  a non-zero code it does not return, because recording the crash takes the lock of the crash ring
  a second time. With code 0 the process is a zombie and its parent is awake with SIGCHLD pending.\<close>

theorem direct_exit:
  "(code \<noteq> 0 \<longrightarrow> exit_current_direct h pid code s = None) \<and>
   (exit_current_direct h pid 0 s = Some s' \<and> get_task pid s = Some t \<and> t_parent_pid t \<noteq> 0 \<and>
      t_parent_pid t \<noteq> pid \<and> get_task (t_parent_pid t) s = Some pt \<longrightarrow>
      (\<exists>t'. get_task pid s' = Some t' \<and> t_state t' = Zombie \<and> t_exit_code t' = Some 0) \<and>
      (\<exists>pt'. get_task (t_parent_pid t) s' = Some pt' \<and> bit (t_pending_signals pt') 17 \<and>
         t_state pt' \<noteq> Sleeping))"
  using direct_exit_error direct_exit_parent by blast

theorem direct_exit_witness: "exit_current_direct hooks_example 0 1 sched_example = None"
  using direct_exit [of 1 hooks_example 0 sched_example] by simp

subsection \<open>User threads\<close>

lemma clone_poke_stays:
  assumes "pmm_inv (frames vm)" and "clone_shallow child t vm = Some (t', vm')" and "i < 20"
  shows "\<exists>A \<subseteq> free_space (frames vm). stays A vm' (poke (t_saved_kernel_rsp t' + 8 * of_nat i) v vm')"
proof -
  obtain a b where al: "alloc_order 2 (frames vm) = Some (a, b)"
    and top: "t_kernel_stack_top t' = phys_offset b + a + STACK_PAGES * PAGE_SIZE"
    and rsp: "t_saved_kernel_rsp t' = t_kernel_stack_top t' - FRAME_SIZE"
    and vm': "vm' = fork_frame (t_saved_kernel_rsp t) (t_saved_kernel_rsp t') (set_frames b vm)"
    by (rule clone_shallow_cases [OF assms(2)])
  note ok = alloc_order_correct [OF assms(1) al]
  have st: "stays (span a 2) (set_frames b vm) vm'" unfolding vm'
    by (rule fork_frame_stays) (use ok top rsp in \<open>auto simp: algebra_simps\<close>)
  have "stays (span a 2) vm' (poke (t_saved_kernel_rsp t' + 8 * of_nat i) v vm')"
  proof (rule poke_stays)
    show "unat (a + STACK_PAGES * PAGE_SIZE - FRAME_SIZE + 8 * of_nat i) \<in> span a 2"
      by (rule stack_frame_cell) (use ok assms(3) in auto)
  qed (use st ok top rsp in \<open>auto simp: stays_def keeps_outside_def algebra_simps\<close>)
  then show ?thesis using ok(3) by blast
qed

lemma thread_cases:
  assumes "spawn_user_thread h parent stk tls settls s = (Some child, s')"
  obtains t t' vm1 where "get_task parent s = Some t" and "child = s_next_pid s"
    and "clone_shallow child t (s_vm s) = Some (t', vm1)"
    and "s_vm s' = poke (t_saved_kernel_rsp t' + 144) stk vm1"
    and "get_task child s' =
           Some (t'\<lparr>t_fs_base := (if settls then tls else t_fs_base t'), t_parent_pid := parent\<rparr>)"
    and "s_runq s' = rq_enqueue child (s_runq s)"
  using assms
  by (auto simp: spawn_user_thread_def alloc_pid_def get_task_def Let_def split: option.splits)


subsection \<open>A machine with room for one kernel stack\<close>

definition pmm_stack :: BuddyAllocator where
  "pmm_stack = \<lparr>free_lists = [0, 0, 0x4000, 0, 0, 0, 0, 0, 0, 0, 0], free_pages = 4,
     total_pages = 4, phys_offset = 0, mem = (\<lambda>_. 0)\<rparr>"

lemma pick_order_stack: "pick_order 0x4000 0x8000 10 = 2"
  by code_simp

lemma pmm_stack_boot: "add_region 0x4000 0x8000 (buddy_new (\<lambda>_. 0)) = Some pmm_stack"
proof -
  have "add_region_loop 0x4000 0x8000 (buddy_new (\<lambda>_. 0)) =
        add_region_loop 0x8000 0x8000 (pmm_stack\<lparr>free_pages := 0\<rparr>)"
    by (subst add_region_loop.simps)
      (simp add: pmm_eval pick_order_stack buddy_new_def pmm_stack_def)
  also have "\<dots> = Some (pmm_stack\<lparr>free_pages := 0\<rparr>)"
    by (subst add_region_loop.simps) (simp add: pmm_eval)
  finally show ?thesis
    by (simp add: add_region_def align_up_def align_down_def PAGE_SIZE_def pmm_stack_def)
qed

lemma pmm_stack_inv: "pmm_inv pmm_stack" and pmm_stack_space: "free_space pmm_stack = {0x4000 ..< 0x8000}"
proof -
  obtain s where "add_region 0x4000 0x8000 (buddy_new (\<lambda>_. 0)) = Some s" and "pmm_inv s"
    and "free_space s = free_space (buddy_new (\<lambda>_. 0)) \<union> region_bytes 0x4000 0x8000"
    using add_region_correct [of "buddy_new (\<lambda>_. 0)" "0x4000" "0x8000"]
    by (auto simp: pmm_inv_new free_space_new)
  then show "pmm_inv pmm_stack" and "free_space pmm_stack = {0x4000 ..< 0x8000}"
    by (auto simp: pmm_stack_boot free_space_new region_bytes_def)
qed

definition sched_stack :: "unit Sched" where
  "sched_stack = register_idle_task (sched_boot ((cow_vm pmm_stack)\<lparr>frames := pmm_stack\<rparr>) cpu_example ())"

lemma sched_stack_facts:
  "s_vm sched_stack = (cow_vm pmm_stack)\<lparr>frames := pmm_stack\<rparr>"
  "get_task 0 sched_stack = Some (new_idle 0x10000 0)" "s_next_pid sched_stack = 1"
  by (simp_all add: sched_stack_def register_idle_task_def set_current_idle_def sched_boot_def IDLE_PID_def
      cpu_example_def) (simp add: get_task_def)

lemma pmm_stack_alloc: "\<exists>b. alloc_frames 2 pmm_stack = Some (0x4000, b)"
  by (simp add: alloc_frames_def alloc_order_def find_order_def pmm_eval pmm_stack_def)

lemma sched_stack_thread: "\<exists>s'. spawn_user_thread hooks_example 0 0x7000 0 False sched_stack = (Some 1, s')"
proof -
  obtain b where "alloc_frames 2 pmm_stack = Some (0x4000, b)" using pmm_stack_alloc by blast
  then show ?thesis
    using sched_stack_facts
    by (simp add: spawn_user_thread_def alloc_pid_def clone_shallow_def Let_def get_task_def)
qed


end
