(* ===== verification/Bytes.thy ===== *)
theory Bytes
  imports Prelude
begin

section \<open>Byte encodings of machine integers\<close>

text \<open>
  The conversions \<^verbatim>\<open>to_be_bytes\<close>, \<^verbatim>\<open>from_be_bytes\<close>, \<^verbatim>\<open>to_le_bytes\<close> and \<^verbatim>\<open>from_le_bytes\<close> of Rust's integer
  types, for every width, with the contract of a fixed-size codec that the wire formats and
  on-disk formats of the other theories rely on. Also the copy into a slice,
  \<^verbatim>\<open>copy_from_slice\<close>.
\<close>

type_synonym bytes = "u8 list"

definition from_be :: "bytes \<Rightarrow> 'a::len word" where
  "from_be bs = fold (\<lambda>b acc. push_bit 8 acc OR ucast b) bs 0"

definition to_be :: "nat \<Rightarrow> 'a::len word \<Rightarrow> bytes" where
  "to_be n x = map (\<lambda>i. ucast (drop_bit (8 * (n - 1 - i)) x)) [0..<n]"

definition from_le :: "bytes \<Rightarrow> 'a::len word" where
  "from_le bs = from_be (rev bs)"

definition to_le :: "nat \<Rightarrow> 'a::len word \<Rightarrow> bytes" where
  "to_le n x = rev (to_be n x)"

text \<open>Writing \<open>src\<close> over the cells of \<open>out\<close> from \<open>start\<close> on.\<close>

definition copy_at :: "nat \<Rightarrow> 'a list \<Rightarrow> 'a list \<Rightarrow> 'a list" where
  "copy_at start src out = take start out @ src @ drop (start + length src) out"

lemma word_eq_bits: "(x::'a::len word) = y \<longleftrightarrow> (\<forall>m < LENGTH('a). bit x m = bit y m)"
  by (auto intro: bit_word_eqI)

lemma and_push_bit_1: "n < LENGTH('a) \<Longrightarrow> (x::'a::len word) AND push_bit n 1 \<noteq> 0 \<longleftrightarrow> bit x n"
  by (auto simp: word_eq_bits bit_simps)

lemma length_copy_at [simp]: "start + length src \<le> length out \<Longrightarrow> length (copy_at start src out) = length out"
  by (simp add: copy_at_def)

lemma length_to_be [simp]: "length (to_be n x) = n"
  by (simp add: to_be_def)

lemma length_to_le [simp]: "length (to_le n x) = n"
  by (simp add: to_le_def)

lemma from_be_snoc: "from_be (bs @ [b]) = push_bit 8 (from_be bs) OR ucast b"
  by (simp add: from_be_def)

lemma bit_from_be:
  "bit (from_be bs :: 'a::len word) i \<longleftrightarrow>
     i < LENGTH('a) \<and> i < 8 * length bs \<and> bit (rev bs ! (i div 8)) (i mod 8)"
proof (induction bs arbitrary: i rule: rev_induct)
  case Nil
  then show ?case by (simp add: from_be_def)
next
  case (snoc b bs)
  show ?case
  proof (cases "i < 8")
    case True
    then show ?thesis
      by (auto simp: from_be_snoc bit_simps)
  next
    case False
    then obtain j where j: "i = j + 8" by (metis le_add_diff_inverse2 not_less)
    have "\<not> bit b i" using False bit_imp_le_length [of b i] by auto
    moreover have "(j + 8) div 8 = Suc (j div 8)" by simp
    ultimately show ?thesis using j snoc.IH [of j] by (auto simp: from_be_snoc bit_simps simp del: div_add_self2)
  qed
qed

lemma bit_to_be_nth:
  "i < n \<Longrightarrow> bit (to_be n x ! i) j \<longleftrightarrow> j < 8 \<and> bit x (8 * (n - 1 - i) + j)"
  by (auto simp: to_be_def bit_simps dest: bit_imp_le_length)

lemma from_to_be:
  assumes "LENGTH('a) \<le> 8 * n"
  shows "from_be (to_be n (x :: 'a::len word)) = x"
proof (rule bit_word_eqI)
  fix i assume i: "i < LENGTH('a)"
  then have "i div 8 < n" using assms by (simp add: div_less_iff_less_mult)
  then have "rev (to_be n x) ! (i div 8) = to_be n x ! (n - 1 - i div 8)"
    by (simp add: rev_nth)
  moreover have "bit (to_be n x ! (n - 1 - i div 8)) (i mod 8) \<longleftrightarrow> bit x i"
    using \<open>i div 8 < n\<close> by (subst bit_to_be_nth) auto
  ultimately show "bit (from_be (to_be n x) :: 'a word) i \<longleftrightarrow> bit x i"
    using i assms by (simp add: bit_from_be)
qed

lemma to_from_be:
  assumes "8 * length bs \<le> LENGTH('a)"
  shows "to_be (length bs) (from_be bs :: 'a::len word) = bs"
proof (rule nth_equalityI)
  fix i assume i: "i < length (to_be (length bs) (from_be bs :: 'a word))"
  show "to_be (length bs) (from_be bs :: 'a word) ! i = bs ! i"
  proof (rule bit_word_eqI)
    fix j assume j: "j < LENGTH(8)"
    let ?k = "8 * (length bs - 1 - i) + j"
    have "?k < 8 * length bs" "?k div 8 = length bs - 1 - i" "?k mod 8 = j" using i j by auto
    moreover have "rev bs ! (length bs - 1 - i) = bs ! i" using i by (simp add: rev_nth)
    ultimately show "bit (to_be (length bs) (from_be bs :: 'a word) ! i) j \<longleftrightarrow> bit (bs ! i) j"
      using i j assms by (simp add: bit_to_be_nth bit_from_be)
  qed
qed simp

lemma to_from_be_exact:
  "length bs = n \<Longrightarrow> 8 * n \<le> LENGTH('a) \<Longrightarrow> to_be n (from_be bs :: 'a::len word) = bs"
  using to_from_be by blast

subsection \<open>The contract of a fixed-size encoding\<close>

locale fixed_codec =
  fixes enc :: "'v \<Rightarrow> bytes" and dec :: "bytes \<Rightarrow> 'v" and size :: nat
  assumes enc_length: "length (enc v) = size"
    and dec_enc: "dec (enc v) = v"
    and enc_dec: "length bs = size \<Longrightarrow> enc (dec bs) = bs"
begin

lemma enc_inj: "enc v = enc w \<longleftrightarrow> v = w"
  by (metis dec_enc)

text \<open>A field at a known offset of a larger message.\<close>

lemma dec_field: "length pre = off \<Longrightarrow> dec (take size (drop off (pre @ enc v @ post))) = v"
  by (simp add: enc_length dec_enc)

lemma enc_surj: "length bs = size \<Longrightarrow> \<exists>v. bs = enc v"
  by (metis enc_dec)

end

interpretation be16: fixed_codec "to_be 2" "from_be :: bytes \<Rightarrow> u16" 2
  by unfold_locales (simp_all add: from_to_be to_from_be_exact)

interpretation be32: fixed_codec "to_be 4" "from_be :: bytes \<Rightarrow> u32" 4
  by unfold_locales (simp_all add: from_to_be to_from_be_exact)

interpretation be64: fixed_codec "to_be 8" "from_be :: bytes \<Rightarrow> u64" 8
  by unfold_locales (simp_all add: from_to_be to_from_be_exact)

interpretation le16: fixed_codec "to_le 2" "from_le :: bytes \<Rightarrow> u16" 2
  by unfold_locales (use be16.dec_enc be16.enc_dec in \<open>auto simp: to_le_def from_le_def\<close>)

interpretation le32: fixed_codec "to_le 4" "from_le :: bytes \<Rightarrow> u32" 4
  by unfold_locales (use be32.dec_enc be32.enc_dec in \<open>auto simp: to_le_def from_le_def\<close>)

interpretation le64: fixed_codec "to_le 8" "from_le :: bytes \<Rightarrow> u64" 8
  by unfold_locales (use be64.dec_enc be64.enc_dec in \<open>auto simp: to_le_def from_le_def\<close>)

end
