(* ===== verification/Wpa_Hash.thy ===== *)
theory Wpa_Hash
  imports Bytes "HOL-Library.List_Lexorder"
begin

section \<open>WPA2 key derivation: SHA-1, HMAC, PBKDF2 and the pairwise key\<close>

text \<open>
  Model of the hash half of \<^verbatim>\<open>kernel/src/wifi/crypto.rs\<close>: the streaming SHA-1 state with its 64-byte
  buffer, HMAC over one or several slices, PBKDF2, PRF-384 and the derivation of the pairwise
  transient key. The streaming hash is proved equal to the one-shot definition of FIPS 180-4
  (pad, then fold the compression function over 64-byte blocks), and the layers above it to their
  RFC definitions.
\<close>

subsection \<open>SHA-1\<close>

abbreviation (input) H0 :: u32 where "H0 \<equiv> 0x67452301"

abbreviation (input) H1 :: u32 where "H1 \<equiv> 0xEFCDAB89"

abbreviation (input) H2 :: u32 where "H2 \<equiv> 0x98BADCFE"

abbreviation (input) H3 :: u32 where "H3 \<equiv> 0x10325476"

abbreviation (input) H4 :: u32 where "H4 \<equiv> 0xC3D2E1F0"

record Sha1 =
  sha_state :: "u32 list"
  sha_buf :: bytes
  sha_buflen :: nat
  sha_total :: u64

definition sha1_new :: Sha1 where
  "sha1_new = \<lparr>sha_state = [H0, H1, H2, H3, H4], sha_buf = replicate 64 0, sha_buflen = 0, sha_total = 0\<rparr>"

text \<open>The message schedule: sixteen words from the buffer, extended to eighty.\<close>

definition sha1_schedule :: "bytes \<Rightarrow> u32 list" where
  "sha1_schedule buf =
     fold (\<lambda>i w. w[i := word_rotl 1 (w ! (i - 3) XOR w ! (i - 8) XOR w ! (i - 14) XOR w ! (i - 16))])
       [16..<80]
       (map (\<lambda>i. from_be [buf ! (i * 4), buf ! (i * 4 + 1), buf ! (i * 4 + 2), buf ! (i * 4 + 3)]) [0..<16]
        @ replicate 64 0)"

definition sha1_fk :: "nat \<Rightarrow> u32 \<Rightarrow> u32 \<Rightarrow> u32 \<Rightarrow> u32 \<times> u32" where
  "sha1_fk i b c d =
     (if i \<le> 19 then ((b AND c) OR (NOT b AND d), 0x5A827999)
      else if i \<le> 39 then (b XOR c XOR d, 0x6ED9EBA1)
      else if i \<le> 59 then ((b AND c) OR (b AND d) OR (c AND d), 0x8F1BBCDC)
      else (b XOR c XOR d, 0xCA62C1D6))"

fun sha1_round :: "u32 list \<Rightarrow> nat \<Rightarrow> u32 \<times> u32 \<times> u32 \<times> u32 \<times> u32 \<Rightarrow> u32 \<times> u32 \<times> u32 \<times> u32 \<times> u32" where
  "sha1_round w i (a, b, c, d, e) =
     (let (f, k) = sha1_fk i b c d;
          temp = word_rotl 5 a + f + e + k + w ! i
      in (temp, a, word_rotl 30 b, c, d))"

definition compress_state :: "u32 list \<Rightarrow> bytes \<Rightarrow> u32 list" where
  "compress_state st buf =
     (let w = sha1_schedule buf;
          (a, b, c, d, e) = fold (sha1_round w) [0..<80] (st ! 0, st ! 1, st ! 2, st ! 3, st ! 4)
      in [st ! 0 + a, st ! 1 + b, st ! 2 + c, st ! 3 + d, st ! 4 + e])"

definition sha1_compress :: "Sha1 \<Rightarrow> Sha1" where
  "sha1_compress h = h\<lparr>sha_state := compress_state (sha_state h) (sha_buf h)\<rparr>"

text \<open>
  The loop of \<^verbatim>\<open>update\<close> over the rest of the data. The buffer always has room, so each round takes
  at least one byte and as many rounds as there are bytes are enough (\<open>update_absorbs\<close> below).
\<close>

primrec sha1_update_loop :: "nat \<Rightarrow> bytes \<Rightarrow> Sha1 \<Rightarrow> Sha1" where
  "sha1_update_loop 0 data h = h"
| "sha1_update_loop (Suc n) data h =
     (if data = [] then h
      else let space = 64 - sha_buflen h;
               tk = min space (length data);
               h1 = h\<lparr>sha_buf := copy_at (sha_buflen h) (take tk data) (sha_buf h),
                      sha_buflen := sha_buflen h + tk\<rparr>;
               h2 = (if sha_buflen h1 = 64 then (sha1_compress h1)\<lparr>sha_buflen := 0\<rparr> else h1)
           in sha1_update_loop n (drop tk data) h2)"

definition sha1_update :: "bytes \<Rightarrow> Sha1 \<Rightarrow> Sha1" where
  "sha1_update data h =
     sha1_update_loop (length data) data (h\<lparr>sha_total := sha_total h + of_nat (length data)\<rparr>)"

text \<open>Zeroing the buffer from the fill level to \<open>lim\<close>.\<close>

definition zero_to :: "nat \<Rightarrow> Sha1 \<Rightarrow> Sha1" where
  "zero_to lim h = h\<lparr>sha_buf := copy_at (sha_buflen h) (replicate (lim - sha_buflen h) 0) (sha_buf h)\<rparr>"

definition sha1_finalize :: "Sha1 \<Rightarrow> bytes" where
  "sha1_finalize h =
     (let bit_len = sha_total h * 8;
          h1 = h\<lparr>sha_buf := (sha_buf h)[sha_buflen h := 0x80], sha_buflen := sha_buflen h + 1\<rparr>;
          h2 = (if 56 < sha_buflen h1 then (sha1_compress (zero_to 64 h1))\<lparr>sha_buflen := 0\<rparr> else h1);
          h3 = zero_to 56 h2;
          h4 = sha1_compress (h3\<lparr>sha_buf := copy_at 56 (to_be 8 bit_len) (sha_buf h3)\<rparr>)
      in concat (map (to_be 4) (sha_state h4)))"

definition sha1 :: "bytes \<Rightarrow> bytes" where
  "sha1 data = sha1_finalize (sha1_update data sha1_new)"

subsection \<open>HMAC, PBKDF2 and the pairwise key\<close>

definition hmac_key :: "bytes \<Rightarrow> bytes" where
  "hmac_key key =
     (if 64 < length key then copy_at 0 (sha1 key) (replicate 64 0) else copy_at 0 key (replicate 64 0))"

definition hmac_sha1 :: "bytes \<Rightarrow> bytes \<Rightarrow> bytes" where
  "hmac_sha1 key data =
     (let k = hmac_key key;
          ipad = map (\<lambda>b. b XOR 0x36) k;
          opad = map (\<lambda>b. b XOR 0x5C) k;
          inner_hash = sha1_finalize (sha1_update data (sha1_update ipad sha1_new))
      in sha1_finalize (sha1_update inner_hash (sha1_update opad sha1_new)))"

definition hmac_sha1_multi :: "bytes \<Rightarrow> bytes list \<Rightarrow> bytes" where
  "hmac_sha1_multi key parts =
     (let k = hmac_key key;
          ipad = map (\<lambda>b. b XOR 0x36) k;
          opad = map (\<lambda>b. b XOR 0x5C) k;
          inner_hash = sha1_finalize (fold sha1_update parts (sha1_update ipad sha1_new))
      in sha1_finalize (sha1_update inner_hash (sha1_update opad sha1_new)))"

text \<open>One output block: \<open>n\<close> more applications of the MAC, all xored together.\<close>

primrec pbkdf2_rounds :: "nat \<Rightarrow> bytes \<Rightarrow> bytes \<Rightarrow> bytes \<Rightarrow> bytes" where
  "pbkdf2_rounds 0 password u t = t"
| "pbkdf2_rounds (Suc n) password u t =
     (let u1 = hmac_sha1 password u in pbkdf2_rounds n password u1 (map2 (XOR) t u1))"

definition pbkdf2_block :: "bytes \<Rightarrow> bytes \<Rightarrow> u32 \<Rightarrow> nat \<Rightarrow> bytes" where
  "pbkdf2_block password salt iterations b =
     (let u = hmac_sha1_multi password [salt, to_be 4 (of_nat b :: u32)]
      in pbkdf2_rounds (unat iterations - 1) password u u)"

text \<open>Copying block \<open>k\<close> of 20 bytes into the output, cut at its end.\<close>

definition put_block :: "nat \<Rightarrow> bytes \<Rightarrow> bytes \<Rightarrow> bytes" where
  "put_block k t out =
     (let start = k * 20; end = min (length out) (start + 20) in copy_at start (take (end - start) t) out)"

definition pbkdf2_sha1 :: "bytes \<Rightarrow> bytes \<Rightarrow> u32 \<Rightarrow> bytes \<Rightarrow> bytes" where
  "pbkdf2_sha1 password salt iterations out =
     (let blocks = (length out + 20 - 1) div 20
      in fold (\<lambda>b out. put_block (b - 1) (pbkdf2_block password salt iterations b) out) [1..<blocks + 1] out)"

definition derive_pmk :: "bytes \<Rightarrow> bytes \<Rightarrow> bytes" where
  "derive_pmk passphrase ssid = pbkdf2_sha1 passphrase ssid 4096 (replicate 32 0)"

definition prf_384 :: "bytes \<Rightarrow> bytes \<Rightarrow> bytes \<Rightarrow> bytes" where
  "prf_384 key label data =
     (let iterations = (48 + 19) div 20
      in fold (\<lambda>i out. put_block i (hmac_sha1_multi key [label, [0], data, [of_nat i]]) out)
           [0..<iterations] (replicate 48 0))"

definition ptk_label :: bytes where
  "ptk_label = map (\<lambda>c. of_nat (of_char c)) ''Pairwise key expansion''"

definition derive_ptk :: "bytes \<Rightarrow> bytes \<Rightarrow> bytes \<Rightarrow> bytes \<Rightarrow> bytes \<Rightarrow> bytes" where
  "derive_ptk pmk anonce snonce ap_mac sta_mac =
     (let (mac_min, mac_max) = (if ap_mac < sta_mac then (ap_mac, sta_mac) else (sta_mac, ap_mac));
          (nn_min, nn_max) = (if anonce < snonce then (anonce, snonce) else (snonce, anonce))
      in prf_384 pmk ptk_label (mac_min @ mac_max @ nn_min @ nn_max))"

subsection \<open>The streaming hash is SHA-1\<close>

text \<open>FIPS 180-4: pad to a multiple of 64 bytes with the bit length, then compress block by block.\<close>

definition sha1_init :: "u32 list" where
  "sha1_init = [H0, H1, H2, H3, H4]"

function sha1_blocks :: "u32 list \<Rightarrow> bytes \<Rightarrow> u32 list" where
  "sha1_blocks st m =
     (if length m < 64 then st else sha1_blocks (compress_state st (take 64 m)) (drop 64 m))"
  by pat_completeness auto
termination by (relation "measure (length \<circ> snd)") auto

declare sha1_blocks.simps [simp del]

definition sha1_pad :: "bytes \<Rightarrow> bytes" where
  "sha1_pad m = m @ [0x80] @ replicate ((119 - length m mod 64) mod 64) 0 @ to_be 8 (of_nat (8 * length m) :: u64)"

definition sha1_spec :: "bytes \<Rightarrow> bytes" where
  "sha1_spec m = concat (map (to_be 4) (sha1_blocks sha1_init (sha1_pad m)))"

lemma sha1_blocks_short: "length m < 64 \<Longrightarrow> sha1_blocks st m = st"
  by (subst sha1_blocks.simps) simp

lemma sha1_blocks_block: "length b = 64 \<Longrightarrow> sha1_blocks st (b @ m) = sha1_blocks (compress_state st b) m"
  by (subst sha1_blocks.simps) simp

lemma sha1_blocks_append:
  "64 dvd length m \<Longrightarrow> sha1_blocks st (m @ n) = sha1_blocks (sha1_blocks st m) n"
proof (induction st m rule: sha1_blocks.induct)
  case (1 st m)
  show ?case
  proof (cases "length m < 64")
    case True
    then have "m = []" using 1(2) by auto
    then show ?thesis by (simp add: sha1_blocks_short)
  next
    case False
    then have b: "length (take 64 m) = 64" by simp
    have "64 dvd length (drop 64 m)" using 1(2) by (auto simp: dvd_diff_nat)
    then have "sha1_blocks (compress_state st (take 64 m)) (drop 64 m @ n) =
        sha1_blocks (sha1_blocks (compress_state st (take 64 m)) (drop 64 m)) n"
      using 1(1) False by simp
    then show ?thesis
      using sha1_blocks_block [OF b, of st "drop 64 m @ n"] sha1_blocks_block [OF b, of st "drop 64 m"]
      by (simp flip: append_assoc)
  qed
qed

text \<open>\<open>absorbed h m\<close>: the state \<open>h\<close> has read exactly the message \<open>m\<close>.\<close>

definition absorbed :: "Sha1 \<Rightarrow> bytes \<Rightarrow> bool" where
  "absorbed h m \<longleftrightarrow> length (sha_buf h) = 64 \<and> sha_total h = of_nat (length m) \<and> sha_buflen h < 64 \<and>
     (\<exists>done. m = done @ take (sha_buflen h) (sha_buf h) \<and> 64 dvd length done \<and>
        sha_state h = sha1_blocks sha1_init done)"

lemma absorbed_new: "absorbed sha1_new []"
  by (simp add: absorbed_def sha1_new_def sha1_init_def sha1_blocks_short)

lemma copy_at_take: "n \<le> length out \<Longrightarrow> take (n + length src) (copy_at n src out) = take n out @ src"
  by (simp add: copy_at_def)

text \<open>\<open>reads h m\<close>: the part of \<open>absorbed\<close> without the byte count, which \<^verbatim>\<open>update\<close> advances first.\<close>

definition reads :: "Sha1 \<Rightarrow> bytes \<Rightarrow> bool" where
  "reads h m \<longleftrightarrow> length (sha_buf h) = 64 \<and> sha_buflen h < 64 \<and>
     (\<exists>pre. m = pre @ take (sha_buflen h) (sha_buf h) \<and> 64 dvd length pre \<and>
        sha_state h = sha1_blocks sha1_init pre)"

lemma absorbed_reads: "absorbed h m \<longleftrightarrow> reads h m \<and> sha_total h = of_nat (length m)"
  by (auto simp: absorbed_def reads_def)

lemma reads_fill:
  assumes "reads h m" and "sha_buflen h + length d < 64"
  shows "reads (h\<lparr>sha_buf := copy_at (sha_buflen h) d (sha_buf h), sha_buflen := sha_buflen h + length d\<rparr>) (m @ d)"
  using assms by (auto simp: reads_def copy_at_take)

lemma reads_block:
  assumes "reads h m" and "sha_buflen h + length d = 64"
  shows "reads ((sha1_compress (h\<lparr>sha_buf := copy_at (sha_buflen h) d (sha_buf h),
                                sha_buflen := sha_buflen h + length d\<rparr>))\<lparr>sha_buflen := 0\<rparr>) (m @ d)"
proof -
  obtain pre where pre: "m = pre @ take (sha_buflen h) (sha_buf h)" "64 dvd length pre"
    "sha_state h = sha1_blocks sha1_init pre" using assms(1) by (auto simp: reads_def)
  let ?buf = "copy_at (sha_buflen h) d (sha_buf h)"
  have lb: "length ?buf = 64" using assms by (simp add: reads_def)
  have "take (sha_buflen h + length d) ?buf = take (sha_buflen h) (sha_buf h) @ d"
    using assms(1) by (intro copy_at_take) (simp add: reads_def)
  then have "m @ d = pre @ ?buf" using lb assms(2) pre(1) by simp
  moreover have "compress_state (sha_state h) ?buf = sha1_blocks sha1_init (pre @ ?buf)"
    using pre sha1_blocks_append [of pre] sha1_blocks_block [OF lb, of _ "[]"]
    by (simp add: sha1_blocks_short)
  ultimately show ?thesis using lb pre(2) by (auto simp: reads_def sha1_compress_def)
qed

lemma update_loop_reads:
  assumes "length data \<le> n" and "reads h m"
  shows "reads (sha1_update_loop n data h) (m @ data) \<and> sha_total (sha1_update_loop n data h) = sha_total h"
  using assms
proof (induction n arbitrary: data h m)
  case (Suc n)
  let ?tk = "min (64 - sha_buflen h) (length data)"
  let ?d = "take ?tk data"
  define h1 where "h1 = h\<lparr>sha_buf := copy_at (sha_buflen h) ?d (sha_buf h), sha_buflen := sha_buflen h + ?tk\<rparr>"
  define h2 where "h2 = (if sha_buflen h1 = 64 then (sha1_compress h1)\<lparr>sha_buflen := 0\<rparr> else h1)"
  show ?case
  proof (cases "data = []")
    case True
    then show ?thesis using Suc.prems by simp
  next
    case False
    have room: "sha_buflen h < 64" using Suc.prems(2) by (simp add: reads_def)
    then have ld: "length ?d = ?tk" "0 < ?tk" using False by auto
    have "reads h2 (m @ ?d)"
    proof (cases "sha_buflen h + ?tk = 64")
      case True
      then show ?thesis using reads_block [OF Suc.prems(2), of ?d] unfolding ld(1) by (simp add: h2_def h1_def)
    next
      case part: False
      then have "sha_buflen h + length ?d < 64" unfolding ld(1) using room by linarith
      then show ?thesis
        using reads_fill [OF Suc.prems(2), of ?d] part unfolding ld(1) by (simp add: h2_def h1_def)
    qed
    moreover have "length (drop ?tk data) \<le> n" using Suc.prems(1) ld(2) by (simp add: min_def)
    ultimately have "reads (sha1_update_loop n (drop ?tk data) h2) ((m @ ?d) @ drop ?tk data) \<and>
        sha_total (sha1_update_loop n (drop ?tk data) h2) = sha_total h2" by (intro Suc.IH)
    moreover have "sha1_update_loop (Suc n) data h = sha1_update_loop n (drop ?tk data) h2"
      using False by (simp only: sha1_update_loop.simps Let_def h2_def h1_def if_False)
    moreover have "sha_total h2 = sha_total h" by (simp add: h2_def h1_def sha1_compress_def)
    ultimately show ?thesis by (simp only: append_assoc append_take_drop_id)
  qed
qed simp

lemma update_absorbs: "absorbed h m \<Longrightarrow> absorbed (sha1_update data h) (m @ data)"
  using update_loop_reads [of data "length data" "h\<lparr>sha_total := sha_total h + of_nat (length data)\<rparr>" m]
  by (simp add: absorbed_reads sha1_update_def reads_def)

lemma updates_absorb: "absorbed h m \<Longrightarrow> absorbed (fold sha1_update parts h) (m @ concat parts)"
proof (induction parts arbitrary: h m)
  case (Cons p parts)
  show ?case using Cons.IH [OF update_absorbs [OF Cons.prems], of p] by simp
qed simp

lemma take_mark: "n < length buf \<Longrightarrow> take (n + 1) (buf[n := x]) = take n buf @ [x]"
  by (simp add: take_Suc_conv_app_nth)

text \<open>A buffer that is filled to its end by the last copy.\<close>

lemma copy_at_end: "n + length src = length out \<Longrightarrow> copy_at n src out = take n out @ src"
  by (simp add: copy_at_def)

lemma marked_buffer:
  assumes "length buf = 64" and "n < 64" and "n + 1 + k \<le> 64"
  shows "take (n + 1 + k) (copy_at (n + 1) (replicate k 0) (buf[n := x])) = take n buf @ x # replicate k 0"
  using assms take_mark [of n buf x] by (simp add: copy_at_def)

lemma finalize_short:
  assumes "length (sha_buf h) = 64" and "sha_buflen h < 56"
  shows "sha1_finalize h = concat (map (to_be 4) (compress_state (sha_state h)
     (take (sha_buflen h) (sha_buf h) @ 0x80 # replicate (55 - sha_buflen h) 0 @ to_be 8 (sha_total h * 8))))"
proof -
  let ?n = "sha_buflen h"
  let ?b = "copy_at (?n + 1) (replicate (55 - ?n) 0) ((sha_buf h)[?n := 0x80])"
  have "length ?b = 64" using assms by simp
  then have "copy_at 56 (to_be 8 (sha_total h * 8)) ?b = take 56 ?b @ to_be 8 (sha_total h * 8)"
    by (intro copy_at_end) simp
  moreover have "take 56 ?b = take ?n (sha_buf h) @ 0x80 # replicate (55 - ?n) 0"
    using marked_buffer [of "sha_buf h" ?n "55 - ?n" "0x80"] assms by simp
  ultimately show ?thesis using assms
    by (simp add: sha1_finalize_def Let_def zero_to_def sha1_compress_def)
qed

lemma finalize_long:
  assumes "length (sha_buf h) = 64" and "56 \<le> sha_buflen h" and "sha_buflen h < 64"
  shows "sha1_finalize h = concat (map (to_be 4)
     (compress_state (compress_state (sha_state h)
        (take (sha_buflen h) (sha_buf h) @ 0x80 # replicate (63 - sha_buflen h) 0))
      (replicate 56 0 @ to_be 8 (sha_total h * 8))))"
proof -
  let ?n = "sha_buflen h"
  let ?b = "copy_at (?n + 1) (replicate (63 - ?n) 0) ((sha_buf h)[?n := 0x80])"
  have lb: "length ?b = 64" using assms by simp
  then have "?b = take ?n (sha_buf h) @ 0x80 # replicate (63 - ?n) 0"
    using marked_buffer [of "sha_buf h" ?n "63 - ?n" "0x80"] assms by simp
  moreover have "copy_at 56 (to_be 8 (sha_total h * 8)) (copy_at 0 (replicate 56 0) ?b) =
      replicate 56 0 @ to_be 8 (sha_total h * 8)"
    using lb by (simp add: copy_at_def)
  moreover have "\<not> sha_buflen h + 1 \<le> 56" using assms by simp
  ultimately show ?thesis using assms
    by (simp add: sha1_finalize_def Let_def zero_to_def sha1_compress_def)
qed

lemma finalize_spec:
  assumes "absorbed h m"
  shows "sha1_finalize h = sha1_spec m"
proof -
  let ?n = "sha_buflen h" and ?r = "take (sha_buflen h) (sha_buf h)"
  let ?L = "to_be 8 (sha_total h * 8)"
  obtain pre where m: "m = pre @ ?r" "64 dvd length pre" "sha_state h = sha1_blocks sha1_init pre"
    and h: "length (sha_buf h) = 64" "?n < 64" "sha_total h = of_nat (length m)"
    using assms by (auto simp: absorbed_def)
  have lr: "length ?r = ?n" using h by simp
  have md: "length m mod 64 = ?n" using m lr h(2) by (auto elim!: dvdE)
  have L: "to_be 8 (of_nat (8 * length m) :: u64) = ?L" using h(3) by (simp add: mult.commute)
  have pad: "sha1_pad m = pre @ ?r @ 0x80 # replicate ((119 - ?n) mod 64) 0 @ ?L"
    unfolding sha1_pad_def md L using m(1) by simp
  have fin: "sha1_blocks st b = compress_state st b" if "length b = 64" for st b
    using sha1_blocks_block [OF that, of st "[]"] by (simp add: sha1_blocks_short)
  show ?thesis
  proof (cases "?n < 56")
    case True
    then have "(119 - ?n) mod 64 = 55 - ?n" by (simp add: mod_if)
    then have "sha1_blocks sha1_init (sha1_pad m) =
        compress_state (sha_state h) (?r @ 0x80 # replicate (55 - ?n) 0 @ ?L)"
      using sha1_blocks_append [OF m(2)] fin [of "?r @ 0x80 # replicate (55 - ?n) 0 @ ?L"] True lr m(3)
      unfolding pad by simp
    then show ?thesis using finalize_short [OF h(1) True] by (simp add: sha1_spec_def)
  next
    case False
    then have k: "(119 - ?n) mod 64 = (63 - ?n) + 56" using h(2) by (simp add: mod_if)
    have pad2: "sha1_pad m = pre @ (?r @ 0x80 # replicate (63 - ?n) 0) @ (replicate 56 0 @ ?L)"
      unfolding pad k replicate_add by simp
    have b1: "length (?r @ 0x80 # replicate (63 - ?n) 0) = 64" using lr h(2) by simp
    have "sha1_blocks sha1_init (sha1_pad m) =
        compress_state (compress_state (sha_state h) (?r @ 0x80 # replicate (63 - ?n) 0)) (replicate 56 0 @ ?L)"
      unfolding pad2 sha1_blocks_append [OF m(2)] sha1_blocks_block [OF b1] m(3) by (rule fin) simp
    then show ?thesis using finalize_long [OF h(1)] False h(2) by (simp add: sha1_spec_def)
  qed
qed

lemma sha1_parts: "sha1_finalize (fold sha1_update parts sha1_new) = sha1_spec (concat parts)"
  using finalize_spec [OF updates_absorb [OF absorbed_new]] by simp

text \<open>C26: however a message is cut into slices, feeding them to the streaming hash one after the
  other gives the FIPS 180-4 hash of the whole message: blocks that span slices, an empty slice
  and a last block without room for the length included.\<close>

theorem sha1_streaming:
  "sha1_finalize (fold sha1_update parts sha1_new) = sha1_spec (concat parts) \<and> sha1 m = sha1_spec m"
  using sha1_parts [of parts] sha1_parts [of "[m]"] by (simp add: sha1_def)

lemma sha1_eq_spec: "sha1 m = sha1_spec m"
  using sha1_parts [of "[m]"] by (simp add: sha1_def)

lemma length_concat_be4: "length (concat (map (to_be 4) xs)) = 4 * length xs"
  by (induction xs) simp_all

lemma length_compress: "length (compress_state st b) = 5"
  by (simp add: compress_state_def Let_def split: prod.split)

lemma length_sha1_blocks: "length st = 5 \<Longrightarrow> length (sha1_blocks st m) = 5"
  by (induction st m rule: sha1_blocks.induct) (subst sha1_blocks.simps, simp add: length_compress)

lemma length_sha1_spec: "length (sha1_spec m) = 20"
  by (simp add: sha1_spec_def length_concat_be4 length_sha1_blocks sha1_init_def)

subsection \<open>HMAC and PBKDF2 are their RFC definitions\<close>

text \<open>RFC 2104.\<close>

definition hmac_spec :: "bytes \<Rightarrow> bytes \<Rightarrow> bytes" where
  "hmac_spec key m =
     (let k = (if 64 < length key then sha1_spec key else key);
          k64 = k @ replicate (64 - length k) 0
      in sha1_spec (map (\<lambda>b. b XOR 0x5C) k64 @ sha1_spec (map (\<lambda>b. b XOR 0x36) k64 @ m)))"

text \<open>RFC 2898: block \<open>i\<close> is the exclusive or of \<open>c\<close> iterates of the MAC.\<close>

definition pbkdf2_T :: "bytes \<Rightarrow> bytes \<Rightarrow> nat \<Rightarrow> nat \<Rightarrow> bytes" where
  "pbkdf2_T p salt c i =
     (let u1 = hmac_spec p (salt @ to_be 4 (of_nat i :: u32))
      in fold (\<lambda>j t. map2 (XOR) t ((hmac_spec p ^^ j) u1)) [1..<c] u1)"

definition pbkdf2_spec :: "bytes \<Rightarrow> bytes \<Rightarrow> nat \<Rightarrow> nat \<Rightarrow> bytes" where
  "pbkdf2_spec p salt c n = take n (concat (map (pbkdf2_T p salt c) [1..<(n + 19) div 20 + 1]))"

lemma hmac_key_spec:
  "hmac_key key = (let k = (if 64 < length key then sha1_spec key else key) in k @ replicate (64 - length k) 0)"
  by (simp add: hmac_key_def copy_at_def sha1_eq_spec Let_def)

lemma hmac_multi_spec: "hmac_sha1_multi key parts = hmac_spec key (concat parts)"
proof -
  have a: "sha1_finalize (fold sha1_update parts (sha1_update x sha1_new)) = sha1_spec (x @ concat parts)"
    and b: "sha1_finalize (sha1_update y (sha1_update x sha1_new)) = sha1_spec (x @ y)" for x y
    using sha1_parts [of "x # parts"] sha1_parts [of "[x, y]"] by simp_all
  show ?thesis by (simp add: hmac_sha1_multi_def hmac_spec_def hmac_key_spec a b Let_def)
qed

lemma hmac_spec_eq: "hmac_sha1 key data = hmac_spec key data"
  using hmac_multi_spec [of key "[data]"] by (simp add: hmac_sha1_multi_def hmac_sha1_def)

lemma length_hmac: "length (hmac_spec key m) = 20"
  by (simp add: hmac_spec_def length_sha1_spec Let_def)

lemma pbkdf2_rounds_fold:
  "pbkdf2_rounds n p u t = fold (\<lambda>j t. map2 (XOR) t ((hmac_spec p ^^ j) u)) [1..<n + 1] t"
proof (induction n arbitrary: u t)
  case (Suc n)
  have r: "[1..<Suc n + 1] = 1 # map Suc [1..<n + 1]" by (simp add: upt_conv_Cons map_Suc_upt del: upt_Suc)
  have it: "(hmac_spec p ^^ Suc j) u = (hmac_spec p ^^ j) (hmac_spec p u)" for j
    by (simp add: funpow_swap1)
  show ?case unfolding r using Suc.IH [of "hmac_spec p u" "map2 (XOR) t (hmac_spec p u)"]
    by (simp add: hmac_spec_eq Let_def fold_map comp_def it del: funpow.simps)
qed simp

lemma pbkdf2_block_spec: "pbkdf2_block p salt c i = pbkdf2_T p salt (unat c) i"
proof (cases "unat c")
  case 0
  then show ?thesis by (simp add: pbkdf2_block_def pbkdf2_T_def hmac_multi_spec Let_def)
next
  case (Suc k)
  then show ?thesis
    using pbkdf2_rounds_fold [of k] by (simp add: pbkdf2_block_def pbkdf2_T_def hmac_multi_spec Let_def)
qed

lemma length_fold_xor: "\<forall>x \<in> set xs. length (f x) = length t \<Longrightarrow> length (fold (\<lambda>j t. map2 (XOR) t (f j)) xs t) = length t"
  by (induction xs arbitrary: t) simp_all

lemma length_pbkdf2_T: "length (pbkdf2_T p salt c i) = 20"
proof -
  have "length ((hmac_spec p ^^ j) u) = 20" if "length u = 20" for j and u :: bytes
    by (cases j) (simp_all add: length_hmac that)
  then show ?thesis by (simp add: pbkdf2_T_def Let_def length_fold_xor length_hmac)
qed

text \<open>Blocks of twenty bytes copied one after the other fill the output from the left.\<close>

lemma length_put_block: "length t = 20 \<Longrightarrow> k * 20 \<le> length out \<Longrightarrow> length (put_block k t out) = length out"
  by (simp add: put_block_def Let_def)

lemma put_blocks_prefix:
  assumes "\<forall>i. length (f i) = 20" and "k * 20 < length out + 20"
  shows "fold (\<lambda>i. put_block i (f i)) [0..<k] out =
     take (length out) (concat (map f [0..<k])) @ drop (k * 20) out"
  using assms(2)
proof (induction k)
  case (Suc k)
  have lc: "length (concat (map f [0..<k])) = k * 20"
    using assms(1) by (induction k) simp_all
  let ?o = "concat (map f [0..<k]) @ drop (k * 20) out"
  have k: "k * 20 < length out" using Suc.prems by simp
  then have IH: "fold (\<lambda>i. put_block i (f i)) [0..<k] out = ?o" using Suc.IH lc by simp
  have lo: "length ?o = length out" using lc k by simp
  have "put_block k (f k) ?o = concat (map f [0..<k]) @ take (length out - k * 20) (f k) @ drop (Suc k * 20) out"
  proof (cases "Suc k * 20 \<le> length out")
    case True
    then show ?thesis using assms(1) lc unfolding put_block_def lo by (simp add: copy_at_def Let_def add.commute)
  next
    case False
    then show ?thesis using assms(1) lc k unfolding put_block_def lo by (simp add: copy_at_def Let_def)
  qed
  then show ?case using IH lc k by simp
qed simp

lemma put_blocks_all:
  assumes "\<forall>i. length (f i) = 20"
  shows "fold (\<lambda>i. put_block i (f i)) [0..<(length out + 19) div 20] out =
     take (length out) (concat (map f [0..<(length out + 19) div 20]))"
proof -
  have "(length out + 19) div 20 * 20 < length out + 20" "length out \<le> (length out + 19) div 20 * 20"
    by presburger+
  then show ?thesis using put_blocks_prefix [OF assms] by simp
qed

lemma pbkdf2_eq_spec: "pbkdf2_sha1 p salt c out = pbkdf2_spec p salt (unat c) (length out)"
proof -
  have r: "[1..<k + 1] = map Suc [0..<k]" for k by (simp add: map_Suc_upt)
  show ?thesis
    using put_blocks_all [of "\<lambda>i. pbkdf2_T p salt (unat c) (Suc i)" out]
    unfolding pbkdf2_sha1_def pbkdf2_spec_def pbkdf2_block_spec r Let_def
    by (simp add: fold_map comp_def length_pbkdf2_T add.commute)
qed

text \<open>The message authentication code over a list of slices is HMAC-SHA1 of RFC 2104 over their
  concatenation, for keys shorter and longer than a block, and the key derivation fills the
  output with PBKDF2 of RFC 2898, the last block cut.\<close>

theorem key_derivation_rfc:
  "hmac_sha1_multi key parts = hmac_spec key (concat parts) \<and> hmac_sha1 key m = hmac_spec key m \<and>
   pbkdf2_sha1 password salt iterations out = pbkdf2_spec password salt (unat iterations) (length out)"
  by (simp add: hmac_multi_spec hmac_spec_eq pbkdf2_eq_spec)

lemma prf_384_spec:
  "prf_384 key label data =
     take 48 (concat (map (\<lambda>i. hmac_spec key (label @ 0 # data @ [of_nat i])) [0..<3]))"
  using put_blocks_all [of "\<lambda>i. hmac_spec key (label @ 0 # data @ [of_nat i])" "replicate 48 0"]
  by (simp add: prf_384_def hmac_multi_spec length_hmac)

lemma ptk_symmetric: "derive_ptk pmk anonce snonce ap sta = derive_ptk pmk snonce anonce sta ap"
proof -
  have sw: "(if a < b then (a, b) else (b, a)) = (if b < a then (b, a) else (a, b))" for a b :: bytes
    by (auto simp: not_less)
  show ?thesis unfolding derive_ptk_def sw [of ap sta] sw [of anonce snonce] by (rule refl)
qed

lemma length_prf: "length (prf_384 k l d) = 48"
  unfolding prf_384_spec by (simp add: length_hmac upt_rec)

lemma length_ptk: "length (derive_ptk pmk anonce snonce ap sta) = 48"
  by (simp add: derive_ptk_def length_prf split: prod.split)

text \<open>Both ends of the four-way handshake derive the same 48-byte pairwise key: exchanging the
  roles of access point and station, addresses and nonces alike, does not change it.\<close>

theorem handshake_ends_agree:
  "derive_ptk pmk anonce snonce ap sta = derive_ptk pmk snonce anonce sta ap \<and>
   length (derive_ptk pmk anonce snonce ap sta) = 48"
  using ptk_symmetric length_ptk by blast

end
