(* ===== verification/Wpa_Aes.thy ===== *)
theory Wpa_Aes
  imports Bytes
begin

section \<open>AES-128\<close>

text \<open>
  Model of the AES-128 block cipher of \<^verbatim>\<open>kernel/src/wifi/crypto.rs\<close> on lists of sixteen bytes in column
  order. The kernel only encrypts; the inverse cipher of FIPS 197 is defined here and proved to
  undo the encryption with any key schedule, which rules out an error in the substitution table,
  the row shift or the column mix that loses information.
\<close>

definition SBOX :: bytes where
  "SBOX = [
     0x63, 0x7c, 0x77, 0x7b, 0xf2, 0x6b, 0x6f, 0xc5, 0x30, 0x01, 0x67, 0x2b, 0xfe, 0xd7, 0xab, 0x76,
     0xca, 0x82, 0xc9, 0x7d, 0xfa, 0x59, 0x47, 0xf0, 0xad, 0xd4, 0xa2, 0xaf, 0x9c, 0xa4, 0x72, 0xc0,
     0xb7, 0xfd, 0x93, 0x26, 0x36, 0x3f, 0xf7, 0xcc, 0x34, 0xa5, 0xe5, 0xf1, 0x71, 0xd8, 0x31, 0x15,
     0x04, 0xc7, 0x23, 0xc3, 0x18, 0x96, 0x05, 0x9a, 0x07, 0x12, 0x80, 0xe2, 0xeb, 0x27, 0xb2, 0x75,
     0x09, 0x83, 0x2c, 0x1a, 0x1b, 0x6e, 0x5a, 0xa0, 0x52, 0x3b, 0xd6, 0xb3, 0x29, 0xe3, 0x2f, 0x84,
     0x53, 0xd1, 0x00, 0xed, 0x20, 0xfc, 0xb1, 0x5b, 0x6a, 0xcb, 0xbe, 0x39, 0x4a, 0x4c, 0x58, 0xcf,
     0xd0, 0xef, 0xaa, 0xfb, 0x43, 0x4d, 0x33, 0x85, 0x45, 0xf9, 0x02, 0x7f, 0x50, 0x3c, 0x9f, 0xa8,
     0x51, 0xa3, 0x40, 0x8f, 0x92, 0x9d, 0x38, 0xf5, 0xbc, 0xb6, 0xda, 0x21, 0x10, 0xff, 0xf3, 0xd2,
     0xcd, 0x0c, 0x13, 0xec, 0x5f, 0x97, 0x44, 0x17, 0xc4, 0xa7, 0x7e, 0x3d, 0x64, 0x5d, 0x19, 0x73,
     0x60, 0x81, 0x4f, 0xdc, 0x22, 0x2a, 0x90, 0x88, 0x46, 0xee, 0xb8, 0x14, 0xde, 0x5e, 0x0b, 0xdb,
     0xe0, 0x32, 0x3a, 0x0a, 0x49, 0x06, 0x24, 0x5c, 0xc2, 0xd3, 0xac, 0x62, 0x91, 0x95, 0xe4, 0x79,
     0xe7, 0xc8, 0x37, 0x6d, 0x8d, 0xd5, 0x4e, 0xa9, 0x6c, 0x56, 0xf4, 0xea, 0x65, 0x7a, 0xae, 0x08,
     0xba, 0x78, 0x25, 0x2e, 0x1c, 0xa6, 0xb4, 0xc6, 0xe8, 0xdd, 0x74, 0x1f, 0x4b, 0xbd, 0x8b, 0x8a,
     0x70, 0x3e, 0xb5, 0x66, 0x48, 0x03, 0xf6, 0x0e, 0x61, 0x35, 0x57, 0xb9, 0x86, 0xc1, 0x1d, 0x9e,
     0xe1, 0xf8, 0x98, 0x11, 0x69, 0xd9, 0x8e, 0x94, 0x9b, 0x1e, 0x87, 0xe9, 0xce, 0x55, 0x28, 0xdf,
     0x8c, 0xa1, 0x89, 0x0d, 0xbf, 0xe6, 0x42, 0x68, 0x41, 0x99, 0x2d, 0x0f, 0xb0, 0x54, 0xbb, 0x16]"

definition RCON :: bytes where
  "RCON = [0x00, 0x01, 0x02, 0x04, 0x08, 0x10, 0x20, 0x40, 0x80, 0x1b, 0x36]"

definition xtime :: "u8 \<Rightarrow> u8" where
  "xtime x = (if x AND 0x80 \<noteq> 0 then push_bit 1 x XOR 0x1B else push_bit 1 x)"

primrec gmul_loop :: "nat \<Rightarrow> u8 \<Rightarrow> u8 \<Rightarrow> u8 \<Rightarrow> u8" where
  "gmul_loop 0 r a b = r"
| "gmul_loop (Suc n) r a b =
     (let r1 = (if b AND 1 \<noteq> 0 then r XOR a else r);
          hi = a AND 0x80;
          a1 = push_bit 1 a;
          a2 = (if hi \<noteq> 0 then a1 XOR 0x1B else a1)
      in gmul_loop n r1 a2 (drop_bit 1 b))"

definition gmul :: "u8 \<Rightarrow> u8 \<Rightarrow> u8" where
  "gmul a b = gmul_loop 8 0 a b"

definition sub_bytes :: "bytes \<Rightarrow> bytes" where
  "sub_bytes s = map (\<lambda>b. SBOX ! unat b) s"

definition swap :: "nat \<Rightarrow> nat \<Rightarrow> 'a list \<Rightarrow> 'a list" where
  "swap i j s = s[i := s ! j, j := s ! i]"

definition shift_rows :: "bytes \<Rightarrow> bytes" where
  "shift_rows s =
     (let t = s ! 1;
          s = s[1 := s ! 5]; s = s[5 := s ! 9]; s = s[9 := s ! 13]; s = s[13 := t];
          s = swap 2 10 s; s = swap 6 14 s;
          t = s ! 15;
          s = s[15 := s ! 11]; s = s[11 := s ! 7]; s = s[7 := s ! 3]; s = s[3 := t]
      in s)"

definition mix_column :: "nat \<Rightarrow> bytes \<Rightarrow> bytes" where
  "mix_column c s =
     (let i = c * 4; s0 = s ! i; s1 = s ! (i + 1); s2 = s ! (i + 2); s3 = s ! (i + 3)
      in s[i := gmul 2 s0 XOR gmul 3 s1 XOR s2 XOR s3,
           i + 1 := s0 XOR gmul 2 s1 XOR gmul 3 s2 XOR s3,
           i + 2 := s0 XOR s1 XOR gmul 2 s2 XOR gmul 3 s3,
           i + 3 := gmul 3 s0 XOR s1 XOR s2 XOR gmul 2 s3])"

definition mix_columns :: "bytes \<Rightarrow> bytes" where
  "mix_columns s = fold mix_column [0..<4] s"

definition add_round_key :: "bytes \<Rightarrow> bytes \<Rightarrow> bytes" where
  "add_round_key rk state = map2 (XOR) state rk"

text \<open>The sixteen bytes of round \<open>r\<close> of the key schedule.\<close>

definition round_key :: "bytes \<Rightarrow> nat \<Rightarrow> bytes" where
  "round_key rk r = take 16 (drop (r * 16) rk)"

definition next_round_key :: "nat \<Rightarrow> bytes \<Rightarrow> bytes" where
  "next_round_key i prev =
     (let temp = map (\<lambda>b. SBOX ! unat b) (rotate 1 [prev ! 12, prev ! 13, prev ! 14, prev ! 15]);
          temp = temp[0 := temp ! 0 XOR RCON ! i];
          w0 = map2 (XOR) (take 4 prev) temp;
          w1 = map2 (XOR) (take 4 (drop 4 prev)) w0;
          w2 = map2 (XOR) (take 4 (drop 8 prev)) w1;
          w3 = map2 (XOR) (take 4 (drop 12 prev)) w2
      in w0 @ w1 @ w2 @ w3)"

definition aes128_key_expand :: "bytes \<Rightarrow> bytes" where
  "aes128_key_expand key =
     fold (\<lambda>i rk. copy_at (i * 16) (next_round_key i (round_key rk (i - 1))) rk) [1..<11]
       (copy_at 0 key (replicate 176 0))"

definition aes_round :: "bytes \<Rightarrow> nat \<Rightarrow> bytes \<Rightarrow> bytes" where
  "aes_round rk r block = add_round_key (round_key rk r) (mix_columns (shift_rows (sub_bytes block)))"

definition aes128_encrypt :: "bytes \<Rightarrow> bytes \<Rightarrow> bytes" where
  "aes128_encrypt rk block =
     (let block = add_round_key (round_key rk 0) block;
          block = fold (aes_round rk) [1..<10] block
      in add_round_key (round_key rk 10) (shift_rows (sub_bytes block)))"

subsection \<open>The inverse cipher\<close>

definition INV_SBOX :: bytes where
  "INV_SBOX = [
     0x52, 0x09, 0x6a, 0xd5, 0x30, 0x36, 0xa5, 0x38, 0xbf, 0x40, 0xa3, 0x9e, 0x81, 0xf3, 0xd7, 0xfb,
     0x7c, 0xe3, 0x39, 0x82, 0x9b, 0x2f, 0xff, 0x87, 0x34, 0x8e, 0x43, 0x44, 0xc4, 0xde, 0xe9, 0xcb,
     0x54, 0x7b, 0x94, 0x32, 0xa6, 0xc2, 0x23, 0x3d, 0xee, 0x4c, 0x95, 0x0b, 0x42, 0xfa, 0xc3, 0x4e,
     0x08, 0x2e, 0xa1, 0x66, 0x28, 0xd9, 0x24, 0xb2, 0x76, 0x5b, 0xa2, 0x49, 0x6d, 0x8b, 0xd1, 0x25,
     0x72, 0xf8, 0xf6, 0x64, 0x86, 0x68, 0x98, 0x16, 0xd4, 0xa4, 0x5c, 0xcc, 0x5d, 0x65, 0xb6, 0x92,
     0x6c, 0x70, 0x48, 0x50, 0xfd, 0xed, 0xb9, 0xda, 0x5e, 0x15, 0x46, 0x57, 0xa7, 0x8d, 0x9d, 0x84,
     0x90, 0xd8, 0xab, 0x00, 0x8c, 0xbc, 0xd3, 0x0a, 0xf7, 0xe4, 0x58, 0x05, 0xb8, 0xb3, 0x45, 0x06,
     0xd0, 0x2c, 0x1e, 0x8f, 0xca, 0x3f, 0x0f, 0x02, 0xc1, 0xaf, 0xbd, 0x03, 0x01, 0x13, 0x8a, 0x6b,
     0x3a, 0x91, 0x11, 0x41, 0x4f, 0x67, 0xdc, 0xea, 0x97, 0xf2, 0xcf, 0xce, 0xf0, 0xb4, 0xe6, 0x73,
     0x96, 0xac, 0x74, 0x22, 0xe7, 0xad, 0x35, 0x85, 0xe2, 0xf9, 0x37, 0xe8, 0x1c, 0x75, 0xdf, 0x6e,
     0x47, 0xf1, 0x1a, 0x71, 0x1d, 0x29, 0xc5, 0x89, 0x6f, 0xb7, 0x62, 0x0e, 0xaa, 0x18, 0xbe, 0x1b,
     0xfc, 0x56, 0x3e, 0x4b, 0xc6, 0xd2, 0x79, 0x20, 0x9a, 0xdb, 0xc0, 0xfe, 0x78, 0xcd, 0x5a, 0xf4,
     0x1f, 0xdd, 0xa8, 0x33, 0x88, 0x07, 0xc7, 0x31, 0xb1, 0x12, 0x10, 0x59, 0x27, 0x80, 0xec, 0x5f,
     0x60, 0x51, 0x7f, 0xa9, 0x19, 0xb5, 0x4a, 0x0d, 0x2d, 0xe5, 0x7a, 0x9f, 0x93, 0xc9, 0x9c, 0xef,
     0xa0, 0xe0, 0x3b, 0x4d, 0xae, 0x2a, 0xf5, 0xb0, 0xc8, 0xeb, 0xbb, 0x3c, 0x83, 0x53, 0x99, 0x61,
     0x17, 0x2b, 0x04, 0x7e, 0xba, 0x77, 0xd6, 0x26, 0xe1, 0x69, 0x14, 0x63, 0x55, 0x21, 0x0c, 0x7d]"

definition inv_sub_bytes :: "bytes \<Rightarrow> bytes" where
  "inv_sub_bytes s = map (\<lambda>b. INV_SBOX ! unat b) s"

definition inv_shift_rows :: "bytes \<Rightarrow> bytes" where
  "inv_shift_rows s = map (\<lambda>i. s ! i) [0, 13, 10, 7, 4, 1, 14, 11, 8, 5, 2, 15, 12, 9, 6, 3]"

definition inv_mix_column :: "nat \<Rightarrow> bytes \<Rightarrow> bytes" where
  "inv_mix_column c s =
     (let i = c * 4; s0 = s ! i; s1 = s ! (i + 1); s2 = s ! (i + 2); s3 = s ! (i + 3)
      in s[i := gmul 14 s0 XOR gmul 11 s1 XOR gmul 13 s2 XOR gmul 9 s3,
           i + 1 := gmul 9 s0 XOR gmul 14 s1 XOR gmul 11 s2 XOR gmul 13 s3,
           i + 2 := gmul 13 s0 XOR gmul 9 s1 XOR gmul 14 s2 XOR gmul 11 s3,
           i + 3 := gmul 11 s0 XOR gmul 13 s1 XOR gmul 9 s2 XOR gmul 14 s3])"

definition inv_mix_columns :: "bytes \<Rightarrow> bytes" where
  "inv_mix_columns s = fold inv_mix_column [0..<4] s"

definition inv_round :: "bytes \<Rightarrow> nat \<Rightarrow> bytes \<Rightarrow> bytes" where
  "inv_round rk r block = inv_sub_bytes (inv_shift_rows (inv_mix_columns (add_round_key (round_key rk r) block)))"

definition aes128_decrypt :: "bytes \<Rightarrow> bytes \<Rightarrow> bytes" where
  "aes128_decrypt rk block =
     (let block = inv_sub_bytes (inv_shift_rows (add_round_key (round_key rk 10) block));
          block = fold (inv_round rk) (rev [1..<10]) block
      in add_round_key (round_key rk 0) block)"

subsection \<open>Substitution\<close>

lemma sbox_table: "map (\<lambda>y. INV_SBOX ! unat y) SBOX = map of_nat [0..<256]"
  by code_simp

lemma length_SBOX: "length SBOX = 256"
  by (simp add: SBOX_def)

lemma inv_sbox: "INV_SBOX ! unat (SBOX ! unat (b::u8)) = b"
proof -
  have b: "unat b < 256" using unsigned_less [of b] by simp
  then have "map (\<lambda>y. INV_SBOX ! unat y) SBOX ! unat b = INV_SBOX ! unat (SBOX ! unat b)"
    by (intro nth_map) (simp add: length_SBOX)
  moreover have "map of_nat [0..<256] ! unat b = b" using b by simp
  ultimately show ?thesis by (simp only: sbox_table)
qed

lemma inv_sub: "inv_sub_bytes (sub_bytes s) = s"
  by (simp add: inv_sub_bytes_def sub_bytes_def inv_sbox comp_def)

subsection \<open>Multiplication in the field\<close>

lemma xor_cancel [simp]: "x XOR (x XOR y) = (y :: 'a::len word)"
  by (simp flip: xor.assoc)

lemmas xor_ac = xor.assoc xor.commute xor.left_commute

lemma top_bit: "x AND 0x80 \<noteq> 0 \<longleftrightarrow> bit (x::u8) 7"
  using and_push_bit_1 [of 7 x] by simp

lemma low_bit: "x AND 1 \<noteq> 0 \<longleftrightarrow> bit (x::u8) 0"
  using and_push_bit_1 [of 0 x] by simp

lemma xtime_xor: "xtime (a XOR b) = xtime a XOR xtime b"
  unfolding xtime_def top_bit push_bit_xor bit_xor_iff by (auto simp: xor_ac)

lemma xtime_0 [simp]: "xtime 0 = 0"
  by (simp add: xtime_def)

lemma xtime_pow_xor: "(xtime ^^ n) (a XOR b) = (xtime ^^ n) a XOR (xtime ^^ n) b"
  by (induction n) (simp_all add: xtime_xor)

text \<open>The reference product: the sum of \<open>a\<close> times \<open>x\<close> to the \<open>i\<close> over the bits \<open>i\<close> of \<open>b\<close>.\<close>

primrec gf_sum :: "nat \<Rightarrow> u8 \<Rightarrow> u8 \<Rightarrow> u8" where
  "gf_sum 0 a b = 0"
| "gf_sum (Suc n) a b = gf_sum n a b XOR (if bit b n then (xtime ^^ n) a else 0)"

lemma gf_sum_shift: "gf_sum (Suc n) a b = (if bit b 0 then a else 0) XOR gf_sum n (xtime a) (drop_bit 1 b)"
proof (induction n)
  case (Suc n)
  have "(xtime ^^ Suc n) a = (xtime ^^ n) (xtime a)" by (simp only: funpow_Suc_right comp_apply)
  then show ?case using Suc by (simp only: gf_sum.simps(2) [of "Suc n"] gf_sum.simps(2) [of n "xtime a"])
    (simp add: xor.assoc bit_drop_bit_eq)
qed simp

lemma gmul_loop_sum: "gmul_loop n r a b = r XOR gf_sum n a b"
proof (induction n arbitrary: r a b)
  case (Suc n)
  have "gmul_loop (Suc n) r a b = gmul_loop n (if bit b 0 then r XOR a else r) (xtime a) (drop_bit 1 b)"
    unfolding gmul_loop.simps Let_def low_bit xtime_def by (rule refl)
  then show ?case unfolding gf_sum_shift Suc.IH by (simp add: xor.assoc)
qed simp

lemma gmul_sum: "gmul a b = gf_sum 8 a b"
  by (simp add: gmul_def gmul_loop_sum)

lemma gf_sum_xor: "gf_sum n (a XOR c) b = gf_sum n a b XOR gf_sum n c b"
  by (induction n) (auto simp: xtime_pow_xor xor_ac)

lemma gf_sum_xtime: "gf_sum n (xtime a) b = xtime (gf_sum n a b)"
  by (induction n) (auto simp: xtime_xor funpow_swap1)

lemma xtime_pow_1: "n < 8 \<Longrightarrow> (xtime ^^ n) 1 = push_bit n 1"
proof (induction n)
  case (Suc n)
  then have "\<not> bit (push_bit n 1 :: u8) 7" by (simp add: bit_simps)
  then have "xtime (push_bit n 1) = push_bit (Suc n) 1"
    unfolding xtime_def top_bit by (simp only: if_False push_bit_push_bit add_Suc add_0 One_nat_def)
  then show ?case using Suc by simp
qed simp

lemma gf_sum_1: "n \<le> 8 \<Longrightarrow> gf_sum n 1 b = take_bit n b"
proof (induction n)
  case (Suc n)
  then have "gf_sum (Suc n) 1 b = take_bit n b XOR (if bit b n then push_bit n 1 else 0)"
    by (simp add: xtime_pow_1)
  also have "\<dots> = take_bit (Suc n) b"
    by (auto simp: word_eq_bits bit_simps less_Suc_eq)
  finally show ?case .
qed simp

lemma gmul_1: "gmul 1 b = b"
proof -
  have "take_bit LENGTH(8) b = b" by (rule take_bit_length_eq)
  then show ?thesis using gf_sum_1 [of 8 b] by (simp add: gmul_sum)
qed

lemma gmul_xor: "gmul (a XOR c) b = gmul a b XOR gmul c b"
  by (simp add: gmul_sum gf_sum_xor)

lemma gmul_xtime: "gmul (xtime a) b = xtime (gmul a b)"
  by (simp add: gmul_sum gf_sum_xtime)

lemma xtime_small: "xtime 1 = 2" "xtime 2 = 4" "xtime 4 = 8"
  by (simp_all add: xtime_def)

lemma gmul_2: "gmul 2 b = xtime b" and gmul_4: "gmul 4 b = xtime (xtime b)"
  and gmul_8: "gmul 8 b = xtime (xtime (xtime b))"
  using gmul_xtime [of 1 b] gmul_xtime [of 2 b] gmul_xtime [of 4 b] by (simp_all add: xtime_small gmul_1)

text \<open>The constants of the two column mixes.\<close>

lemma gmul_mix:
  "gmul 2 b = xtime b" "gmul 3 b = xtime b XOR b"
  "gmul 9 b = xtime (xtime (xtime b)) XOR b"
  "gmul 11 b = xtime (xtime (xtime b)) XOR xtime b XOR b"
  "gmul 13 b = xtime (xtime (xtime b)) XOR xtime (xtime b) XOR b"
  "gmul 14 b = xtime (xtime (xtime b)) XOR xtime (xtime b) XOR xtime b"
  using gmul_xor [of 2 1 b] gmul_xor [of 8 1 b] gmul_xor [of "8 XOR 2" 1 b] gmul_xor [of 8 2 b]
    gmul_xor [of "8 XOR 4" 1 b] gmul_xor [of 8 4 b] gmul_xor [of "8 XOR 4" 2 b]
  by (simp_all add: gmul_1 gmul_2 gmul_4 gmul_8 xor.assoc)

subsection \<open>Rows and columns\<close>

lemma length_16:
  assumes "length s = 16"
  obtains a0 a1 a2 a3 b0 b1 b2 b3 c0 c1 c2 c3 d0 d1 d2 d3
  where "s = [a0, a1, a2, a3, b0, b1, b2, b3, c0, c1, c2, c3, d0, d1, d2, d3]"
  using assms by (auto simp: numeral_eq_Suc length_Suc_conv)

lemma inv_shift: "length s = 16 \<Longrightarrow> inv_shift_rows (shift_rows s) = s"
  by (erule length_16) (simp add: inv_shift_rows_def shift_rows_def swap_def Let_def)

lemma mix_one:
  fixes s0 s1 s2 s3 :: u8
  defines "m0 \<equiv> gmul 2 s0 XOR gmul 3 s1 XOR s2 XOR s3" and "m1 \<equiv> s0 XOR gmul 2 s1 XOR gmul 3 s2 XOR s3"
    and "m2 \<equiv> s0 XOR s1 XOR gmul 2 s2 XOR gmul 3 s3" and "m3 \<equiv> gmul 3 s0 XOR s1 XOR s2 XOR gmul 2 s3"
  shows "gmul 14 m0 XOR gmul 11 m1 XOR gmul 13 m2 XOR gmul 9 m3 = s0"
    and "gmul 9 m0 XOR gmul 14 m1 XOR gmul 11 m2 XOR gmul 13 m3 = s1"
    and "gmul 13 m0 XOR gmul 9 m1 XOR gmul 14 m2 XOR gmul 11 m3 = s2"
    and "gmul 11 m0 XOR gmul 13 m1 XOR gmul 9 m2 XOR gmul 14 m3 = s3"
  unfolding m0_def m1_def m2_def m3_def gmul_mix xtime_xor by (simp_all add: xor_ac)

lemma inv_mix: "length s = 16 \<Longrightarrow> inv_mix_columns (mix_columns s) = s"
  by (erule length_16)
    (simp add: mix_columns_def inv_mix_columns_def mix_column_def inv_mix_column_def Let_def upt_rec mix_one)

lemma add_key_twice:
  "length s = 16 \<Longrightarrow> length k = 16 \<Longrightarrow> add_round_key k (add_round_key k s) = s"
  by (simp add: add_round_key_def list_eq_iff_nth_eq xor.assoc)

lemma aes_lengths [simp]:
  "length (sub_bytes s) = length s" "length (shift_rows s) = length s"
  "length (mix_column c s) = length s" "length (add_round_key k s) = min (length s) (length k)"
  by (simp_all add: sub_bytes_def shift_rows_def swap_def mix_column_def add_round_key_def Let_def)

lemma length_mix_columns [simp]: "length (mix_columns s) = length s"
proof -
  have "length (fold mix_column cs s) = length s" for cs
    by (induction cs arbitrary: s) simp_all
  then show ?thesis by (simp add: mix_columns_def)
qed

lemma length_round_key [simp]: "length rk = 176 \<Longrightarrow> r \<le> 10 \<Longrightarrow> length (round_key rk r) = 16"
  by (simp add: round_key_def)

lemma length_next_round_key [simp]: "length prev = 16 \<Longrightarrow> length (next_round_key i prev) = 16"
  by (simp add: next_round_key_def Let_def)

lemma length_key_expand [simp]: "length key = 16 \<Longrightarrow> length (aes128_key_expand key) = 176"
proof -
  assume k: "length key = 16"
  have step: "length (copy_at (i * 16) (next_round_key i (round_key rk (i - 1))) rk) = 176"
    if "length rk = 176" "i \<le> 10" for i rk
    using that by (subst length_copy_at) simp_all
  have "\<forall>i \<in> set is. i \<le> 10 \<Longrightarrow> length rk = 176 \<Longrightarrow>
      length (fold (\<lambda>i rk. copy_at (i * 16) (next_round_key i (round_key rk (i - 1))) rk) is rk) = 176" for "is" rk
    by (induction "is" arbitrary: rk) (use step in auto)
  then show ?thesis using k by (simp add: aes128_key_expand_def)
qed

lemma inv_one_round:
  assumes "length b = 16" and "length rk = 176" and "r \<le> 10"
  shows "inv_round rk r (aes_round rk r b) = b" and "length (aes_round rk r b) = 16"
  using assms by (simp_all add: inv_round_def aes_round_def add_key_twice inv_mix inv_shift inv_sub)

lemma inv_rounds:
  assumes "length b = 16" and "length rk = 176" and "\<forall>r \<in> set rs. r \<le> 10"
  shows "fold (inv_round rk) (rev rs) (fold (aes_round rk) rs b) = b \<and> length (fold (aes_round rk) rs b) = 16"
  using assms
proof (induction rs arbitrary: b)
  case (Cons r rs)
  then show ?case using inv_one_round [of b rk r] by simp
qed simp

lemma aes_length: "length b = 16 \<Longrightarrow> length rk = 176 \<Longrightarrow> length (aes128_encrypt rk b) = 16"
  using inv_rounds [of "add_round_key (round_key rk 0) b" rk "[1..<10]"] by (simp add: aes128_encrypt_def Let_def)

text \<open>With the schedule of any key, the block cipher maps sixteen bytes to sixteen bytes and the
  inverse cipher of FIPS 197 recovers the block: encryption loses nothing.\<close>

theorem aes_invertible:
  assumes "length key = 16" and "length block = 16"
  shows "length (aes128_encrypt (aes128_key_expand key) block) = 16 \<and>
         aes128_decrypt (aes128_key_expand key) (aes128_encrypt (aes128_key_expand key) block) = block"
proof -
  let ?rk = "aes128_key_expand key"
  let ?b0 = "add_round_key (round_key ?rk 0) block"
  have rk: "length ?rk = 176" "length ?b0 = 16" using assms by simp_all
  note r = inv_rounds [OF rk(2,1), of "[1..<10]"]
  have "aes128_decrypt ?rk (aes128_encrypt ?rk block) = add_round_key (round_key ?rk 0) ?b0"
    using r rk by (simp add: aes128_encrypt_def aes128_decrypt_def Let_def add_key_twice inv_shift inv_sub)
  then show ?thesis using assms rk by (simp add: add_key_twice aes_length)
qed

theorem aes_invertible_witness:
  "aes128_decrypt (aes128_key_expand (replicate 16 7)) (aes128_encrypt (aes128_key_expand (replicate 16 7)) (replicate 16 1))
     = replicate 16 1"
  using aes_invertible [of "replicate 16 7" "replicate 16 1"] by simp

end
