(* ===== verification/Wpa_Ccmp.thy ===== *)
theory Wpa_Ccmp
  imports Wpa_Aes
begin

section \<open>CMAC and CCMP\<close>

text \<open>
  Model of the AES modes of \<^verbatim>\<open>kernel/src/wifi/crypto.rs\<close>: AES-128-CMAC for the handshake messages and
  CCMP, the counter mode with CBC-MAC that protects data frames. A frame is accepted exactly
  when it is what the encryption of the result would have produced.
\<close>

subsection \<open>AES-128-CMAC\<close>

definition xor16 :: "bytes \<Rightarrow> bytes \<Rightarrow> bytes" where
  "xor16 a b = map2 (XOR) a b"

definition shl_block :: "bytes \<Rightarrow> bytes" where
  "shl_block l =
     (let k = fold (\<lambda>i k. k[i := push_bit 1 (k ! i) OR drop_bit 7 (k ! (i + 1))]) [0..<15] l
      in k[15 := push_bit 1 (k ! 15)])"

definition subkey :: "bytes \<Rightarrow> bytes" where
  "subkey l =
     (if l ! 0 AND 0x80 = 0 then shl_block l
      else let k = shl_block l in k[15 := k ! 15 XOR 0x87])"

definition generate_subkeys :: "bytes \<Rightarrow> bytes \<times> bytes" where
  "generate_subkeys rk =
     (let l = aes128_encrypt rk (replicate 16 0); k1 = subkey l; k2 = subkey k1 in (k1, k2))"

definition aes_cmac :: "bytes \<Rightarrow> bytes \<Rightarrow> bytes" where
  "aes_cmac key msg =
     (let rk = aes128_key_expand key;
          (k1, k2) = generate_subkeys rk;
          n0 = (length msg + 15) div 16;
          (n, flag) = (if n0 = 0 then (1, False) else (n0, length msg mod 16 = 0));
          x = fold (\<lambda>i x. aes128_encrypt rk (xor16 x (take 16 (drop (i * 16) msg)))) [0..<n - 1] (replicate 16 0);
          last_start = (n - 1) * 16;
          last_len = length msg - last_start;
          last0 = copy_at 0 (drop last_start msg) (replicate 16 0);
          last1 = (if flag then xor16 last0 k1 else xor16 (last0[last_len := 0x80]) k2)
      in aes128_encrypt rk (xor16 x last1))"

definition eapol_mic :: "bytes \<Rightarrow> bytes \<Rightarrow> bytes" where
  "eapol_mic kck eapol_frame = aes_cmac kck eapol_frame"

subsection \<open>CCMP\<close>

definition pn_byte :: "nat \<Rightarrow> u64 \<Rightarrow> u8" where
  "pn_byte k pn = ucast (drop_bit k pn AND 0xFF)"

definition ccmp_nonce :: "bytes \<Rightarrow> u64 \<Rightarrow> bytes" where
  "ccmp_nonce a2 pn =
     0 # a2 @ [pn_byte 40 pn, pn_byte 32 pn, pn_byte 24 pn, pn_byte 16 pn, pn_byte 8 pn, pn_byte 0 pn]"

definition ccmp_aad :: "bytes \<Rightarrow> bytes" where
  "ccmp_aad mac_hdr =
     mac_hdr[1 := (mac_hdr ! 1 AND NOT 0x40) AND NOT 0x38, 22 := mac_hdr ! 22 AND 0x0F, 23 := 0]"

definition mac_step :: "bytes \<Rightarrow> bytes \<Rightarrow> bytes \<Rightarrow> bytes" where
  "mac_step rk b x = aes128_encrypt rk (map2 (XOR) x b)"

function cbc_blocks :: "bytes \<Rightarrow> bytes \<Rightarrow> bytes \<Rightarrow> bytes" where
  "cbc_blocks rk x plaintext =
     (if plaintext = [] then x
      else cbc_blocks rk (mac_step rk (copy_at 0 (take 16 plaintext) (replicate 16 0)) x) (drop 16 plaintext))"
  by pat_completeness auto
termination by (relation "measure (\<lambda>(_, _, p). length p)") auto

definition ccmp_cbcmac :: "bytes \<Rightarrow> bytes \<Rightarrow> bytes \<Rightarrow> bytes \<Rightarrow> bytes" where
  "ccmp_cbcmac tk nonce aad plaintext =
     (let rk = aes128_key_expand tk;
          plen = (of_nat (length plaintext) :: u16);
          b0 = 0x59 # nonce @ [ucast (drop_bit 8 plen), ucast (plen AND 0xFF)];
          x = aes128_encrypt rk b0;
          aad_block = copy_at 2 aad ((replicate 32 0)[0 := 0, 1 := 24]);
          x = mac_step rk (drop 16 aad_block) (mac_step rk (take 16 aad_block) x);
          x = cbc_blocks rk x plaintext;
          s0 = aes128_encrypt rk (0x01 # nonce @ [0, 0])
      in take 8 (map2 (XOR) x s0))"

text \<open>The keystream block of a counter, and the loop over the data with its wrapping counter.\<close>

definition ctr_block :: "bytes \<Rightarrow> bytes \<Rightarrow> u16 \<Rightarrow> bytes" where
  "ctr_block rk nonce counter =
     aes128_encrypt rk (0x01 # nonce @ [ucast (drop_bit 8 counter), ucast (counter AND 0xFF)])"

function ctr_loop :: "bytes \<Rightarrow> bytes \<Rightarrow> u16 \<Rightarrow> bytes \<Rightarrow> bytes" where
  "ctr_loop rk nonce counter data =
     (if data = [] then []
      else map2 (XOR) (take 16 data) (ctr_block rk nonce (counter + 1))
           @ ctr_loop rk nonce (counter + 1) (drop 16 data))"
  by pat_completeness auto
termination by (relation "measure (\<lambda>(_, _, _, d). length d)") auto

declare cbc_blocks.simps [simp del] ctr_loop.simps [simp del]

definition ccmp_ctr :: "bytes \<Rightarrow> bytes \<Rightarrow> bytes \<Rightarrow> bytes" where
  "ccmp_ctr tk nonce data = ctr_loop (aes128_key_expand tk) nonce 1 data"

definition ccmp_encrypt :: "bytes \<Rightarrow> bytes \<Rightarrow> bytes \<Rightarrow> u64 \<Rightarrow> bytes \<Rightarrow> bytes" where
  "ccmp_encrypt tk mac_hdr a2 pn plaintext =
     (let nonce = ccmp_nonce a2 pn;
          aad = ccmp_aad mac_hdr;
          mic = ccmp_cbcmac tk nonce aad plaintext
      in ccmp_ctr tk nonce plaintext @ mic)"

definition pn_of_header :: "bytes \<Rightarrow> u64" where
  "pn_of_header h =
     push_bit 40 (ucast (h ! 7)) OR push_bit 32 (ucast (h ! 6)) OR push_bit 24 (ucast (h ! 5))
       OR push_bit 16 (ucast (h ! 4)) OR push_bit 8 (ucast (h ! 1)) OR ucast (h ! 0)"

definition ccmp_decrypt :: "bytes \<Rightarrow> bytes \<Rightarrow> bytes option" where
  "ccmp_decrypt tk frame =
     (if length frame < 40 then None
      else let mac_hdr = take 24 frame;
               pn = pn_of_header (take 8 (drop 24 frame));
               ct_end = length frame - 8;
               ciphertext = take (ct_end - 32) (drop 32 frame);
               rx_mic = drop ct_end frame;
               nonce = ccmp_nonce (take 6 (drop 10 mac_hdr)) pn;
               plaintext = ccmp_ctr tk nonce ciphertext;
               expected = ccmp_cbcmac tk nonce (ccmp_aad mac_hdr) plaintext
           in if expected \<noteq> rx_mic then None else Some plaintext)"

subsection \<open>Lengths and the keystream\<close>

lemma length_nonce [simp]: "length a2 = 6 \<Longrightarrow> length (ccmp_nonce a2 pn) = 13"
  by (simp add: ccmp_nonce_def)

lemma length_ctr_block [simp]: "length nonce = 13 \<Longrightarrow> length rk = 176 \<Longrightarrow> length (ctr_block rk nonce c) = 16"
  by (simp add: ctr_block_def aes_length)

lemma ctr_loop_length:
  "length nonce = 13 \<Longrightarrow> length rk = 176 \<Longrightarrow> length (ctr_loop rk nonce c d) = length d"
proof (induction rk nonce c d rule: ctr_loop.induct)
  case (1 rk nonce c d)
  then show ?case by (subst ctr_loop.simps) (auto simp: min_def)
qed

lemma xor_stream_twice:
  "length xs \<le> length ks \<Longrightarrow> map2 (XOR) (map2 (XOR) xs ks) ks = (xs :: bytes)"
  by (simp add: list_eq_iff_nth_eq xor.assoc)

lemma ctr_loop_twice:
  "length nonce = 13 \<Longrightarrow> length rk = 176 \<Longrightarrow> ctr_loop rk nonce c (ctr_loop rk nonce c d) = d"
proof (induction rk nonce c d rule: ctr_loop.induct)
  case (1 rk nonce c d)
  show ?case
  proof (cases "d = []")
    case True
    then show ?thesis by (simp add: ctr_loop.simps)
  next
    case False
    let ?k = "ctr_block rk nonce (c + 1)"
    let ?m = "map2 (XOR) (take 16 d) ?k" and ?r = "ctr_loop rk nonce (c + 1) (drop 16 d)"
    have step: "ctr_loop rk nonce c d = ?m @ ?r" using False by (subst ctr_loop.simps) simp
    have lm: "length ?m = min (length d) 16" using 1(2,3) by simp
    have lr: "length ?r = length d - 16" using ctr_loop_length [OF 1(2,3)] by simp
    have cut: "take 16 (?m @ ?r) = ?m \<and> drop 16 (?m @ ?r) = ?r"
    proof (cases "length d \<le> 16")
      case True
      then have "?r = []" using lr by simp
      then show ?thesis using lm True by simp
    next
      case False
      then show ?thesis using lm by simp
    qed
    have ne: "?m @ ?r \<noteq> []" using lm False by (auto simp: min_def split: if_splits)
    have "ctr_loop rk nonce c (?m @ ?r) = map2 (XOR) ?m ?k @ ctr_loop rk nonce (c + 1) ?r"
      by (subst ctr_loop.simps) (simp only: cut [THEN conjunct1] cut [THEN conjunct2] ne if_False)
    also have "\<dots> = take 16 d @ drop 16 d"
      using 1(1) [OF False 1(2,3)] xor_stream_twice [of "take 16 d" ?k] 1(2,3) by simp
    finally show ?thesis unfolding step by simp
  qed
qed

lemma ctr_twice:
  "length tk = 16 \<Longrightarrow> length nonce = 13 \<Longrightarrow> ccmp_ctr tk nonce (ccmp_ctr tk nonce d) = d"
  by (simp add: ccmp_ctr_def ctr_loop_twice)

lemma ctr_length:
  "length tk = 16 \<Longrightarrow> length nonce = 13 \<Longrightarrow> length (ccmp_ctr tk nonce d) = length d"
  by (simp add: ccmp_ctr_def ctr_loop_length)

lemma mac_step_length: "length x = 16 \<Longrightarrow> length b = 16 \<Longrightarrow> length rk = 176 \<Longrightarrow> length (mac_step rk b x) = 16"
  by (simp add: mac_step_def aes_length)

lemma cbc_length: "length x = 16 \<Longrightarrow> length rk = 176 \<Longrightarrow> length (cbc_blocks rk x p) = 16"
proof (induction rk x p rule: cbc_blocks.induct)
  case (1 rk x p)
  then show ?case by (subst cbc_blocks.simps) (simp add: mac_step_length)
qed

lemma mic_length:
  assumes "length tk = 16" and "length nonce = 13" and "length aad = 24"
  shows "length (ccmp_cbcmac tk nonce aad p) = 8"
  using assms by (simp add: ccmp_cbcmac_def Let_def cbc_length mac_step_length aes_length copy_at_def)

lemma length_aad [simp]: "length (ccmp_aad h) = length h"
  by (simp add: ccmp_aad_def)

subsection \<open>Accepted frames\<close>

lemma ccmp_accepts_iff:
  assumes "length tk = 16" and "40 \<le> length frame"
  shows "ccmp_decrypt tk frame = Some plaintext \<longleftrightarrow>
     drop 32 frame = ccmp_encrypt tk (take 24 frame) (take 6 (drop 10 frame))
       (pn_of_header (take 8 (drop 24 frame))) plaintext"
proof -
  let ?h = "take 24 frame" and ?pn = "pn_of_header (take 8 (drop 24 frame))"
  let ?n = "ccmp_nonce (take 6 (drop 10 frame)) ?pn"
  define ct mic where "ct = take (length frame - 8 - 32) (drop 32 frame)" and "mic = drop (length frame - 8) frame"
  let ?mac = "\<lambda>p. ccmp_cbcmac tk ?n (ccmp_aad ?h) p"
  have n: "length ?n = 13" using assms(2) by simp
  have a2: "take 6 (drop 10 ?h) = take 6 (drop 10 frame)" using assms(2) by (simp add: drop_take)
  have "length frame - 8 = (length frame - 8 - 32) + 32" using assms(2) by simp
  then have "mic = drop (length frame - 8 - 32) (drop 32 frame)" unfolding mic_def drop_drop by (rule arg_cong)
  then have split: "drop 32 frame = ct @ mic" unfolding ct_def by (simp only: append_take_drop_id)
  have lm: "length mic = length (?mac p)" for p using assms n by (simp add: mic_length mic_def)
  have dec: "ccmp_decrypt tk frame = Some plaintext \<longleftrightarrow>
      ?mac (ccmp_ctr tk ?n ct) = mic \<and> ccmp_ctr tk ?n ct = plaintext"
    using assms(2) unfolding ccmp_decrypt_def Let_def a2 ct_def [symmetric] mic_def [symmetric]
    by (simp add: not_less)
  have inv: "ct = ccmp_ctr tk ?n plaintext \<longleftrightarrow> ccmp_ctr tk ?n ct = plaintext"
  proof
    assume e: "ct = ccmp_ctr tk ?n plaintext"
    show "ccmp_ctr tk ?n ct = plaintext" unfolding e by (rule ctr_twice [OF assms(1) n])
  next
    assume e: "ccmp_ctr tk ?n ct = plaintext"
    show "ct = ccmp_ctr tk ?n plaintext" unfolding e [symmetric] by (rule ctr_twice [OF assms(1) n, symmetric])
  qed
  have "drop 32 frame = ccmp_encrypt tk ?h (take 6 (drop 10 frame)) ?pn plaintext \<longleftrightarrow>
      ct = ccmp_ctr tk ?n plaintext \<and> mic = ?mac plaintext"
    unfolding split ccmp_encrypt_def Let_def by (rule append_eq_append_conv) (simp add: lm)
  then show ?thesis unfolding dec inv by auto
qed

text \<open>The packet number in the header is its low 48 bits, and the nonce reads no more of it.\<close>

definition ccmp_header :: "u64 \<Rightarrow> bytes" where
  "ccmp_header pn =
     [pn_byte 0 pn, pn_byte 8 pn, 0x00, 0x20, pn_byte 16 pn, pn_byte 24 pn, pn_byte 32 pn, pn_byte 40 pn]"

lemma bit_pn_byte: "bit (pn_byte k pn) j \<longleftrightarrow> j < 8 \<and> bit pn (k + j)"
proof -
  have "(0xFF::u64) = mask 8" by (simp add: mask_numeral)
  then have "bit (pn_byte k pn) j \<longleftrightarrow> j < 8 \<and> bit (drop_bit k pn AND mask 8) j"
    unfolding pn_byte_def by (simp add: bit_ucast_iff)
  then show ?thesis by (auto simp: bit_simps)
qed

lemma bit_pn_field:
  "bit (push_bit k (ucast (pn_byte k pn)) :: u64) i \<longleftrightarrow> i < 64 \<and> k \<le> i \<and> i < k + 8 \<and> bit pn i"
proof -
  have "bit (push_bit k (ucast (pn_byte k pn)) :: u64) i \<longleftrightarrow> i < 64 \<and> k \<le> i \<and> bit (pn_byte k pn) (i - k)"
    by (auto simp: bit_push_bit_iff bit_ucast_iff possible_bit_def)
  then show ?thesis unfolding bit_pn_byte by auto
qed

lemma pn_roundtrip: "pn_of_header (ccmp_header pn) = take_bit 48 pn"
proof (rule bit_word_eqI)
  fix i assume i: "i < LENGTH(64)"
  have "(ucast (pn_byte 0 pn) :: u64) = push_bit 0 (ucast (pn_byte 0 pn))" by simp
  then have e: "pn_of_header (ccmp_header pn) =
      push_bit 40 (ucast (pn_byte 40 pn)) OR push_bit 32 (ucast (pn_byte 32 pn)) OR push_bit 24 (ucast (pn_byte 24 pn))
        OR push_bit 16 (ucast (pn_byte 16 pn)) OR push_bit 8 (ucast (pn_byte 8 pn)) OR push_bit 0 (ucast (pn_byte 0 pn))"
    by (simp add: pn_of_header_def ccmp_header_def)
  have "bit (pn_of_header (ccmp_header pn)) i \<longleftrightarrow> bit pn i \<and>
      ((40 \<le> i \<and> i < 48) \<or> (32 \<le> i \<and> i < 40) \<or> (24 \<le> i \<and> i < 32) \<or> (16 \<le> i \<and> i < 24) \<or>
       (8 \<le> i \<and> i < 16) \<or> i < 8)"
    unfolding e bit_or_iff bit_pn_field using i by auto
  then show "bit (pn_of_header (ccmp_header pn)) i \<longleftrightarrow> bit (take_bit 48 pn) i"
    unfolding bit_take_bit_iff by linarith
qed

lemma pn_byte_take: "k \<le> 40 \<Longrightarrow> pn_byte k (take_bit 48 pn) = pn_byte k pn"
  by (rule bit_word_eqI) (auto simp: bit_pn_byte bit_simps)

lemma nonce_take: "ccmp_nonce a2 (take_bit 48 pn) = ccmp_nonce a2 pn"
  by (simp add: ccmp_nonce_def pn_byte_take)

text \<open>C25: a data frame is accepted with a payload exactly when its body is what the encryption of
  that payload under the same header, transmitter address and packet number produces. Decryption
  inverts encryption, and a frame whose ciphertext or code was changed is refused unless it is
  itself an encryption.\<close>

theorem ccmp_accepts_exactly_encryptions:
  assumes "length tk = 16" and "40 \<le> length frame"
  shows "ccmp_decrypt tk frame = Some plaintext \<longleftrightarrow>
     drop 32 frame = ccmp_encrypt tk (take 24 frame) (take 6 (drop 10 frame))
       (pn_of_header (take 8 (drop 24 frame))) plaintext"
  using assms by (rule ccmp_accepts_iff)

theorem ccmp_accepts_exactly_encryptions_witness:
  "ccmp_decrypt (replicate 16 3) (replicate 24 1 @ ccmp_header 5 @
     ccmp_encrypt (replicate 16 3) (replicate 24 1) (replicate 6 1) 5 [1, 2, 3]) = Some [1, 2, 3]"
proof -
  let ?e = "ccmp_encrypt (replicate 16 3) (replicate 24 1) (replicate 6 1) 5 [1, 2, 3]"
  let ?f = "replicate 24 1 @ ccmp_header 5 @ ?e"
  have "length ?e = 11"
    using mic_length [of "replicate 16 3" "ccmp_nonce (replicate 6 1) 5" "ccmp_aad (replicate 24 1)" "[1, 2, 3]"]
      ctr_length [of "replicate 16 3" "ccmp_nonce (replicate 6 1) 5" "[1, 2, 3]"]
    by (simp add: ccmp_encrypt_def Let_def)
  moreover have "length (ccmp_header 5) = 8" by (simp add: ccmp_header_def)
  moreover have "take_bit 48 (5::u64) = 5" by simp
  ultimately show ?thesis
    using ccmp_accepts_exactly_encryptions [of "replicate 16 3" ?f "[1, 2, 3]"] pn_roundtrip [of 5]
    by (simp)
qed

end
