(* ===== verification/Wifi_Frames.thy ===== *)
theory Wifi_Frames
  imports Wpa_Hash Wpa_Ccmp
begin

section \<open>802.11 frames and the WPA2 handshake\<close>

text \<open>
  Model of the frame code of \<^verbatim>\<open>kernel/src/wifi/ar9271.rs\<close>: building and parsing management, data and
  EAPOL frames, and the connection procedure. What the USB endpoint delivers while a loop waits is
  an argument: the list of buffers received before the deadline, each cut to the received length.
  A read past the end of a received frame is a panic.
\<close>

abbreviation (input) FC_PROBE_REQ :: u16 where "FC_PROBE_REQ \<equiv> 0x0040"

abbreviation (input) FC_PROBE_RESP :: u16 where "FC_PROBE_RESP \<equiv> 0x0050"

abbreviation (input) FC_AUTH :: u16 where "FC_AUTH \<equiv> 0x00B0"

abbreviation (input) FC_ASSOC_REQ :: u16 where "FC_ASSOC_REQ \<equiv> 0x0000"

abbreviation (input) FC_ASSOC_RESP :: u16 where "FC_ASSOC_RESP \<equiv> 0x0010"

abbreviation (input) IE_SSID :: u8 where "IE_SSID \<equiv> 0"

abbreviation (input) IE_RATES :: u8 where "IE_RATES \<equiv> 1"

abbreviation (input) IE_DS_PARAM :: u8 where "IE_DS_PARAM \<equiv> 3"

abbreviation (input) CAP_PRIVACY :: u16 where "CAP_PRIVACY \<equiv> push_bit 4 1"

abbreviation (input) WMI_CMD_SET_CHANNEL :: u16 where "WMI_CMD_SET_CHANNEL \<equiv> 0x0028"

abbreviation (input) HTC_ENDPOINT_WMI :: u8 where "HTC_ENDPOINT_WMI \<equiv> 2"

record ApInfo =
  ap_ssid :: bytes
  ap_bssid :: bytes
  ap_channel :: u8
  ap_rssi :: u8
  ap_secured :: bool

text \<open>The validity test of \<^verbatim>\<open>core::str::from_utf8\<close>.\<close>

definition cont_byte :: "u8 \<Rightarrow> bool" where
  "cont_byte b \<longleftrightarrow> 0x80 \<le> b \<and> b \<le> 0xBF"

fun utf8_valid :: "bytes \<Rightarrow> bool" where
  "utf8_valid [] = True"
| "utf8_valid (a # bs) =
     (if a < 0x80 then utf8_valid bs
      else if 0xC2 \<le> a \<and> a \<le> 0xDF then
        (case bs of b # r \<Rightarrow> cont_byte b \<and> utf8_valid r | _ \<Rightarrow> False)
      else if 0xE0 \<le> a \<and> a \<le> 0xEF then
        (case bs of b # c # r \<Rightarrow>
           cont_byte b \<and> cont_byte c \<and> (a = 0xE0 \<longrightarrow> 0xA0 \<le> b) \<and> (a = 0xED \<longrightarrow> b \<le> 0x9F) \<and> utf8_valid r
         | _ \<Rightarrow> False)
      else if 0xF0 \<le> a \<and> a \<le> 0xF4 then
        (case bs of b # c # d # r \<Rightarrow>
           cont_byte b \<and> cont_byte c \<and> cont_byte d \<and> (a = 0xF0 \<longrightarrow> 0x90 \<le> b) \<and> (a = 0xF4 \<longrightarrow> b \<le> 0x8F)
             \<and> utf8_valid r
         | _ \<Rightarrow> False)
      else False)"

subsection \<open>Building frames\<close>

definition htc_wmi_frame :: "u16 \<Rightarrow> bytes \<Rightarrow> u16 \<Rightarrow> bytes \<times> u16" where
  "htc_wmi_frame cmd_id payload seq =
     (let wmi_payload_len = of_nat (6 + length payload) :: u64
      in ([HTC_ENDPOINT_WMI, 0x00, ucast (drop_bit 8 wmi_payload_len), ucast (wmi_payload_len AND 0xFF), 0x00, 0x00,
           ucast (drop_bit 8 cmd_id), ucast (cmd_id AND 0xFF), ucast (drop_bit 8 seq), ucast (seq AND 0xFF),
           0x00, 0x00] @ payload, seq + 1))"

definition set_channel_frame :: "u8 \<Rightarrow> u16 \<Rightarrow> bytes \<times> u16" where
  "set_channel_frame channel seq =
     (let freq = 2407 + (ucast channel :: u16) * 5
      in htc_wmi_frame WMI_CMD_SET_CHANNEL [ucast (drop_bit 8 freq), ucast (freq AND 0xFF), 0x00, channel] seq)"

definition rates_ie :: bytes where
  "rates_ie = [IE_RATES, 4, 0x82, 0x84, 0x8B, 0x96]"

definition ssid_ie :: "bytes \<Rightarrow> bytes" where
  "ssid_ie ssid = [IE_SSID, of_nat (length ssid)] @ ssid"

definition build_probe_request :: "bytes \<Rightarrow> bytes \<Rightarrow> bytes" where
  "build_probe_request our_mac ssid =
     to_le 2 FC_PROBE_REQ @ [0x00, 0x00] @ replicate 6 0xFF @ our_mac @ replicate 6 0xFF @ [0x00, 0x00]
     @ ssid_ie ssid @ rates_ie"

definition build_mgmt_header :: "u16 \<Rightarrow> bytes \<Rightarrow> bytes \<Rightarrow> bytes" where
  "build_mgmt_header fc sa bssid = to_le 2 fc @ [0x00, 0x00] @ bssid @ sa @ bssid @ [0x00, 0x00]"

definition llc_snap :: bytes where
  "llc_snap = [0xAA, 0xAA, 0x03, 0x00, 0x00, 0x00]"

definition build_data_frame :: "bytes \<Rightarrow> bytes \<Rightarrow> u16 \<Rightarrow> bytes \<Rightarrow> bytes" where
  "build_data_frame src dst ethertype payload =
     [0x08, 0x01] @ [0x00, 0x00] @ dst @ src @ dst @ [0x00, 0x00] @ llc_snap @ to_be 2 ethertype @ payload"

subsection \<open>Parsing beacons\<close>

text \<open>
  The loop over the information elements, on the bytes from the position on: it stops when less
  than a tag and a length are left or the length points past the end.
\<close>

function parse_ies :: "bytes \<Rightarrow> bytes \<times> u8 \<Rightarrow> bytes \<times> u8" where
  "parse_ies (tag # len # rest) (ssid, channel) =
     (if length rest < unat len then (ssid, channel)
      else let data = take (unat len) rest
           in parse_ies (drop (unat len) rest)
                (if tag = IE_SSID then (if utf8_valid data then data else [], channel)
                 else if tag = IE_DS_PARAM \<and> len = 1 then (ssid, data ! 0)
                 else (ssid, channel)))"
| "parse_ies [x] st = st"
| "parse_ies [] st = st"
  by pat_completeness auto
termination by (relation "measure (length \<circ> fst)") auto

definition parse_probe_response :: "bytes \<Rightarrow> u8 \<Rightarrow> ApInfo option" where
  "parse_probe_response frame rssi =
     (if length frame < 36 then None
      else let fc = (from_le [frame ! 0, frame ! 1] :: u16);
               frame_type = fc AND 0x00FC
           in if frame_type \<noteq> (FC_PROBE_RESP AND 0x00FC) \<and> frame_type \<noteq> 0x0080 then None
      else let bssid = take 6 (drop 16 frame);
               cap = (from_le [frame ! 34, frame ! 35] :: u16);
               secured = (cap AND CAP_PRIVACY \<noteq> 0);
               (ssid, channel) = parse_ies (drop 36 frame) ([], 0)
           in if ssid = [] \<and> channel = 0 then None
              else Some \<lparr>ap_ssid = ssid, ap_bssid = bssid, ap_channel = channel, ap_rssi = rssi, ap_secured = secured\<rparr>)"

text \<open>One received buffer of a scan: its third byte is the signal strength.\<close>

definition scan_step :: "bytes \<Rightarrow> ApInfo list \<Rightarrow> ApInfo list" where
  "scan_step buf aps =
     (if length buf < 4 then aps
      else case parse_probe_response (drop 4 buf) (buf ! 2) of
             Some ap \<Rightarrow> if ap_bssid ap \<in> ap_bssid ` set aps then aps else aps @ [ap]
           | None \<Rightarrow> aps)"

definition scan_channels :: "u8 list" where
  "scan_channels = [1, 6, 11, 2, 3, 4, 5, 7, 8, 9, 10, 12, 13, 14]"

text \<open>\<open>heard ch\<close> is what arrives in the fifty milliseconds spent on channel \<open>ch\<close>.\<close>

definition scan_networks :: "(u8 \<Rightarrow> bytes list) \<Rightarrow> ApInfo list" where
  "scan_networks heard = fold (\<lambda>ch aps. fold scan_step (heard ch) aps) scan_channels []"

subsection \<open>Authentication and association\<close>

definition auth_frame :: "bytes \<Rightarrow> bytes \<Rightarrow> bool rust" where
  "auth_frame bssid buf =
     (if length buf < 30 then Inr False
      else let frame = drop 4 buf
           in if length frame < 26 then Inr False
           else let fc = (from_le [frame ! 0, frame ! 1] :: u16)
           in if fc AND 0x00FC \<noteq> FC_AUTH AND 0x00FC then Inr False
           else if take 6 (drop 10 frame) \<noteq> bssid then Inr False
           else if length frame \<le> 27 then Inl IndexOutOfBounds
           else let seq_num = (from_le [frame ! 24, frame ! 25] :: u16);
                    status = (from_le [frame ! 26, frame ! 27] :: u16)
                in Inr (seq_num = 2 \<and> status = 0))"

definition assoc_frame :: "bytes \<Rightarrow> bytes \<Rightarrow> bool rust" where
  "assoc_frame bssid buf =
     (if length buf < 30 then Inr False
      else let frame = drop 4 buf
           in if length frame < 28 then Inr False
           else let fc = (from_le [frame ! 0, frame ! 1] :: u16)
           in if fc AND 0x00FC \<noteq> FC_ASSOC_RESP AND 0x00FC then Inr False
           else if take 6 (drop 10 frame) \<noteq> bssid then Inr False
           else let status = (from_le [frame ! 26, frame ! 27] :: u16)
                in if status \<noteq> 0 then Inr False
                else if length frame \<le> 29 then Inl IndexOutOfBounds
                else Inr True)"

text \<open>A waiting loop: the received buffers in order, until one is accepted.\<close>

primrec wait_for :: "(bytes \<Rightarrow> bool rust) \<Rightarrow> bytes list \<Rightarrow> bool rust" where
  "wait_for check [] = Inr False"
| "wait_for check (buf # bufs) =
     (case check buf of Inl e \<Rightarrow> Inl e | Inr ok \<Rightarrow> if ok then Inr True else wait_for check bufs)"

definition wait_for_auth_response :: "bytes \<Rightarrow> bytes list \<Rightarrow> bool rust" where
  "wait_for_auth_response bssid bufs = wait_for (auth_frame bssid) bufs"

definition wait_for_assoc_response :: "bytes \<Rightarrow> bytes list \<Rightarrow> bool rust" where
  "wait_for_assoc_response bssid bufs = wait_for (assoc_frame bssid) bufs"

definition auth_request :: "bytes \<Rightarrow> bytes \<Rightarrow> bytes" where
  "auth_request our_mac bssid =
     build_mgmt_header FC_AUTH our_mac bssid @ [0x00, 0x00] @ [0x01, 0x00] @ [0x00, 0x00]"

subsection \<open>EAPOL messages\<close>

abbreviation (input) EAPOL_TYPE :: u16 where "EAPOL_TYPE \<equiv> 0x888E"

abbreviation (input) EAPOL_VERSION :: u8 where "EAPOL_VERSION \<equiv> 2"

abbreviation (input) EAPOL_KEY :: u8 where "EAPOL_KEY \<equiv> 3"

abbreviation (input) KEY_INFO_MIC :: u16 where "KEY_INFO_MIC \<equiv> push_bit 8 1"

abbreviation (input) KEY_INFO_ACK :: u16 where "KEY_INFO_ACK \<equiv> push_bit 7 1"

abbreviation (input) KEY_INFO_INSTALL :: u16 where "KEY_INFO_INSTALL \<equiv> push_bit 6 1"

abbreviation (input) KEY_INFO_KEY_TYPE :: u16 where "KEY_INFO_KEY_TYPE \<equiv> push_bit 3 1"

abbreviation (input) KEY_INFO_SECURE :: u16 where "KEY_INFO_SECURE \<equiv> push_bit 9 1"

abbreviation (input) KEY_DESC_AES :: u8 where "KEY_DESC_AES \<equiv> 2"

definition extract_eapol :: "bytes \<Rightarrow> bytes \<Rightarrow> bytes option" where
  "extract_eapol frame expected_src =
     (if length frame < 36 then None
      else let fc = (from_le [frame ! 0, frame ! 1] :: u16)
           in if fc AND 0x000C \<noteq> 0x0008 then None
           else if take 6 (drop 10 frame) \<noteq> expected_src then None
           else let ethertype = (from_be [frame ! 30, frame ! 31] :: u16)
                in if ethertype \<noteq> EAPOL_TYPE then None else Some (drop 32 frame))"

definition msg1_nonce :: "bytes \<Rightarrow> bytes \<Rightarrow> bytes option" where
  "msg1_nonce ap_mac buf =
     (if length buf < 30 then None
      else case extract_eapol (drop 4 buf) ap_mac of
             None \<Rightarrow> None
           | Some eapol \<Rightarrow>
               if length eapol < 95 then None
               else let key_info = (from_be [eapol ! 5, eapol ! 6] :: u16)
                    in if key_info AND KEY_INFO_ACK \<noteq> 0 \<and> key_info AND KEY_INFO_MIC = 0
                       then Some (take 32 (drop 17 eapol)) else None)"

primrec receive_eapol_msg1 :: "bytes \<Rightarrow> bytes list \<Rightarrow> bytes option" where
  "receive_eapol_msg1 ap_mac [] = None"
| "receive_eapol_msg1 ap_mac (buf # bufs) =
     (case msg1_nonce ap_mac buf of Some n \<Rightarrow> Some n | None \<Rightarrow> receive_eapol_msg1 ap_mac bufs)"

definition eapol_head :: "u16 \<Rightarrow> bytes" where
  "eapol_head key_info = [EAPOL_VERSION, EAPOL_KEY, 0x00, 0x5F, KEY_DESC_AES] @ to_be 2 key_info"

text \<open>The code goes to bytes 77 to 92, computed over the frame with zeros there.\<close>

definition with_mic :: "bytes \<Rightarrow> bytes \<Rightarrow> bytes" where
  "with_mic kck eapol = copy_at 77 (eapol_mic kck eapol) eapol"

definition eapol_msg2 :: "bytes \<Rightarrow> bytes \<Rightarrow> bytes" where
  "eapol_msg2 snonce kck =
     (let key_info = KEY_INFO_MIC OR KEY_INFO_KEY_TYPE;
          eapol = copy_at 0 (eapol_head key_info) (replicate 99 0);
          eapol = eapol[7 := 0x00, 8 := 0x10];
          eapol = copy_at 17 snonce eapol
      in with_mic kck eapol)"

definition eapol_msg4 :: "bytes \<Rightarrow> bytes" where
  "eapol_msg4 kck =
     with_mic kck (copy_at 0 (eapol_head (KEY_INFO_MIC OR KEY_INFO_KEY_TYPE OR KEY_INFO_SECURE)) (replicate 99 0))"

definition mic_ok :: "bytes \<Rightarrow> bytes \<Rightarrow> bool" where
  "mic_ok kck eapol \<longleftrightarrow> eapol_mic kck (copy_at 77 (replicate 16 0) eapol) = take 16 (drop 77 eapol)"

definition msg3_ok :: "bytes \<Rightarrow> bytes \<Rightarrow> bytes \<Rightarrow> bool" where
  "msg3_ok ap_mac kck buf =
     (if length buf < 30 then False
      else case extract_eapol (drop 4 buf) ap_mac of
             None \<Rightarrow> False
           | Some eapol \<Rightarrow>
               if length eapol < 95 then False
               else let key_info = (from_be [eapol ! 5, eapol ! 6] :: u16);
                        wanted = KEY_INFO_ACK OR KEY_INFO_MIC OR KEY_INFO_INSTALL
                    in key_info AND wanted = wanted \<and> mic_ok kck eapol)"

definition receive_eapol_msg3 :: "bytes \<Rightarrow> bytes \<Rightarrow> bytes list \<Rightarrow> bool" where
  "receive_eapol_msg3 ap_mac kck bufs = list_ex (msg3_ok ap_mac kck) bufs"

subsection \<open>Connecting\<close>

definition assoc_request_open :: "bytes \<Rightarrow> ApInfo \<Rightarrow> bytes" where
  "assoc_request_open our_mac ap =
     build_mgmt_header FC_ASSOC_REQ our_mac (ap_bssid ap) @ [0x21, 0x00] @ [0x64, 0x00]
     @ ssid_ie (ap_ssid ap) @ rates_ie"

definition rsn_ie :: bytes where
  "rsn_ie = [0x30, 0x14, 0x01, 0x00, 0x00, 0x0F, 0xAC, 0x04, 0x01, 0x00, 0x00, 0x0F, 0xAC, 0x04,
             0x01, 0x00, 0x00, 0x0F, 0xAC, 0x02, 0x00, 0x00]"

definition assoc_request_wpa2 :: "bytes \<Rightarrow> ApInfo \<Rightarrow> bytes" where
  "assoc_request_wpa2 our_mac ap =
     build_mgmt_header FC_ASSOC_REQ our_mac (ap_bssid ap) @ [0x31, 0x04] @ [0x64, 0x00]
     @ ssid_ie (ap_ssid ap) @ rates_ie @ rsn_ie"

definition make_snonce :: "u64 \<Rightarrow> bytes \<Rightarrow> bytes \<Rightarrow> bytes" where
  "make_snonce ts our_mac bssid =
     (let n = map (\<lambda>i. ucast (drop_bit (i * 8) ts AND 0xFF)) [0..<8] @ our_mac @ bssid @ replicate 12 0
      in fold (\<lambda>i n. n[i := of_nat i * 0x37 + n ! (i - 1)]) [20..<32] n)"

text \<open>The result of a connection attempt, the frames sent and the key material installed.\<close>

record Attempt =
  at_ok :: bool
  at_sent :: "bytes list"
  at_key :: "(bytes \<times> bytes \<times> bytes) option"

definition connect_open :: "bytes \<Rightarrow> ApInfo \<Rightarrow> bytes list \<Rightarrow> bytes list \<Rightarrow> Attempt rust" where
  "connect_open our_mac ap rx_auth rx_assoc =
     (let bssid = ap_bssid ap;
          auth = auth_request our_mac bssid;
          assoc = assoc_request_open our_mac ap
      in case wait_for_auth_response bssid rx_auth of
           Inl e \<Rightarrow> Inl e
         | Inr ok \<Rightarrow>
             if \<not> ok then Inr \<lparr>at_ok = False, at_sent = [auth], at_key = None\<rparr>
             else (case wait_for_assoc_response bssid rx_assoc of
                     Inl e \<Rightarrow> Inl e
                   | Inr ok \<Rightarrow> Inr \<lparr>at_ok = ok, at_sent = [auth, assoc], at_key = None\<rparr>))"

definition connect_wpa2 ::
  "bytes \<Rightarrow> u64 \<Rightarrow> ApInfo \<Rightarrow> bytes \<Rightarrow> bytes list \<Rightarrow> bytes list \<Rightarrow> bytes list \<Rightarrow> bytes list \<Rightarrow> Attempt rust" where
  "connect_wpa2 our_mac ts ap passphrase rx_auth rx_assoc rx_msg1 rx_msg3 =
     (let bssid = ap_bssid ap;
          pmk = derive_pmk passphrase (ap_ssid ap);
          auth = auth_request our_mac bssid;
          assoc = assoc_request_wpa2 our_mac ap;
          snonce = make_snonce ts our_mac bssid
      in case wait_for_auth_response bssid rx_auth of
           Inl e \<Rightarrow> Inl e
         | Inr ok \<Rightarrow>
             if \<not> ok then Inr \<lparr>at_ok = False, at_sent = [auth], at_key = None\<rparr>
      else case wait_for_assoc_response bssid rx_assoc of
           Inl e \<Rightarrow> Inl e
         | Inr ok \<Rightarrow>
             if \<not> ok then Inr \<lparr>at_ok = False, at_sent = [auth, assoc], at_key = None\<rparr>
      else case receive_eapol_msg1 bssid rx_msg1 of
           None \<Rightarrow> Inr \<lparr>at_ok = False, at_sent = [auth, assoc], at_key = None\<rparr>
         | Some anonce \<Rightarrow>
             (let ptk = derive_ptk pmk anonce snonce bssid our_mac;
                  kck = take 16 ptk;
                  msg2 = build_data_frame our_mac bssid EAPOL_TYPE (eapol_msg2 snonce kck)
              in if \<not> receive_eapol_msg3 bssid kck rx_msg3
                 then Inr \<lparr>at_ok = False, at_sent = [auth, assoc, msg2], at_key = None\<rparr>
                 else let msg4 = build_data_frame our_mac bssid EAPOL_TYPE (eapol_msg4 kck)
                      in Inr \<lparr>at_ok = True, at_sent = [auth, assoc, msg2, msg4],
                              at_key = Some (take 16 (drop 32 ptk), bssid, our_mac)\<rparr>))"

subsection \<open>Lengths\<close>

lemma length_xor16 [simp]: "length (xor16 a b) = min (length a) (length b)"
  by (simp add: xor16_def)

lemma length_shl_block [simp]: "length (shl_block l) = length l"
proof -
  have "length (fold (\<lambda>i k. k[i := push_bit 1 (k ! i) OR drop_bit 7 (k ! (i + 1))]) is l) = length l" for "is"
    by (induction "is" arbitrary: l) simp_all
  then show ?thesis by (simp add: shl_block_def Let_def)
qed

lemma length_subkey [simp]: "length (subkey l) = length l"
  by (simp add: subkey_def Let_def)

lemma cmac_chain_length:
  "length rk = 176 \<Longrightarrow> length x = 16 \<Longrightarrow> \<forall>i \<in> set is. i * 16 + 16 \<le> length msg \<Longrightarrow>
     length (fold (\<lambda>i x. aes128_encrypt rk (xor16 x (take 16 (drop (i * 16) msg)))) is x) = 16"
proof (induction "is" arbitrary: x)
  case (Cons i "is")
  then have "16 \<le> length msg - i * 16" by auto
  then have "length (xor16 x (take 16 (drop (i * 16) msg))) = 16" using Cons.prems by simp
  then show ?case using Cons by (simp add: aes_length)
qed simp

lemma length_eapol_mic:
  assumes "length key = 16"
  shows "length (eapol_mic key msg) = 16"
proof -
  let ?rk = "aes128_key_expand key"
  obtain k1 k2 where g: "generate_subkeys ?rk = (k1, k2)" "length k1 = 16" "length k2 = 16"
    using assms by (auto simp: generate_subkeys_def Let_def aes_length)
  have rk: "length ?rk = 176" using assms by simp
  show ?thesis
  proof (cases "(length msg + 15) div 16 = 0")
    case True
    then have "msg = []" by (simp add: div_eq_0_iff)
    then show ?thesis using g rk by (simp add: eapol_mic_def aes_cmac_def aes_length copy_at_def Let_def)
  next
    case False
    define n where "n = (length msg + 15) div 16"
    define x where "x = fold (\<lambda>i x. aes128_encrypt ?rk (xor16 x (take 16 (drop (i * 16) msg)))) [0..<n - 1] (replicate 16 0)"
    have last: "(n - 1) * 16 \<le> length msg" "length msg - (n - 1) * 16 \<le> 16"
      unfolding n_def by linarith+
    have "\<forall>i \<in> set [0..<n - 1]. i * 16 + 16 \<le> length msg" using last by auto
    then have lx: "length x = 16" unfolding x_def using rk by (intro cmac_chain_length) simp_all
    define l where "l = copy_at 0 (drop ((n - 1) * 16) msg) (replicate 16 (0::u8))"
    have ll: "length l = 16" unfolding l_def using last by (subst length_copy_at) simp_all
    have "eapol_mic key msg = aes128_encrypt ?rk (xor16 x (if length msg mod 16 = 0 then xor16 l k1
        else xor16 (l[length msg - (n - 1) * 16 := 0x80]) k2))"
      unfolding eapol_mic_def aes_cmac_def Let_def g(1) x_def l_def n_def using False
      by (simp only: prod.case if_False)
    then show ?thesis using lx ll g rk by (simp add: aes_length)
  qed
qed

subsection \<open>Frames and messages that come back\<close>

lemma extract_built:
  assumes "length src = 6" and "length dst = 6" and "4 \<le> length payload"
  shows "extract_eapol (build_data_frame src dst EAPOL_TYPE payload) src = Some payload"
proof -
  let ?f = "build_data_frame src dst EAPOL_TYPE payload"
  have split: "?f = ([0x08, 0x01] @ [0x00, 0x00] @ dst) @ src @ (dst @ [0x00, 0x00] @ llc_snap) @ to_be 2 EAPOL_TYPE @ payload"
    by (simp add: build_data_frame_def)
  have "take 6 (drop 10 ?f) = src" unfolding split using assms by simp
  moreover have "from_be [?f ! 30, ?f ! 31] = (EAPOL_TYPE :: u16)"
  proof -
    obtain a b where ab: "to_be 2 EAPOL_TYPE = [a, b]" by (auto simp: to_be_def upt_rec)
    then have "?f ! 30 = a" "?f ! 31 = b" unfolding split using assms by (simp_all add: llc_snap_def nth_append)
    then show ?thesis using be16.dec_enc [of EAPOL_TYPE] ab by simp
  qed
  moreover have "drop 32 ?f = payload" "\<not> length ?f < 36" unfolding split using assms by (simp_all add: llc_snap_def)
  moreover have "(from_le [?f ! 0, ?f ! 1] :: u16) AND 0x000C = 0x0008"
    by (simp add: build_data_frame_def from_le_def from_be_def)
  ultimately show ?thesis by (simp add: extract_eapol_def Let_def)
qed

lemma copy_at_twice:
  "length a = length b \<Longrightarrow> n + length b \<le> length xs \<Longrightarrow> copy_at n a (copy_at n b xs) = copy_at n a xs"
  by (simp add: copy_at_def)

lemma copy_at_same:
  assumes "n + length src \<le> length xs" and "take (length src) (drop n xs) = src"
  shows "copy_at n src xs = xs"
proof -
  have "src @ drop (length src) (drop n xs) = drop n xs"
    using assms(2) append_take_drop_id [of "length src" "drop n xs"] by simp
  then show ?thesis by (simp add: copy_at_def add.commute)
qed

lemma mic_verifies:
  assumes "length kck = 16" and "93 \<le> length e" and "take 16 (drop 77 e) = replicate 16 0"
  shows "mic_ok kck (with_mic kck e)"
proof -
  have l: "length (eapol_mic kck e) = 16" using assms(1) by (rule length_eapol_mic)
  have "copy_at 77 (replicate 16 0) (with_mic kck e) = copy_at 77 (replicate 16 0) e"
    unfolding with_mic_def using assms(2) l by (intro copy_at_twice) simp_all
  also have "\<dots> = e" using assms(2,3) by (intro copy_at_same) simp_all
  moreover have "take 16 (drop 77 (with_mic kck e)) = eapol_mic kck e"
    using assms(2) l by (simp add: with_mic_def copy_at_def)
  ultimately show ?thesis by (simp add: mic_ok_def)
qed

lemma length_eapol_head [simp]: "length (eapol_head k) = 7"
  by (simp add: eapol_head_def)

lemma length_with_mic: "length kck = 16 \<Longrightarrow> 93 \<le> length e \<Longrightarrow> length (with_mic kck e) = length e"
  by (simp add: with_mic_def length_eapol_mic)

definition msg2_body :: "bytes \<Rightarrow> bytes" where
  "msg2_body snonce = copy_at 17 snonce ((copy_at 0 (eapol_head (KEY_INFO_MIC OR KEY_INFO_KEY_TYPE))
     (replicate 99 0))[7 := 0x00, 8 := 0x10])"

lemma msg2_body_facts:
  assumes "length snonce = 32"
  shows "length (msg2_body snonce) = 99" and "take 16 (drop 77 (msg2_body snonce)) = replicate 16 0"
    and "take 32 (drop 17 (msg2_body snonce)) = snonce"
  using assms by (simp_all add: msg2_body_def copy_at_def drop_update_cancel)

text \<open>The second message of the handshake, taken out of the data frame the driver sends, is the
  message, carries the station's nonce where the first message carries the access point's, and
  passes the code check the driver applies to the third message.\<close>

theorem eapol_message_roundtrip:
  assumes "length our_mac = 6" and "length bssid = 6" and "length snonce = 32" and "length kck = 16"
  shows "extract_eapol (build_data_frame our_mac bssid EAPOL_TYPE (eapol_msg2 snonce kck)) our_mac =
           Some (eapol_msg2 snonce kck) \<and>
         take 32 (drop 17 (eapol_msg2 snonce kck)) = snonce \<and> mic_ok kck (eapol_msg2 snonce kck)"
proof -
  have m: "eapol_msg2 snonce kck = with_mic kck (msg2_body snonce)"
    by (simp add: eapol_msg2_def msg2_body_def Let_def)
  note b = msg2_body_facts [OF assms(3)]
  have l: "length (eapol_msg2 snonce kck) = 99" unfolding m using b(1) assms(4) by (simp add: length_with_mic)
  have "take 32 (drop 17 (with_mic kck (msg2_body snonce))) = take 32 (drop 17 (msg2_body snonce))"
    using b(1) by (simp add: with_mic_def copy_at_def drop_take)
  then show ?thesis
    using extract_built [OF assms(1,2), of "eapol_msg2 snonce kck"] l b mic_verifies [OF assms(4), of "msg2_body snonce"]
    by (simp add: m)
qed

theorem eapol_message_roundtrip_witness:
  "mic_ok (replicate 16 5) (eapol_msg2 (replicate 32 9) (replicate 16 5))"
  using eapol_message_roundtrip [of "replicate 6 2" "replicate 6 1" "replicate 32 9" "replicate 16 5"] by simp

end
