(* ===== verification/Wifi.thy ===== *)
theory Wifi
  imports Wifi_Frames
begin

section \<open>The WiFi interface\<close>

text \<open>
  Model of \<^verbatim>\<open>kernel/src/wifi/mod.rs\<close> on top of the frames of theory \<open>Wifi_Frames\<close>: the connection state,
  the encrypted and open transmit paths, the receive path that hands Ethernet frames to the network
  stack, and the properties of the connection procedure. The network stack's answer to a frame,
  the USB transfers and the clock are arguments.
\<close>

record WifiState =
  w_connected :: bool
  w_current_ap :: "ApInfo option"
  w_scan_cache :: "ApInfo list"
  w_ready :: bool
  w_slot :: u8
  w_pn :: u64
  w_last_keepalive :: u64
  w_ip :: bytes
  w_bssid :: bytes
  w_tk :: bytes
  w_mac :: bytes

definition wifi_new :: WifiState where
  "wifi_new = \<lparr>w_connected = False, w_current_ap = None, w_scan_cache = [], w_ready = False, w_slot = 0xFF,
     w_pn = 1, w_last_keepalive = 0, w_ip = replicate 4 0, w_bssid = replicate 6 0, w_tk = replicate 16 0,
     w_mac = replicate 6 0\<rparr>"

text \<open>\<open>loaded\<close> is the outcome of the firmware download.\<close>

definition ar9271_attach :: "u8 \<Rightarrow> bool \<Rightarrow> WifiState \<Rightarrow> WifiState" where
  "ar9271_attach slot loaded w = w\<lparr>w_slot := slot, w_ready := (loaded \<or> w_ready w)\<rparr>"

definition wifi_scan :: "(u8 \<Rightarrow> bytes list) \<Rightarrow> WifiState \<Rightarrow> ApInfo list \<times> WifiState" where
  "wifi_scan heard w =
     (if w_slot w = 0xFF then (w_scan_cache w, w)
      else let aps = scan_networks heard
           in (aps, if aps \<noteq> [] then w\<lparr>w_scan_cache := aps\<rparr> else w))"

definition set_tk :: "bytes \<Rightarrow> bytes \<Rightarrow> bytes \<Rightarrow> WifiState \<Rightarrow> WifiState" where
  "set_tk tk bssid our_mac w = w\<lparr>w_tk := tk, w_bssid := bssid, w_mac := our_mac\<rparr>"

definition wifi_set_ip :: "bytes \<Rightarrow> WifiState \<Rightarrow> WifiState" where
  "wifi_set_ip ip w = w\<lparr>w_ip := ip\<rparr>"

text \<open>
  Associating: \<open>attempt\<close> is the outcome of the procedure for the network found in the cache, with the
  key material it installs. The address request that follows changes only the address.
\<close>

definition wifi_connect :: "bytes \<Rightarrow> (ApInfo \<Rightarrow> Attempt rust) \<Rightarrow> WifiState \<Rightarrow> (bool \<times> WifiState) rust" where
  "wifi_connect ssid attempt w =
     (if \<not> w_ready w then Inr (False, w)
      else case List.find (\<lambda>a. ap_ssid a = ssid) (w_scan_cache w) of
             None \<Rightarrow> Inr (False, w)
           | Some ap \<Rightarrow>
               (case attempt ap of
                  Inl e \<Rightarrow> Inl e
                | Inr a \<Rightarrow>
                    (let w1 = (case at_key a of Some (tk, bssid, our_mac) \<Rightarrow> set_tk tk bssid our_mac w | None \<Rightarrow> w)
                     in Inr (at_ok a, if at_ok a then w1\<lparr>w_connected := True, w_current_ap := Some ap\<rparr> else w1))))"

definition wifi_disconnect :: "WifiState \<Rightarrow> WifiState" where
  "wifi_disconnect w = w\<lparr>w_connected := False, w_current_ap := None\<rparr>"

subsection \<open>Transmitting\<close>

definition tx_header :: "bytes \<Rightarrow> bytes \<Rightarrow> bytes \<Rightarrow> bytes" where
  "tx_header bssid our_mac eth_frame =
     [0x08, 0x41, 0, 0] @ bssid @ our_mac @ take 6 eth_frame @ [0, 0]"

definition llc_payload :: "bytes \<Rightarrow> bytes" where
  "llc_payload eth_frame =
     (let ethertype = (from_be [eth_frame ! 12, eth_frame ! 13] :: u16)
      in llc_snap @ to_be 2 ethertype @ drop 14 eth_frame)"

text \<open>The frame sent, if any, and the state with the packet number taken.\<close>

definition wifi_tx :: "bytes \<Rightarrow> WifiState \<Rightarrow> bytes option \<times> WifiState" where
  "wifi_tx eth_frame w =
     (if length eth_frame < 14 then (None, w)
      else let pn = w_pn w;
               mac_hdr = tx_header (w_bssid w) (w_mac w) eth_frame;
               plaintext = llc_payload eth_frame;
               ciphertext = ccmp_encrypt (w_tk w) mac_hdr (w_mac w) pn plaintext
           in (Some (mac_hdr @ ccmp_header pn @ ciphertext), w\<lparr>w_pn := pn + 1\<rparr>))"

definition wifi_tx_open :: "bytes \<Rightarrow> WifiState \<Rightarrow> bytes option" where
  "wifi_tx_open eth_frame w =
     (if length eth_frame < 14 then None
      else let ethertype = (from_be [eth_frame ! 12, eth_frame ! 13] :: u16)
           in Some (build_data_frame (w_mac w) (w_bssid w) ethertype (drop 14 eth_frame)))"

subsection \<open>Receiving\<close>

datatype received = Protected bytes | Plain bytes

definition rx_ethernet :: "bytes \<Rightarrow> bytes \<Rightarrow> received option" where
  "rx_ethernet tk buf =
     (if length buf < 32 then None
      else let frame = drop 4 buf;
               fc = (from_le [frame ! 0, frame ! 1] :: u16);
               frame_type = drop_bit 2 fc AND 0x3;
               frame_subtype = drop_bit 4 fc AND 0xF
           in if frame_type = 2 \<and> fc AND 0x4000 \<noteq> 0 then
                (case ccmp_decrypt tk frame of
                   None \<Rightarrow> None
                 | Some plaintext \<Rightarrow>
                     if length plaintext < 8 then None
                     else Some (Protected (take 6 (drop 4 frame) @ take 6 (drop 16 frame)
                            @ take 2 (drop 6 plaintext) @ drop 8 plaintext)))
              else if frame_type = 2 \<and> frame_subtype = 0 then
                (if length frame < 32 then None
                 else Some (Plain (take 6 (drop 4 frame) @ take 6 (drop 16 frame) @ take 2 (drop 30 frame) @ drop 32 frame)))
              else None)"

definition null_frame :: "WifiState \<Rightarrow> bytes" where
  "null_frame w = [0x48, 0x01, 0, 0] @ w_bssid w @ w_mac w @ w_bssid w @ [0, 0]"

text \<open>One poll at time \<open>now\<close>: a keep-alive every thirty seconds, then at most one received buffer.\<close>

definition wifi_poll :: "(bytes \<Rightarrow> bytes option) \<Rightarrow> u64 \<Rightarrow> bytes \<Rightarrow> WifiState \<Rightarrow> bytes list \<times> WifiState" where
  "wifi_poll handle_frame now buf w =
     (if w_slot w = 0xFF \<or> \<not> w_connected w then ([], w)
      else let (sent, w1) = (if 30000 \<le> saturating_sub now (w_last_keepalive w)
                             then ([null_frame w], w\<lparr>w_last_keepalive := now\<rparr>) else ([], w))
           in case rx_ethernet (w_tk w1) buf of
                None \<Rightarrow> (sent, w1)
              | Some (Protected eth) \<Rightarrow>
                  (case handle_frame eth of
                     None \<Rightarrow> (sent, w1)
                   | Some reply \<Rightarrow> (let (f, w2) = wifi_tx reply w1 in (sent @ (case f of Some x \<Rightarrow> [x] | None \<Rightarrow> []), w2)))
              | Some (Plain eth) \<Rightarrow>
                  (case handle_frame eth of
                     None \<Rightarrow> (sent, w1)
                   | Some reply \<Rightarrow> (sent @ (case wifi_tx_open reply w1 of Some x \<Rightarrow> [x] | None \<Rightarrow> []), w1)))"

subsection \<open>Protected frames\<close>

lemma length_tx_header:
  "length bssid = 6 \<Longrightarrow> length mac = 6 \<Longrightarrow> 6 \<le> length eth \<Longrightarrow> length (tx_header bssid mac eth) = 24"
  by (simp add: tx_header_def)

lemma length_ccmp_header [simp]: "length (ccmp_header pn) = 8"
  by (simp add: ccmp_header_def)

lemma ccmp_encrypt_take: "ccmp_encrypt tk h a2 (take_bit 48 pn) p = ccmp_encrypt tk h a2 pn p"
  by (simp add: ccmp_encrypt_def nonce_take Let_def)

lemma length_ccmp_encrypt:
  "length tk = 16 \<Longrightarrow> length a2 = 6 \<Longrightarrow> length h = 24 \<Longrightarrow> length (ccmp_encrypt tk h a2 pn p) = length p + 8"
  by (simp add: ccmp_encrypt_def Let_def ctr_length mic_length)

lemma decrypt_built:
  assumes "length tk = 16" and "length h = 24" and "a2 = take 6 (drop 10 h)"
  shows "ccmp_decrypt tk (h @ ccmp_header pn @ ccmp_encrypt tk h a2 pn p) = Some p"
proof -
  let ?f = "h @ ccmp_header pn @ ccmp_encrypt tk h a2 pn p"
  have a2: "length a2 = 6" using assms(2,3) by simp
  have "40 \<le> length ?f" using length_ccmp_encrypt [OF assms(1) a2 assms(2)] assms(2) by simp
  moreover have "drop 32 ?f = ccmp_encrypt tk h a2 pn p" "take 24 ?f = h" "take 6 (drop 10 ?f) = a2"
    "take 8 (drop 24 ?f) = ccmp_header pn"
    using assms(2,3) by simp_all
  ultimately show ?thesis
    using ccmp_accepts_iff [OF assms(1), of ?f p] by (simp add: pn_roundtrip ccmp_encrypt_take)
qed

lemma nonce_inj:
  assumes "unat pn < 2 ^ 48" and "unat pn' < 2 ^ 48" and "ccmp_nonce a2 pn = ccmp_nonce a2 pn'"
  shows "pn = pn'"
proof -
  have "ccmp_header pn = ccmp_header pn'" using assms(3) by (simp add: ccmp_nonce_def ccmp_header_def)
  then have "take_bit 48 pn = take_bit 48 pn'" using pn_roundtrip by metis
  moreover have "take_bit 48 x = x" if "unat x < 2 ^ 48" for x :: u64
    using that take_bit_unat [of 48 x] take_bit_nat_eq_self [of "unat x" 48] by (simp add: word_unat_eq_iff)
  ultimately show ?thesis using assms(1,2) by metis
qed

text \<open>Sending a list of frames one after the other.\<close>

primrec wifi_send :: "bytes list \<Rightarrow> WifiState \<Rightarrow> WifiState" where
  "wifi_send [] w = w"
| "wifi_send (f # fs) w = wifi_send fs (snd (wifi_tx f w))"

lemma wifi_tx_state: "14 \<le> length f \<Longrightarrow> snd (wifi_tx f w) = w\<lparr>w_pn := w_pn w + 1\<rparr>"
  by (simp add: wifi_tx_def Let_def)

lemma wifi_send_state: "\<forall>f \<in> set fs. 14 \<le> length f \<Longrightarrow> wifi_send fs w = w\<lparr>w_pn := w_pn w + of_nat (length fs)\<rparr>"
  by (induction fs arbitrary: w) (simp_all add: wifi_tx_state algebra_simps)


definition wifi_example :: WifiState where
  "wifi_example = set_tk (replicate 16 3) (replicate 6 1) (replicate 6 2) wifi_new"


subsection \<open>Information elements\<close>

definition enc_ie :: "u8 \<times> bytes \<Rightarrow> bytes" where
  "enc_ie ie = fst ie # of_nat (length (snd ie)) # snd ie"

definition ie_step :: "u8 \<times> bytes \<Rightarrow> bytes \<times> u8 \<Rightarrow> bytes \<times> u8" where
  "ie_step ie st =
     (if fst ie = IE_SSID then (if utf8_valid (snd ie) then snd ie else [], snd st)
      else if fst ie = IE_DS_PARAM \<and> length (snd ie) = 1 then (fst st, snd ie ! 0) else st)"

lemma parse_one_ie:
  assumes "length (snd ie) < 256"
  shows "parse_ies (enc_ie ie @ rest) st = parse_ies rest (ie_step ie st)"
proof -
  obtain tag data where ie: "ie = (tag, data)" by fastforce
  obtain ssid ch where st: "st = (ssid, ch)" by fastforce
  have u: "unat (of_nat (length data) :: u8) = length data"
    using assms ie by (simp add: unat_of_nat)
  have "(of_nat (length data) :: u8) = 1 \<longleftrightarrow> length data = 1"
    using u unat_1 [where 'a = 8] by (metis of_nat_1)
  then show ?thesis using u by (simp add: ie st enc_ie_def ie_step_def Let_def)
qed

lemma parse_encoded_ies:
  "\<forall>ie \<in> set ies. length (snd ie) < 256 \<Longrightarrow>
     parse_ies (concat (map enc_ie ies) @ rest) st = parse_ies rest (fold ie_step ies st)"
  by (induction ies arbitrary: st) (simp_all add: parse_one_ie)

subsection \<open>Authentication\<close>

text \<open>An authentication response in the field order the driver uses for its own request.\<close>

definition auth_reply :: "bytes \<Rightarrow> bytes \<Rightarrow> bytes" where
  "auth_reply our_mac bssid =
     to_le 2 FC_AUTH @ [0x00, 0x00] @ our_mac @ bssid @ bssid @ [0x00, 0x00] @ [0x00, 0x00] @ [0x02, 0x00] @ [0x00, 0x00]"

lemma le_FC_AUTH: "to_le 2 FC_AUTH = [0xB0, 0x00]"
  by (simp add: to_le_def to_be_def upt_rec)

lemma auth_reply_refused:
  assumes "length our_mac = 6" and "length bssid = 6" and "length desc = 4"
  shows "auth_frame bssid (desc @ auth_reply our_mac bssid) = Inr False"
proof -
  let ?f = "auth_reply our_mac bssid"
  have f: "?f = ([0xB0, 0x00, 0x00, 0x00] @ our_mac) @ bssid @ bssid @ [0x00, 0x00, 0x00, 0x00, 0x02, 0x00, 0x00, 0x00]"
    by (simp add: auth_reply_def le_FC_AUTH)
  have nth: "?f ! 24 = 0" "?f ! 25 = 0" unfolding f using assms by (simp_all add: nth_append)
  have "length ?f = 30" unfolding f using assms by simp
  moreover have "from_le [0, 0 :: u8] = (0::u16)" by (simp add: from_le_def from_be_def)
  ultimately show ?thesis using assms nth by (simp add: auth_frame_def Let_def)
qed

lemma short_auth_panics:
  assumes "length our_mac = 6" and "length bssid = 6" and "length desc = 4"
  shows "auth_frame bssid (desc @ take 26 (auth_reply our_mac bssid)) = Inl IndexOutOfBounds"
proof -
  have f: "take 26 (auth_reply our_mac bssid) =
      ([0xB0, 0x00, 0x00, 0x00] @ our_mac) @ bssid @ bssid @ [0x00, 0x00, 0x00, 0x00]"
    using assms by (simp add: auth_reply_def le_FC_AUTH)
  have "(from_le [0xB0, 0x00 :: u8] :: u16) AND 0xFC = FC_AUTH AND 0xFC"
    by (simp add: from_le_def from_be_def)
  then show ?thesis using assms unfolding f by (simp add: auth_frame_def Let_def)
qed

text \<open>The driver reads the sequence number and status of an authentication response two bytes
  too early: a successful response in the layout of its own request is skipped, so waiting for it
  times out, and a response of 26 bytes makes it read past the end.\<close>

theorem auth_response_misread:
  assumes "length our_mac = 6" and "length bssid = 6" and "length desc = 4"
  shows "wait_for_auth_response bssid (replicate n (desc @ auth_reply our_mac bssid)) = Inr False \<and>
         wait_for_auth_response bssid [desc @ take 26 (auth_reply our_mac bssid)] = Inl IndexOutOfBounds"
proof -
  have "wait_for (auth_frame bssid) (replicate n (desc @ auth_reply our_mac bssid)) = Inr False"
    by (induction n) (simp_all add: auth_reply_refused [OF assms])
  then show ?thesis using short_auth_panics [OF assms] by (simp add: wait_for_auth_response_def)
qed

theorem auth_response_misread_witness:
  "wait_for_auth_response (replicate 6 1) [replicate 4 0 @ auth_reply (replicate 6 2) (replicate 6 1)] = Inr False"
  using auth_response_misread [of "replicate 6 2" "replicate 6 1" "replicate 4 0" 1] by (simp)

subsection \<open>The handshake\<close>

lemma msg3_verified:
  assumes "receive_eapol_msg3 bssid kck bufs"
  shows "\<exists>buf \<in> set bufs. \<exists>eapol. extract_eapol (drop 4 buf) bssid = Some eapol \<and> mic_ok kck eapol"
  using assms by (auto simp: receive_eapol_msg3_def list_ex_iff msg3_ok_def Let_def split: if_splits option.splits)


text \<open>A complete handshake, with the messages of an access point that knows the passphrase.\<close>

definition ap_example :: ApInfo where
  "ap_example = \<lparr>ap_ssid = [0x61], ap_bssid = replicate 6 1, ap_channel = 1, ap_rssi = 0, ap_secured = True\<rparr>"

definition mac_example :: bytes where
  "mac_example = replicate 6 2"

definition mgmt_reply :: "u8 \<Rightarrow> bytes \<Rightarrow> bytes" where
  "mgmt_reply fc body = replicate 4 0 @ [fc, 0, 0, 0] @ mac_example @ ap_bssid ap_example @ ap_bssid ap_example @ [0, 0] @ body"

definition key_message :: "bytes \<Rightarrow> bytes" where
  "key_message eapol = replicate 4 0 @ build_data_frame (ap_bssid ap_example) mac_example EAPOL_TYPE eapol"

definition key_body :: "u16 \<Rightarrow> bytes" where
  "key_body info = copy_at 0 (eapol_head info) (replicate 99 0)"

definition ptk_example :: bytes where
  "ptk_example = derive_ptk (derive_pmk [0x70] [0x61]) (replicate 32 0)
     (make_snonce 0 mac_example (ap_bssid ap_example)) (ap_bssid ap_example) mac_example"

lemma key_body_facts:
  "length (key_body i) = 99" "take 16 (drop 77 (key_body i)) = replicate 16 0"
  "take 32 (drop 17 (key_body i)) = replicate 32 0" "[key_body i ! 5, key_body i ! 6] = to_be 2 i"
proof -
  show "[key_body i ! 5, key_body i ! 6] = to_be 2 i"
    by (simp add: key_body_def copy_at_def eapol_head_def to_be_def upt_rec nth_append)
qed (simp_all add: key_body_def copy_at_def)

lemma example_lengths: "length mac_example = 6" "length (ap_bssid ap_example) = 6"
  by (simp_all add: mac_example_def ap_example_def)

lemma extract_key_message:
  assumes "99 \<le> length e"
  shows "\<not> length (key_message e) < 30" and "extract_eapol (drop 4 (key_message e)) (ap_bssid ap_example) = Some e"
  using extract_built [OF example_lengths(2,1), of e] assms example_lengths
  by (simp_all add: key_message_def build_data_frame_def llc_snap_def)

lemma auth_example: "auth_frame (ap_bssid ap_example) (mgmt_reply 0xB0 [2, 0, 0, 0]) = Inr True"
  by code_simp

lemma assoc_example: "assoc_frame (ap_bssid ap_example) (mgmt_reply 0x10 [0, 0, 0, 0, 1, 0]) = Inr True"
  by code_simp

lemma msg1_example: "msg1_nonce (ap_bssid ap_example) (key_message (key_body KEY_INFO_ACK)) = Some (replicate 32 0)"
proof -
  let ?e = "key_body KEY_INFO_ACK"
  have i: "from_be [?e ! 5, ?e ! 6] = KEY_INFO_ACK" using key_body_facts(4) be16.dec_enc by simp
  have "KEY_INFO_ACK AND KEY_INFO_ACK \<noteq> 0" "KEY_INFO_ACK AND KEY_INFO_MIC = 0"
    by simp_all
  then show ?thesis using extract_key_message [of ?e] i by (simp add: msg1_nonce_def key_body_facts Let_def)
qed

lemma msg3_example:
  assumes "length kck = 16"
  shows "msg3_ok (ap_bssid ap_example) kck
     (key_message (with_mic kck (key_body (KEY_INFO_ACK OR KEY_INFO_MIC OR KEY_INFO_INSTALL))))"
proof -
  let ?i = "KEY_INFO_ACK OR KEY_INFO_MIC OR KEY_INFO_INSTALL"
  let ?b = "key_body ?i" and ?e = "with_mic kck (key_body (KEY_INFO_ACK OR KEY_INFO_MIC OR KEY_INFO_INSTALL))"
  have l: "length ?e = 99" using assms by (simp add: length_with_mic key_body_facts(1))
  have "?e ! 5 = ?b ! 5" "?e ! 6 = ?b ! 6"
    by (simp_all add: with_mic_def copy_at_def nth_append key_body_facts(1))
  then have i: "from_be [?e ! 5, ?e ! 6] = ?i" using key_body_facts(4) [of ?i] be16.dec_enc by simp
  have "mic_ok kck ?e" using assms by (intro mic_verifies) (simp_all add: key_body_facts)
  then show ?thesis using extract_key_message [of ?e] i l by (simp add: msg3_ok_def Let_def)
qed


end
