(* ===== verification/Hot_Lock.thy ===== *)
theory Hot_Lock
  imports Prelude "HOL-Library.List_Lexorder" "HOL-Library.Char_ord"
begin

section \<open>The self-splitting map\<close>

text \<open>
  Model of \<^verbatim>\<open>kernel/src/hot_lock.rs\<close>: a map behind one lock that moves its entries to eight
  locked shards once more than 1000 contended accesses were counted. Keys are byte strings (the
  trait bound \<^verbatim>\<open>AsRef<[u8]>\<close>), so \<^verbatim>\<open>String\<close> keys are HOL strings, whose order by characters is the
  byte order of Rust. Whether \<^verbatim>\<open>try_lock\<close> fails depends on the other processors and is the
  argument \<open>busy\<close>. Each operation loads the flag \<^verbatim>\<open>sharded\<close> once and then works under a lock; the
  part after the load is a definition of its own (\<open>_routed\<close>), so that an operation can also be
  run with a flag loaded before another processor split the map.

  The operations on whole maps refine one partial function, first as a contract (\<open>map_like\<close>) that
  the directories of the file system rely on.
\<close>

definition SHARD_COUNT :: nat where "SHARD_COUNT = 8"

definition key_bytes :: "string \<Rightarrow> u8 list" where
  "key_bytes k = map of_char k"

record 'v HotMap =
  global_lock :: "(string, 'v) btree"
  sharded :: bool
  shards :: "(string, 'v) btree list"
  contention :: u64

definition hot_new :: "'v HotMap" where
  "hot_new = \<lparr>global_lock = [], sharded = False, shards = replicate SHARD_COUNT [], contention = 0\<rparr>"

definition shard_idx :: "string \<Rightarrow> nat" where
  "shard_idx key = unat (fnv1a (key_bytes key)) mod SHARD_COUNT"

text \<open>The split: every key of the global map is removed from it and inserted into its shard.\<close>

definition move_key :: "string \<Rightarrow> 'v HotMap \<Rightarrow> 'v HotMap" where
  "move_key k hm =
     (case bt_get (global_lock hm) k of
        None \<Rightarrow> hm
      | Some v \<Rightarrow> let idx = shard_idx k
                  in hm\<lparr>global_lock := bt_remove k (global_lock hm),
                        shards := (shards hm)[idx := bt_insert k v (shards hm ! idx)]\<rparr>)"

definition check_split :: "'v HotMap \<Rightarrow> 'v HotMap" where
  "check_split hm =
     (if contention hm > 1000
      then if sharded hm then hm
           else (fold move_key (map fst (global_lock hm)) hm)\<lparr>sharded := True\<rparr>
      else hm)"

definition contend :: "'v HotMap \<Rightarrow> 'v HotMap" where
  "contend hm = hm\<lparr>contention := contention hm + 1\<rparr>"

definition hot_insert_routed :: "bool \<Rightarrow> bool \<Rightarrow> string \<Rightarrow> 'v \<Rightarrow> 'v HotMap \<Rightarrow> 'v HotMap" where
  "hot_insert_routed is_sharded busy key v hm =
     (if is_sharded
      then let idx = shard_idx key in hm\<lparr>shards := (shards hm)[idx := bt_insert key v (shards hm ! idx)]\<rparr>
      else if \<not> busy then hm\<lparr>global_lock := bt_insert key v (global_lock hm)\<rparr>
      else let hm1 = contend hm
           in check_split (hm1\<lparr>global_lock := bt_insert key v (global_lock hm1)\<rparr>))"

definition hot_insert :: "bool \<Rightarrow> string \<Rightarrow> 'v \<Rightarrow> 'v HotMap \<Rightarrow> 'v HotMap" where
  "hot_insert busy key v hm = hot_insert_routed (sharded hm) busy key v hm"

definition hot_get_routed :: "bool \<Rightarrow> bool \<Rightarrow> string \<Rightarrow> 'v HotMap \<Rightarrow> 'v option \<times> 'v HotMap" where
  "hot_get_routed is_sharded busy key hm =
     (if is_sharded then (bt_get (shards hm ! shard_idx key) key, hm)
      else if \<not> busy then (bt_get (global_lock hm) key, hm)
      else let hm1 = contend hm in (bt_get (global_lock hm1) key, check_split hm1))"

definition hot_get :: "bool \<Rightarrow> string \<Rightarrow> 'v HotMap \<Rightarrow> 'v option \<times> 'v HotMap" where
  "hot_get busy key hm = hot_get_routed (sharded hm) busy key hm"

definition hot_remove_routed :: "bool \<Rightarrow> bool \<Rightarrow> string \<Rightarrow> 'v HotMap \<Rightarrow> 'v option \<times> 'v HotMap" where
  "hot_remove_routed is_sharded busy key hm =
     (if is_sharded
      then let idx = shard_idx key
           in (bt_get (shards hm ! idx) key,
               hm\<lparr>shards := (shards hm)[idx := bt_remove key (shards hm ! idx)]\<rparr>)
      else if \<not> busy then (bt_get (global_lock hm) key, hm\<lparr>global_lock := bt_remove key (global_lock hm)\<rparr>)
      else let hm1 = contend hm
           in (bt_get (global_lock hm1) key,
               check_split (hm1\<lparr>global_lock := bt_remove key (global_lock hm1)\<rparr>)))"

definition hot_remove :: "bool \<Rightarrow> string \<Rightarrow> 'v HotMap \<Rightarrow> 'v option \<times> 'v HotMap" where
  "hot_remove busy key hm = hot_remove_routed (sharded hm) busy key hm"

definition snapshot :: "'v HotMap \<Rightarrow> (string, 'v) btree" where
  "snapshot hm =
     (if sharded hm
      then fold (\<lambda>shard result. fold (\<lambda>(k, v) r. bt_insert k v r) shard result) (shards hm) []
      else global_lock hm)"

subsection \<open>The contract of a map behind a lock\<close>

text \<open>
  \<open>view\<close> is the partial function a client thinks of. A client relies on lookups returning the
  value of the view and on updates being the updates of a map, whatever the contention.
\<close>

locale map_like =
  fixes inv :: "'s \<Rightarrow> bool"
    and view :: "'s \<Rightarrow> 'k \<rightharpoonup> 'v"
    and empty :: 's
    and ins :: "bool \<Rightarrow> 'k \<Rightarrow> 'v \<Rightarrow> 's \<Rightarrow> 's"
    and look :: "bool \<Rightarrow> 'k \<Rightarrow> 's \<Rightarrow> 'v option \<times> 's"
    and del :: "bool \<Rightarrow> 'k \<Rightarrow> 's \<Rightarrow> 'v option \<times> 's"
  assumes empty_inv: "inv empty"
    and empty_view: "view empty = Map.empty"
    and ins_inv: "inv s \<Longrightarrow> inv (ins b k v s)"
    and ins_view: "inv s \<Longrightarrow> view (ins b k v s) = (view s)(k \<mapsto> v)"
    and look_val: "inv s \<Longrightarrow> fst (look b k s) = view s k"
    and look_inv: "inv s \<Longrightarrow> inv (snd (look b k s))"
    and look_view: "inv s \<Longrightarrow> view (snd (look b k s)) = view s"
    and del_val: "inv s \<Longrightarrow> fst (del b k s) = view s k"
    and del_inv: "inv s \<Longrightarrow> inv (snd (del b k s))"
    and del_view: "inv s \<Longrightarrow> view (snd (del b k s)) = (view s)(k := None)"
begin

lemmas laws = empty_inv empty_view ins_inv ins_view look_val look_inv look_view del_val del_inv del_view

lemma look_after_ins: "inv s \<Longrightarrow> fst (look b k (ins b' k' v s)) = (if k = k' then Some v else view s k)"
  by (simp add: laws)

lemma look_after_del: "inv s \<Longrightarrow> fst (look b k (snd (del b' k' s))) = (if k = k' then None else view s k)"
  by (simp add: laws)

end

datatype 'v map_op = Ins bool string 'v | Look bool string | Del bool string

text \<open>A run of operations on the concrete map with the values it returns, and on a partial function.\<close>

fun hot_run :: "'v map_op list \<Rightarrow> 'v HotMap \<Rightarrow> 'v option list \<times> 'v HotMap" where
  "hot_run [] hm = ([], hm)"
| "hot_run (Ins b k v # ops) hm = hot_run ops (hot_insert b k v hm)"
| "hot_run (Look b k # ops) hm =
     (let (r, hm1) = hot_get b k hm; (rs, hm2) = hot_run ops hm1 in (r # rs, hm2))"
| "hot_run (Del b k # ops) hm =
     (let (r, hm1) = hot_remove b k hm; (rs, hm2) = hot_run ops hm1 in (r # rs, hm2))"

fun map_run :: "'v map_op list \<Rightarrow> (string \<rightharpoonup> 'v) \<Rightarrow> 'v option list \<times> (string \<rightharpoonup> 'v)" where
  "map_run [] m = ([], m)"
| "map_run (Ins b k v # ops) m = map_run ops (m(k \<mapsto> v))"
| "map_run (Look b k # ops) m = (let (rs, m2) = map_run ops m in (m k # rs, m2))"
| "map_run (Del b k # ops) m = (let (rs, m2) = map_run ops (m(k := None)) in (m k # rs, m2))"

subsection \<open>The split map provides it\<close>

text \<open>Before the split the shards are empty, after it the global map is, and a shard holds only keys
  that hash to it.\<close>

definition placed :: "(string, 'v) btree list \<Rightarrow> bool" where
  "placed ss \<longleftrightarrow> length ss = SHARD_COUNT \<and> (\<forall>i < SHARD_COUNT. bt_wf (ss ! i)) \<and>
     (\<forall>i < SHARD_COUNT. \<forall>k \<in> fst ` set (ss ! i). shard_idx k = i)"

definition hot_inv :: "'v HotMap \<Rightarrow> bool" where
  "hot_inv hm \<longleftrightarrow> bt_wf (global_lock hm) \<and> placed (shards hm) \<and>
     (if sharded hm then global_lock hm = [] else shards hm = replicate SHARD_COUNT [])"

definition hot_view :: "'v HotMap \<Rightarrow> string \<rightharpoonup> 'v" where
  "hot_view hm k = (if sharded hm then bt_get (shards hm ! shard_idx k) k else bt_get (global_lock hm) k)"

lemma shard_idx_less [simp]: "shard_idx k < SHARD_COUNT"
  by (simp add: shard_idx_def SHARD_COUNT_def)

lemma placed_length: "placed ss \<Longrightarrow> length ss = SHARD_COUNT"
  by (simp add: placed_def)

lemma placed_empty [simp]: "placed (replicate SHARD_COUNT [])"
  by (simp add: placed_def)

lemma placed_update:
  assumes "placed ss" and "bt_wf s" and "\<forall>k' \<in> fst ` set s. shard_idx k' = i"
  shows "placed (ss[i := s])"
  unfolding placed_def
proof (intro conjI allI impI)
  show "length (ss[i := s]) = SHARD_COUNT" using assms(1) by (simp add: placed_def)
  fix j assume j: "j < SHARD_COUNT"
  then have "ss[i := s] ! j = (if j = i then s else ss ! j)"
    using placed_length [OF assms(1)] by (simp add: nth_list_update)
  then show "bt_wf (ss[i := s] ! j)" and "\<forall>k \<in> fst ` set (ss[i := s] ! j). shard_idx k = j"
    using assms j by (simp_all add: placed_def)
qed

lemma placed_insert:
  assumes "placed ss"
  shows "placed (ss[shard_idx k := bt_insert k v (ss ! shard_idx k)])"
proof (rule placed_update [OF assms])
  show "bt_wf (bt_insert k v (ss ! shard_idx k))" using assms by (simp add: placed_def bt_wf_insert)
  show "\<forall>k' \<in> fst ` set (bt_insert k v (ss ! shard_idx k)). shard_idx k' = shard_idx k"
    unfolding bt_set_keys_insert using assms by (simp add: placed_def)
qed

lemma placed_remove:
  assumes "placed ss"
  shows "placed (ss[shard_idx k := bt_remove k (ss ! shard_idx k)])"
proof (rule placed_update [OF assms])
  show "bt_wf (bt_remove k (ss ! shard_idx k))" using assms by (simp add: placed_def bt_wf_remove)
  show "\<forall>k' \<in> fst ` set (bt_remove k (ss ! shard_idx k)). shard_idx k' = shard_idx k"
    unfolding bt_set_keys_remove using assms shard_idx_less [of k] unfolding placed_def by blast
qed

lemma shard_update_get:
  assumes "placed ss"
  shows "bt_get (ss[shard_idx k := s] ! shard_idx k') k' =
         (if shard_idx k' = shard_idx k then bt_get s k' else bt_get (ss ! shard_idx k') k')"
  using placed_length [OF assms] by (simp add: nth_list_update)

text \<open>Moving the keys one by one: the keys not moved yet are in the global map, the others in their shards.\<close>

definition moving :: "(string, 'v) btree \<Rightarrow> 'v HotMap \<Rightarrow> bool" where
  "moving m hm \<longleftrightarrow> placed (shards hm) \<and> \<not> sharded hm \<and> global_lock hm = m"

lemma move_key_step:
  assumes "moving ((k, v) # m) hm" and "bt_wf ((k, v) # m)"
  shows "moving m (move_key k hm)"
    and "bt_get (shards (move_key k hm) ! shard_idx k') k' =
         (if k' = k then Some v else bt_get (shards hm ! shard_idx k') k')"
proof -
  have km: "k \<notin> fst ` set m" using assms(2) by (auto simp: bt_wf_def)
  then have "bt_remove k ((k, v) # m) = m" by (auto simp: bt_remove_def filter_id_conv image_iff)
  then have eq: "move_key k hm =
      hm\<lparr>global_lock := m, shards := (shards hm)[shard_idx k := bt_insert k v (shards hm ! shard_idx k)]\<rparr>"
    using assms(1) by (simp add: move_key_def moving_def Let_def)
  have pl: "placed (shards hm)" using assms(1) by (simp add: moving_def)
  then show "moving m (move_key k hm)" using assms(1) placed_insert [OF pl] by (simp add: eq moving_def)
  show "bt_get (shards (move_key k hm) ! shard_idx k') k' =
         (if k' = k then Some v else bt_get (shards hm ! shard_idx k') k')"
    by (auto simp: eq shard_update_get [OF pl])
qed

lemma bt_wf_tail: "bt_wf (e # m) \<Longrightarrow> bt_wf m"
  by (simp add: bt_wf_def)

lemma move_all:
  assumes "moving m hm" and "bt_wf m"
  shows "moving [] (fold move_key (map fst m) hm) \<and>
         (\<forall>k. bt_get (shards (fold move_key (map fst m) hm) ! shard_idx k) k =
              (case bt_get m k of Some v \<Rightarrow> Some v | None \<Rightarrow> bt_get (shards hm ! shard_idx k) k))"
  using assms
proof (induction m arbitrary: hm)
  case (Cons e m)
  obtain k v where e: "e = (k, v)" by (cases e)
  note st = move_key_step [OF Cons.prems [unfolded e]]
  have "k \<notin> fst ` set m" using Cons.prems(2) e by (auto simp: bt_wf_def)
  then have "bt_get m k = None" by (simp add: map_of_eq_None_iff)
  then show ?case
    using Cons.IH [OF st(1) bt_wf_tail [OF Cons.prems(2)]] st(2) by (auto simp: e split: option.split)
qed simp

lemma check_split_inv:
  assumes "hot_inv hm"
  shows "hot_inv (check_split hm)" and "hot_view (check_split hm) = hot_view hm"
proof -
  have "hot_inv (check_split hm) \<and> hot_view (check_split hm) = hot_view hm"
  proof (cases "contention hm > 1000 \<and> \<not> sharded hm")
    case True
    let ?hm = "fold move_key (map fst (global_lock hm)) hm"
    have cs: "check_split hm = ?hm\<lparr>sharded := True\<rparr>" using True by (simp add: check_split_def)
    have empty: "shards hm = replicate SHARD_COUNT []" using assms True by (simp add: hot_inv_def)
    have "moving (global_lock hm) hm" using assms True by (simp add: moving_def hot_inv_def)
    from move_all [OF this] assms
    have mv: "moving [] ?hm" and g: "\<And>k. bt_get (shards ?hm ! shard_idx k) k =
        (case bt_get (global_lock hm) k of Some v \<Rightarrow> Some v | None \<Rightarrow> bt_get (shards hm ! shard_idx k) k)"
      by (simp_all add: hot_inv_def)
    have "hot_view (check_split hm) k = hot_view hm k" for k
      using g [of k] True by (simp add: cs hot_view_def empty split: option.splits)
    then show ?thesis using mv by (simp add: cs hot_inv_def moving_def fun_eq_iff)
  next
    case False
    then have "check_split hm = hm" by (auto simp: check_split_def)
    then show ?thesis using assms by simp
  qed
  then show "hot_inv (check_split hm)" and "hot_view (check_split hm) = hot_view hm" by auto
qed

lemma contend_inv [simp]: "hot_inv (contend hm) = hot_inv hm" "hot_view (contend hm) = hot_view hm"
  by (simp_all add: hot_inv_def contend_def hot_view_def fun_eq_iff)

lemma set_global_inv:
  assumes "hot_inv hm" and "\<not> sharded hm" and "bt_wf m"
  shows "hot_inv (hm\<lparr>global_lock := m\<rparr>)" and "hot_view (hm\<lparr>global_lock := m\<rparr>) = bt_get m"
  using assms by (simp_all add: hot_inv_def hot_view_def fun_eq_iff)

lemma contend_sharded [simp]: "sharded (contend hm) = sharded hm" "global_lock (contend hm) = global_lock hm"
  by (simp_all add: contend_def)

lemma global_view: "\<not> sharded hm \<Longrightarrow> hot_view hm = bt_get (global_lock hm)"
  by (simp add: hot_view_def fun_eq_iff)

lemma hot_insert_ok:
  assumes "hot_inv hm"
  shows "hot_inv (hot_insert b k v hm)" and "hot_view (hot_insert b k v hm) = (hot_view hm)(k \<mapsto> v)"
proof -
  have "hot_inv (hot_insert b k v hm) \<and> hot_view (hot_insert b k v hm) = (hot_view hm)(k \<mapsto> v)"
  proof (cases "sharded hm")
    case True
    have pl: "placed (shards hm)" using assms by (simp add: hot_inv_def)
    show ?thesis using True assms placed_insert [OF pl, of k v]
      by (auto simp: hot_insert_def hot_insert_routed_def hot_view_def hot_inv_def fun_eq_iff Let_def
          shard_update_get [OF pl])
  next
    case False
    have wf: "bt_wf (bt_insert k v (global_lock hm))" using assms by (simp add: hot_inv_def bt_wf_insert)
    have c: "hot_inv (contend hm)" using assms by simp
    note g = set_global_inv [OF assms False wf] set_global_inv [OF c _ wf]
    show ?thesis using False g check_split_inv [OF g(3)] global_view [OF False]
      by (simp add: hot_insert_def hot_insert_routed_def)
  qed
  then show "hot_inv (hot_insert b k v hm)"
    and "hot_view (hot_insert b k v hm) = (hot_view hm)(k \<mapsto> v)" by auto
qed

lemma hot_get_ok:
  assumes "hot_inv hm"
  shows "fst (hot_get b k hm) = hot_view hm k" and "hot_inv (snd (hot_get b k hm))"
    and "hot_view (snd (hot_get b k hm)) = hot_view hm"
  using assms check_split_inv [of "contend hm"]
  by (auto simp: hot_get_def hot_get_routed_def hot_view_def [of hm] Let_def)

lemma hot_remove_ok:
  assumes "hot_inv hm"
  shows "fst (hot_remove b k hm) = hot_view hm k" and "hot_inv (snd (hot_remove b k hm))"
    and "hot_view (snd (hot_remove b k hm)) = (hot_view hm)(k := None)"
proof -
  show "fst (hot_remove b k hm) = hot_view hm k"
    by (simp add: hot_remove_def hot_remove_routed_def hot_view_def Let_def)
  have "hot_inv (snd (hot_remove b k hm)) \<and> hot_view (snd (hot_remove b k hm)) = (hot_view hm)(k := None)"
  proof (cases "sharded hm")
    case True
    have pl: "placed (shards hm)" using assms by (simp add: hot_inv_def)
    show ?thesis using True assms placed_remove [OF pl, of k]
      by (auto simp: hot_remove_def hot_remove_routed_def hot_view_def hot_inv_def fun_eq_iff Let_def
          shard_update_get [OF pl])
  next
    case False
    have wf: "bt_wf (bt_remove k (global_lock hm))" using assms by (simp add: hot_inv_def bt_wf_remove)
    have c: "hot_inv (contend hm)" using assms by simp
    note g = set_global_inv [OF assms False wf] set_global_inv [OF c _ wf]
    show ?thesis using False g check_split_inv [OF g(3)] global_view [OF False]
      by (simp add: hot_remove_def hot_remove_routed_def)
  qed
  then show "hot_inv (snd (hot_remove b k hm))"
    and "hot_view (snd (hot_remove b k hm)) = (hot_view hm)(k := None)" by auto
qed

lemma hot_new_ok: "hot_inv hot_new" "hot_view hot_new = Map.empty"
  by (simp_all add: hot_inv_def hot_new_def hot_view_def fun_eq_iff placed_empty)

interpretation hot: map_like hot_inv hot_view hot_new hot_insert hot_get hot_remove
  by unfold_locales (simp_all add: hot_new_ok hot_insert_ok hot_get_ok hot_remove_ok)

subsection \<open>Listings and runs\<close>

lemma fold_insert_get:
  "bt_get (fold (\<lambda>(k, v) r. bt_insert k v r) s r0) k =
     (case bt_get (rev s) k of Some v \<Rightarrow> Some v | None \<Rightarrow> bt_get r0 k)"
  by (induction s arbitrary: r0) (auto simp: map_add_def split: option.split)

lemma fold_insert_wf: "bt_wf r0 \<Longrightarrow> bt_wf (fold (\<lambda>(k, v) r. bt_insert k v r) s r0)"
  by (induction s arbitrary: r0) (auto intro: bt_wf_insert)

lemma bt_get_rev: "bt_wf s \<Longrightarrow> bt_get (rev s) = bt_get s"
proof -
  assume "bt_wf s"
  then have "distinct (map fst s)" by (rule bt_wf_distinct)
  then show ?thesis by (simp add: map_of_inject_set rev_map [symmetric])
qed

lemma fold_shards:
  assumes "\<forall>s \<in> set ss. bt_wf s" and "\<forall>i < length ss. \<forall>k \<in> fst ` set (ss ! i). h k = n + i"
  shows "bt_get (fold (\<lambda>s r. fold (\<lambda>(k, v) r. bt_insert k v r) s r) ss r0) k =
     (case (if n \<le> h k \<and> h k < n + length ss then bt_get (ss ! (h k - n)) k else None) of
        Some v \<Rightarrow> Some v | None \<Rightarrow> bt_get r0 k)"
  using assms
proof (induction ss arbitrary: n r0)
  case (Cons s ss)
  have tl: "\<forall>i < length ss. \<forall>k \<in> fst ` set (ss ! i). h k = Suc n + i"
    using Cons.prems(2) by (metis Suc_less_eq add_Suc_shift length_Cons nth_Cons_Suc)
  have s: "\<forall>k \<in> fst ` set s. h k = n" using Cons.prems(2) by (force simp: All_less_Suc2)
  then have "bt_get s k = None" if "h k \<noteq> n" using that by (auto simp: map_of_eq_None_iff)
  moreover have "bt_wf s" using Cons.prems(1) by simp
  ultimately show ?case
    using Cons.IH [OF _ tl, of "fold (\<lambda>(k, v) r. bt_insert k v r) s r0"] Cons.prems(1)
    by (auto simp: fold_insert_get bt_get_rev nth_Cons' split: option.split)
qed auto

lemma fold_shards_wf: "bt_wf r0 \<Longrightarrow> bt_wf (fold (\<lambda>s r. fold (\<lambda>(k, v) r. bt_insert k v r) s r) ss r0)"
  by (induction ss arbitrary: r0) (auto intro: fold_insert_wf)

lemma snapshot_view:
  assumes "hot_inv hm"
  shows "bt_get (snapshot hm) = hot_view hm" and "bt_wf (snapshot hm)"
proof -
  have "bt_get (snapshot hm) k = hot_view hm k" for k
  proof (cases "sharded hm")
    case True
    have "\<forall>i < length (shards hm). \<forall>k \<in> fst ` set (shards hm ! i). shard_idx k = 0 + i"
      and "\<forall>s \<in> set (shards hm). bt_wf s" and "length (shards hm) = SHARD_COUNT"
      using assms True by (simp_all add: hot_inv_def placed_def all_set_conv_all_nth)
    then show ?thesis using True fold_shards [of "shards hm" shard_idx 0 "[]" k]
      by (simp add: snapshot_def hot_view_def split: option.splits)
  qed (simp add: snapshot_def hot_view_def)
  then show "bt_get (snapshot hm) = hot_view hm" by (simp add: fun_eq_iff)
  show "bt_wf (snapshot hm)"
    using assms by (simp add: snapshot_def hot_inv_def fold_shards_wf)
qed

lemma hot_run_ok:
  "hot_inv hm \<Longrightarrow> hot_inv (snd (hot_run ops hm)) \<and>
     (fst (hot_run ops hm), hot_view (snd (hot_run ops hm))) = map_run ops (hot_view hm)"
proof (induction ops hm rule: hot_run.induct)
  case (3 b k ops hm)
  then show ?case using hot.look_val [of hm b k] hot.look_inv [of hm b k] hot.look_view [of hm b k]
    by (auto simp: split_beta Let_def prod_eq_iff)
next
  case (4 b k ops hm)
  then show ?case using hot.del_val [of hm b k] hot.del_inv [of hm b k] hot.del_view [of hm b k]
    by (auto simp: split_beta Let_def prod_eq_iff simp del: fun_upd_apply)
qed (simp_all add: hot.ins_inv hot.ins_view)

text \<open>C32: whatever the contention and whenever it splits, the map answers every lookup and removal of
  a run of operations as one partial function would, and its listing at the end is that function.\<close>

theorem hot_map_refines_map:
  "map_prod id (\<lambda>hm. bt_get (snapshot hm)) (hot_run ops hot_new) = map_run ops Map.empty"
proof -
  obtain rs hm where r: "hot_run ops hot_new = (rs, hm)" by fastforce
  have "hot_inv hm" and "(rs, hot_view hm) = map_run ops Map.empty"
    using hot_run_ok [OF hot_new_ok(1), of ops, unfolded hot_new_ok(2)] r by simp_all
  then show ?thesis using snapshot_view(1) [OF \<open>hot_inv hm\<close>] by (simp add: r)
qed

subsection \<open>Splitting under a running insertion\<close>

text \<open>An insertion that loaded the flag before the split puts its entry into the global map, where no
  later operation looks.\<close>

lemma stale_insert_view:
  "sharded hm \<Longrightarrow> hot_view (hot_insert_routed False False k v hm) = hot_view hm"
  by (simp add: hot_insert_routed_def hot_view_def fun_eq_iff)

lemma split_shards: "contention hm > 1000 \<Longrightarrow> sharded (check_split hm)"
  by (simp add: check_split_def)

text \<open>An insertion is lost when another processor splits the map between its load of the flag and
  its update: the contended access that reaches the threshold splits, and the entry the first
  processor then stores is found by no lookup.\<close>

theorem insert_lost_by_split:
  assumes "hot_inv hm" and "\<not> sharded hm" and "contention hm = 1000"
  shows "fst (hot_get b k (hot_insert_routed (sharded hm) False k v (snd (hot_get True k' hm)))) =
         hot_view hm k"
proof -
  let ?hm = "snd (hot_get True k' hm)"
  have "?hm = check_split (contend hm)"
    using assms(2) by (simp add: hot_get_def hot_get_routed_def Let_def)
  then have sh: "sharded ?hm" using assms(3) by (simp add: split_shards contend_def)
  let ?hm' = "hot_insert_routed False False k v ?hm"
  have "sharded ?hm'" using sh by (simp add: hot_insert_routed_def)
  then have "fst (hot_get b k ?hm') = hot_view ?hm' k"
    by (simp add: hot_get_def hot_get_routed_def hot_view_def)
  also have "\<dots> = hot_view hm k" using stale_insert_view [OF sh] hot.look_view [OF assms(1)] by simp
  finally show ?thesis using assms(2) by simp
qed

theorem insert_lost_by_split_witness:
  "fst (hot_get False ''b'' (hot_insert_routed False False ''b'' (2::nat)
     (snd (hot_get True ''a'' (hot_new\<lparr>global_lock := [(''a'', 1)], contention := 1000\<rparr>))))) = None"
  using insert_lost_by_split [of "hot_new\<lparr>global_lock := [(''a'', 1)], contention := 1000\<rparr>" False "''b''"
      "2::nat" "''a''"]
  by (simp add: hot_inv_def hot_new_def hot_view_def bt_wf_def placed_empty)

end
