(* ===== verification/Format.thy ===== *)
theory Format
  imports Bytes
begin

section \<open>Formatted text\<close>

text \<open>
  The parts of Rust's \<^verbatim>\<open>format!\<close> and of its string methods that the file system and the user
  database use: decimal numbers, hexadecimal numbers of fixed width, splitting at a character,
  \<^verbatim>\<open>find\<close>, \<^verbatim>\<open>rfind\<close>, \<^verbatim>\<open>join\<close>. A Rust string is its UTF-8 bytes, one HOL character per byte.
\<close>

definition str_bytes :: "string \<Rightarrow> bytes" where
  "str_bytes s = map of_char s"

definition digit_char :: "nat \<Rightarrow> char" where
  "digit_char d = ''0123456789abcdef'' ! d"

function dec_digits :: "int \<Rightarrow> nat list" where
  "dec_digits n = (if n < 10 then [nat n] else dec_digits (n div 10) @ [nat (n mod 10)])"
  by pat_completeness auto
termination
  by (relation "measure nat") auto

declare dec_digits.simps [simp del]

text \<open>\<^verbatim>\<open>{}\<close> of an unsigned integer.\<close>

definition show_dec :: "int \<Rightarrow> string" where
  "show_dec n = map digit_char (dec_digits n)"

text \<open>\<^verbatim>\<open>{:016x}\<close> of a 64-bit value: sixteen digits.\<close>

primrec hex_digits :: "nat \<Rightarrow> int \<Rightarrow> nat list" where
  "hex_digits 0 x = []"
| "hex_digits (Suc n) x = hex_digits n (drop_bit 4 x) @ [nat (take_bit 4 x)]"

definition show_hex16 :: "u64 \<Rightarrow> string" where
  "show_hex16 x = map digit_char (hex_digits 16 (uint x))"

definition find_char :: "char \<Rightarrow> string \<Rightarrow> nat option" where
  "find_char c s = (if c \<in> set s then Some (length (takeWhile (\<lambda>x. x \<noteq> c) s)) else None)"

definition rfind_char :: "char \<Rightarrow> string \<Rightarrow> nat option" where
  "rfind_char c s = map_option (\<lambda>i. length s - 1 - i) (find_char c (rev s))"

definition starts_with :: "string \<Rightarrow> string \<Rightarrow> bool" where
  "starts_with s p \<longleftrightarrow> take (length p) s = p"

fun split_char :: "char \<Rightarrow> string \<Rightarrow> string list" where
  "split_char c [] = [[]]"
| "split_char c (x # xs) =
     (if x = c then [] # split_char c xs
      else case split_char c xs of y # ys \<Rightarrow> (x # y) # ys | [] \<Rightarrow> [[x]])"

fun join_with :: "string \<Rightarrow> string list \<Rightarrow> string" where
  "join_with sep [] = []"
| "join_with sep [s] = s"
| "join_with sep (s # t # ss) = s @ sep @ join_with sep (t # ss)"

lemma length_str_bytes [simp]: "length (str_bytes s) = length s"
  by (simp add: str_bytes_def)

lemma str_bytes_append [simp]: "str_bytes (s @ t) = str_bytes s @ str_bytes t"
  by (simp add: str_bytes_def)

lemma str_bytes_Nil [simp]: "str_bytes [] = []"
  by (simp add: str_bytes_def)

lemma length_hex_digits [simp]: "length (hex_digits n x) = n"
  by (induction n arbitrary: x) simp_all

lemma hex_digits_less: "d \<in> set (hex_digits n x) \<Longrightarrow> d < 16"
  by (induction n arbitrary: x) (auto simp: nat_less_iff take_bit_eq_mod)

lemma hex_digits_inj:
  assumes "hex_digits n x = hex_digits n y" and "0 \<le> x" "x < 16 ^ n" and "0 \<le> y" "y < 16 ^ n"
  shows "x = y"
  using assms
proof (induction n arbitrary: x y)
  case (Suc n)
  have "x div 16 = y div 16"
    by (rule Suc.IH)
      (use Suc.prems in \<open>auto simp: pos_imp_zdiv_nonneg_iff div_less_iff_less_mult drop_bit_eq_div\<close>)
  moreover have "nat (x mod 16) = nat (y mod 16)" using Suc.prems(1) by (simp add: take_bit_eq_mod)
  then have "x mod 16 = y mod 16" by simp
  ultimately show ?case by (metis mult_div_mod_eq)
qed simp

lemma length_show_hex16 [simp]: "length (show_hex16 x) = 16"
  by (simp add: show_hex16_def)

lemma digit_char_colon: "d < 16 \<Longrightarrow> digit_char d \<noteq> CHR '':''"
proof
  assume d: "d < 16" and "digit_char d = CHR '':''"
  moreover have "digit_char d \<in> set ''0123456789abcdef''"
    unfolding digit_char_def by (rule nth_mem) (use d in simp)
  ultimately show False by simp
qed

lemma show_hex16_no_colon: "CHR '':'' \<notin> set (show_hex16 x)"
  using digit_char_colon hex_digits_less by (fastforce simp: show_hex16_def)

lemma digit_char_inj: "d < 16 \<Longrightarrow> e < 16 \<Longrightarrow> digit_char d = digit_char e \<longleftrightarrow> d = e"
  by (simp add: digit_char_def nth_eq_iff_index_eq)

lemma show_hex16_inj: "show_hex16 x = show_hex16 y \<Longrightarrow> x = y"
proof -
  assume eq: "show_hex16 x = show_hex16 y"
  have "inj_on digit_char (set (hex_digits 16 (uint x)) \<union> set (hex_digits 16 (uint y)))"
    by (rule inj_onI) (auto simp: digit_char_inj dest!: hex_digits_less)
  then have "hex_digits 16 (uint x) = hex_digits 16 (uint y)"
    using eq by (simp add: show_hex16_def inj_on_map_eq_map)
  then have "uint x = uint y"
    by (rule hex_digits_inj) (use unsigned_less [of x, where ?'a = int] unsigned_less [of y, where ?'a = int] in simp_all)
  then show ?thesis by (simp add: word_uint_eq_iff)
qed

lemma find_char_append:
  "c \<notin> set s \<Longrightarrow> find_char c (s @ c # t) = Some (length s)"
  by (auto simp: find_char_def) (subst takeWhile_append2, auto)

lemma split_char_nonempty [simp]: "split_char c s \<noteq> []"
  by (induction s) (auto split: list.split)

lemma split_char_join: "join_with [c] (split_char c s) = s"
proof (induction s)
  case (Cons x xs)
  then show ?case by (cases "split_char c xs"; cases "tl (split_char c xs)") (auto split: list.splits)
qed simp

lemma split_char_no_sep: "s \<in> set (split_char c t) \<Longrightarrow> c \<notin> set s"
  by (induction t arbitrary: s) (auto split: list.splits if_splits)

end
