(* ===== verification/Users_Db.thy ===== *)
theory Users_Db
  imports Format Scheduler
begin

section \<open>Users, groups and passwords\<close>

text \<open>
  The database of \<^verbatim>\<open>kernel/src/users.rs\<close>: accounts, groups, password hashes, the session and the
  permission checks. What needs the file system (the files under \<^verbatim>\<open>/etc\<close>, home directories and
  account management) is in the theory Users. The scheduler answers which process runs, with
  which effective user and since when; \<open>caller_pid\<close>, \<open>caller_euid\<close> and \<open>now_ms\<close> hold its answers
  and \<open>called_under\<close> takes them from the scheduler's state.
\<close>

type_synonym Uid = u32
type_synonym Gid = u32

subsection \<open>Permission bits\<close>

type_synonym FileMode = u16

abbreviation (input) OWNER_R :: u16 where "OWNER_R \<equiv> 0x100"
abbreviation (input) OWNER_W :: u16 where "OWNER_W \<equiv> 0x80"
abbreviation (input) OWNER_X :: u16 where "OWNER_X \<equiv> 0x40"
abbreviation (input) GROUP_R :: u16 where "GROUP_R \<equiv> 0x20"
abbreviation (input) GROUP_W :: u16 where "GROUP_W \<equiv> 0x10"
abbreviation (input) GROUP_X :: u16 where "GROUP_X \<equiv> 0x8"
abbreviation (input) OTHER_R :: u16 where "OTHER_R \<equiv> 0x4"
abbreviation (input) OTHER_W :: u16 where "OTHER_W \<equiv> 0x2"
abbreviation (input) OTHER_X :: u16 where "OTHER_X \<equiv> 0x1"
abbreviation (input) SETUID :: u16 where "SETUID \<equiv> 0x800"
abbreviation (input) SETGID :: u16 where "SETGID \<equiv> 0x400"

definition owner_read :: "FileMode \<Rightarrow> bool" where "owner_read m \<longleftrightarrow> m AND OWNER_R \<noteq> 0"
definition owner_write :: "FileMode \<Rightarrow> bool" where "owner_write m \<longleftrightarrow> m AND OWNER_W \<noteq> 0"
definition owner_exec :: "FileMode \<Rightarrow> bool" where "owner_exec m \<longleftrightarrow> m AND OWNER_X \<noteq> 0"
definition group_read :: "FileMode \<Rightarrow> bool" where "group_read m \<longleftrightarrow> m AND GROUP_R \<noteq> 0"
definition group_write :: "FileMode \<Rightarrow> bool" where "group_write m \<longleftrightarrow> m AND GROUP_W \<noteq> 0"
definition group_exec :: "FileMode \<Rightarrow> bool" where "group_exec m \<longleftrightarrow> m AND GROUP_X \<noteq> 0"
definition other_read :: "FileMode \<Rightarrow> bool" where "other_read m \<longleftrightarrow> m AND OTHER_R \<noteq> 0"
definition other_write :: "FileMode \<Rightarrow> bool" where "other_write m \<longleftrightarrow> m AND OTHER_W \<noteq> 0"
definition other_exec :: "FileMode \<Rightarrow> bool" where "other_exec m \<longleftrightarrow> m AND OTHER_X \<noteq> 0"
definition is_setuid :: "FileMode \<Rightarrow> bool" where "is_setuid m \<longleftrightarrow> m AND SETUID \<noteq> 0"
definition is_setgid :: "FileMode \<Rightarrow> bool" where "is_setgid m \<longleftrightarrow> m AND SETGID \<noteq> 0"

definition mode_as_str :: "FileMode \<Rightarrow> string" where
  "mode_as_str m =
     [if m AND OWNER_R \<noteq> 0 then CHR ''r'' else CHR ''-'',
      if m AND OWNER_W \<noteq> 0 then CHR ''w'' else CHR ''-'',
      if m AND OWNER_X \<noteq> 0 then (if m AND SETUID \<noteq> 0 then CHR ''s'' else CHR ''x'')
      else (if m AND SETUID \<noteq> 0 then CHR ''S'' else CHR ''-''),
      if m AND GROUP_R \<noteq> 0 then CHR ''r'' else CHR ''-'',
      if m AND GROUP_W \<noteq> 0 then CHR ''w'' else CHR ''-'',
      if m AND GROUP_X \<noteq> 0 then (if m AND SETGID \<noteq> 0 then CHR ''s'' else CHR ''x'')
      else (if m AND SETGID \<noteq> 0 then CHR ''S'' else CHR ''-''),
      if m AND OTHER_R \<noteq> 0 then CHR ''r'' else CHR ''-'',
      if m AND OTHER_W \<noteq> 0 then CHR ''w'' else CHR ''-'',
      if m AND OTHER_X \<noteq> 0 then CHR ''x'' else CHR ''-'']"

fun from_octal_loop :: "bytes \<Rightarrow> u16 \<Rightarrow> FileMode option" where
  "from_octal_loop [] val = Some val"
| "from_octal_loop (b # bs) val =
     (if b < 48 \<or> b > 55 then None else from_octal_loop bs (val * 8 + ucast (b - 48)))"

definition from_octal :: "string \<Rightarrow> FileMode option" where
  "from_octal s = from_octal_loop (str_bytes s) 0"

subsection \<open>The database\<close>

record User =
  username :: string
  u_uid :: Uid
  u_gid :: Gid
  u_home :: string
  u_shell :: string

record Group =
  g_name :: string
  g_gid :: Gid
  g_members :: "string list"

record ShadowEntry =
  sh_username :: string
  sh_hash :: string

record AuditEntry =
  a_username :: string
  a_command :: string
  a_timestamp_ms :: u64
  a_success :: bool

record UserDb =
  users :: "User list"
  groups :: "Group list"
  shadow :: "ShadowEntry list"
  session_uid :: Uid
  db_cwd :: string
  sudo_last_auth_ms :: u64
  db_umask :: u16
  sudo_audit :: "AuditEntry list"
  db_hostname :: string
  caller_pid :: u64
  caller_euid :: "u64 \<Rightarrow> u32 option"
  now_ms :: u64

definition db_new :: UserDb where
  "db_new = \<lparr>users = [], groups = [], shadow = [], session_uid = 0, db_cwd = [], sudo_last_auth_ms = 0,
     db_umask = 0x12, sudo_audit = [], db_hostname = [], caller_pid = 1, caller_euid = (\<lambda>_. None),
     now_ms = 0\<rparr>"

definition called_under :: "'w Sched \<Rightarrow> UserDb \<Rightarrow> UserDb" where
  "called_under s db = db\<lparr>caller_pid := sched_current_pid s, caller_euid := (\<lambda>p. get_euid p s),
     now_ms := s_uptime s\<rparr>"

abbreviation (input) SUDO_TIMEOUT_MS :: u64 where "SUDO_TIMEOUT_MS \<equiv> 5 * 60 * 1000"

abbreviation (input) MAX_AUDIT_ENTRIES :: nat where "MAX_AUDIT_ENTRIES \<equiv> 64"

definition audit_sudo :: "string \<Rightarrow> string \<Rightarrow> bool \<Rightarrow> UserDb \<Rightarrow> UserDb" where
  "audit_sudo name command success db =
     (let entry = \<lparr>a_username = name, a_command = command, a_timestamp_ms = now_ms db, a_success = success\<rparr>;
          log = (if MAX_AUDIT_ENTRIES \<le> length (sudo_audit db) then tl (sudo_audit db) else sudo_audit db)
      in db\<lparr>sudo_audit := log @ [entry]\<rparr>)"

definition sudo_audit_log :: "UserDb \<Rightarrow> string" where
  "sudo_audit_log db =
     concat (map (\<lambda>e. ''['' @ show_dec (uint (a_timestamp_ms e)) @ ''ms] '' @ a_username e @ '' : sudo '' @
       a_command e @ '' : '' @ (if a_success e then ''OK'' else ''FAIL'') @ [CHR 0x0A]) (sudo_audit db))"

definition hostname :: "UserDb \<Rightarrow> string" where
  "hostname db = (if db_hostname db = [] then ''nodeai'' else db_hostname db)"

definition set_hostname :: "string \<Rightarrow> UserDb \<Rightarrow> UserDb" where
  "set_hostname name db = db\<lparr>db_hostname := name\<rparr>"

subsection \<open>Password hashes\<close>

definition salt_of :: "string \<Rightarrow> u64" where
  "salt_of password = fnv1a [of_nat (length password), 0x4E, 0x41, 0x49]"

definition hash_password :: "string \<Rightarrow> string" where
  "hash_password password =
     (let salt = salt_of password;
          salted = show_dec (uint salt) @ '':'' @ password;
          hash = fnv1a (str_bytes salted)
      in show_hex16 salt @ '':'' @ show_hex16 hash)"

definition verify_password :: "string \<Rightarrow> string \<Rightarrow> bool" where
  "verify_password password stored_hash =
     (case find_char (CHR '':'') stored_hash of
        Some colon \<Rightarrow>
          (let salt_str = take colon stored_hash;
               salted = salt_str @ '':'' @ password;
               hash = fnv1a (str_bytes salted);
               expected = salt_str @ '':'' @ show_hex16 hash
           in expected = stored_hash)
      | None \<Rightarrow> False)"

subsection \<open>Queries\<close>

definition current_uid :: "UserDb \<Rightarrow> Uid" where
  "current_uid db =
     (if caller_pid db > 0
      then case caller_euid db (caller_pid db) of Some euid \<Rightarrow> euid | None \<Rightarrow> session_uid db
      else session_uid db)"

definition set_current_uid :: "Uid \<Rightarrow> UserDb \<Rightarrow> UserDb" where
  "set_current_uid uid db = db\<lparr>session_uid := uid\<rparr>"

definition get_user :: "Uid \<Rightarrow> UserDb \<Rightarrow> User option" where
  "get_user uid db = List.find (\<lambda>u. u_uid u = uid) (users db)"

definition get_user_by_name :: "string \<Rightarrow> UserDb \<Rightarrow> User option" where
  "get_user_by_name name db = List.find (\<lambda>u. username u = name) (users db)"

definition get_group :: "Gid \<Rightarrow> UserDb \<Rightarrow> Group option" where
  "get_group gid db = List.find (\<lambda>g. g_gid g = gid) (groups db)"

definition get_group_by_name :: "string \<Rightarrow> UserDb \<Rightarrow> Group option" where
  "get_group_by_name name db = List.find (\<lambda>g. g_name g = name) (groups db)"

definition current_username :: "UserDb \<Rightarrow> string" where
  "current_username db =
     (let uid = current_uid db
      in case get_user uid db of Some u \<Rightarrow> username u | None \<Rightarrow> ''uid'' @ show_dec (uint uid))"

definition current_home :: "UserDb \<Rightarrow> string" where
  "current_home db = (case get_user (current_uid db) db of Some u \<Rightarrow> u_home u | None \<Rightarrow> ''/'')"

definition set_cwd :: "string \<Rightarrow> UserDb \<Rightarrow> UserDb" where
  "set_cwd path db = db\<lparr>db_cwd := path\<rparr>"

definition set_umask :: "u16 \<Rightarrow> UserDb \<Rightarrow> u16 \<times> UserDb" where
  "set_umask m db = (db_umask db, db\<lparr>db_umask := m\<rparr>)"

definition is_root :: "UserDb \<Rightarrow> bool" where
  "is_root db \<longleftrightarrow> current_uid db = 0"

definition user_can_sudo :: "string \<Rightarrow> UserDb \<Rightarrow> bool" where
  "user_can_sudo name db \<longleftrightarrow>
     (if \<exists>g \<in> set (groups db). g_name g = ''sudo'' \<and> name \<in> set (g_members g) then True
      else case get_user_by_name name db of Some u \<Rightarrow> u_uid u = 0 | None \<Rightarrow> False)"

subsection \<open>Authentication\<close>

fun authenticate_in :: "ShadowEntry list \<Rightarrow> string \<Rightarrow> string \<Rightarrow> bool" where
  "authenticate_in [] name password = False"
| "authenticate_in (s # rest) name password =
     (if sh_username s = name then verify_password password (sh_hash s)
      else authenticate_in rest name password)"

definition authenticate :: "string \<Rightarrow> string \<Rightarrow> UserDb \<Rightarrow> bool" where
  "authenticate name password db = authenticate_in (shadow db) name password"

definition switch_user :: "string \<Rightarrow> UserDb \<Rightarrow> bool \<times> UserDb" where
  "switch_user name db =
     (case get_user_by_name name db of
        Some user \<Rightarrow> (True, set_cwd (u_home user) (set_current_uid (u_uid user) db))
      | None \<Rightarrow> (False, db))"

definition sudo_auth :: "string \<Rightarrow> UserDb \<Rightarrow> bool \<times> UserDb" where
  "sudo_auth password db =
     (let name = current_username db
      in if \<not> user_can_sudo name db \<and> \<not> is_root db then (False, db)
      else let now = now_ms db; last_ms = sudo_last_auth_ms db
      in if saturating_sub now last_ms < SUDO_TIMEOUT_MS \<and> last_ms > 0 then (True, db)
      else if authenticate name password db then (True, db\<lparr>sudo_last_auth_ms := now\<rparr>)
      else (False, db))"

definition user_groups :: "string \<Rightarrow> UserDb \<Rightarrow> string list" where
  "user_groups name db =
     (let primary_gid = map_option u_gid (get_user_by_name name db)
      in map g_name (filter (\<lambda>g. name \<in> set (g_members g) \<or> primary_gid = Some (g_gid g)) (groups db)))"

subsection \<open>Permission checks\<close>

definition user_in_group :: "Uid \<Rightarrow> Gid \<Rightarrow> UserDb \<Rightarrow> bool" where
  "user_in_group uid gid db =
     (case get_user uid db of
        Some user \<Rightarrow> u_gid user = gid \<or>
          (\<exists>g \<in> set (groups db). g_gid g = gid \<and> username user \<in> set (g_members g))
      | None \<Rightarrow> False)"

definition can_read :: "Uid \<Rightarrow> Gid \<Rightarrow> FileMode \<Rightarrow> UserDb \<Rightarrow> bool" where
  "can_read file_uid file_gid m db =
     (if is_root db then True
      else let uid = current_uid db
      in if uid = file_uid then owner_read m
      else if user_in_group uid file_gid db then group_read m
      else other_read m)"

definition can_write :: "Uid \<Rightarrow> Gid \<Rightarrow> FileMode \<Rightarrow> UserDb \<Rightarrow> bool" where
  "can_write file_uid file_gid m db =
     (if is_root db then True
      else let uid = current_uid db
      in if uid = file_uid then owner_write m
      else if user_in_group uid file_gid db then group_write m
      else other_write m)"

definition can_exec :: "Uid \<Rightarrow> Gid \<Rightarrow> FileMode \<Rightarrow> UserDb \<Rightarrow> bool" where
  "can_exec file_uid file_gid m db =
     (if is_root db then True
      else let uid = current_uid db
      in if uid = file_uid then owner_exec m
      else if user_in_group uid file_gid db then group_exec m
      else other_exec m)"

subsection \<open>No stored password verifies\<close>

text \<open>The multiplier of the hash is odd, so a step is injective in the running value and a common
  suffix cancels.\<close>

lemma fnv1a_step_inj: "fnv1a_step h b = fnv1a_step h' b \<longleftrightarrow> h = h'"
proof
  assume "fnv1a_step h b = fnv1a_step h' b"
  then have "(h XOR ucast b) * 0x100000001b3 * 0xce965057aff6957b =
             (h' XOR ucast b) * 0x100000001b3 * 0xce965057aff6957b" by (simp only: fnv1a_step_def)
  moreover have "0x100000001b3 * 0xce965057aff6957b = (1::u64)" by code_simp
  ultimately have "h XOR ucast b = h' XOR ucast b" by (simp only: mult.assoc mult_1_right)
  then have "(h XOR ucast b) XOR ucast b = (h' XOR ucast b) XOR ucast b" by simp
  then show "h = h'" by (simp add: xor.assoc)
qed simp

lemma fnv1a_suffix: "fnv1a (xs @ zs) = fnv1a (ys @ zs) \<longleftrightarrow> fnv1a xs = fnv1a ys"
  by (induction zs rule: rev_induct) (simp_all add: fnv1a_def fnv1a_step_inj flip: append_assoc)

text \<open>The low 16 bits of the hash follow from low 16 bits, which is enough to tell texts apart.\<close>

definition fnv_low :: "u8 list \<Rightarrow> 16 word" where
  "fnv_low bs = foldl (\<lambda>h b. (h XOR ucast b) * 0x1b3) 0x2325 bs"

lemma ucast_low_mult: "(ucast (x * y :: u64) :: 16 word) = ucast x * ucast y"
  by (simp add: word_unat_eq_iff unsigned_ucast_eq take_bit_eq_mod unat_word_ariths mod_mod_cancel mod_simps)

lemma ucast_low_xor: "(ucast (x XOR y :: u64) :: 16 word) = ucast x XOR ucast y"
  by (auto simp: word_eq_bits bit_simps)

lemma fnv_low: "ucast (fnv1a bs) = fnv_low bs"
proof (induction bs rule: rev_induct)
  case (snoc b bs)
  have "(ucast (0x100000001b3 :: u64) :: 16 word) = 0x1b3" by code_simp
  moreover have "(ucast (ucast b :: u64) :: 16 word) = ucast b" by (auto simp: word_eq_bits bit_simps)
  moreover have "ucast (foldl fnv1a_step 0xcbf29ce484222325 bs) = fnv_low bs" using snoc by (simp add: fnv1a_def)
  ultimately show ?case
    by (simp only: fnv1a_def fnv_low_def foldl_append foldl_Cons foldl_Nil fnv1a_step_def ucast_low_mult ucast_low_xor)
qed (simp add: fnv1a_def fnv_low_def)

definition salt_texts_differ :: "u64 \<Rightarrow> bool" where
  "salt_texts_differ salt \<longleftrightarrow>
     fnv_low (str_bytes (show_dec (uint salt))) \<noteq> fnv_low (str_bytes (show_hex16 salt))"

definition texts_differ :: "nat \<Rightarrow> bool" where
  "texts_differ n \<longleftrightarrow> salt_texts_differ (fnv1a [of_nat n, 0x4E, 0x41, 0x49])"

lemma texts_differ_0: "list_all texts_differ [0..<8]"
  by code_simp

lemma texts_differ_8: "list_all texts_differ [8..<16]"
  by code_simp

lemma texts_differ_16: "list_all texts_differ [16..<24]"
  by code_simp

lemma texts_differ_24: "list_all texts_differ [24..<32]"
  by code_simp

lemma texts_differ: "n < 32 \<Longrightarrow> texts_differ n"
  using texts_differ_0 texts_differ_8 texts_differ_16 texts_differ_24
  unfolding list_all_iff set_upt by (meson atLeastLessThan_iff le0 not_le)

text \<open>Hashing writes the salt in decimal, verification reads it back in hexadecimal.\<close>

lemma verify_hash_iff:
  "verify_password p (hash_password p) \<longleftrightarrow>
     fnv1a (str_bytes (show_dec (uint (salt_of p)))) = fnv1a (str_bytes (show_hex16 (salt_of p)))"
proof -
  let ?s = "salt_of p" and ?h = "fnv1a (str_bytes (show_dec (uint (salt_of p)) @ '':'' @ p))"
  have stored: "hash_password p = show_hex16 ?s @ CHR '':'' # show_hex16 ?h"
    by (simp add: hash_password_def Let_def)
  have "find_char (CHR '':'') (hash_password p) = Some 16"
    unfolding stored using find_char_append [OF show_hex16_no_colon, of ?s "show_hex16 ?h"] by simp
  then have "verify_password p (hash_password p) \<longleftrightarrow>
      show_hex16 (fnv1a (str_bytes (show_hex16 ?s @ '':'' @ p))) = show_hex16 ?h"
    by (simp add: verify_password_def stored Let_def)
  also have "\<dots> \<longleftrightarrow> fnv1a (str_bytes (show_hex16 ?s @ '':'' @ p)) = ?h"
    by (rule iffI [OF show_hex16_inj]) simp_all
  also have "\<dots> \<longleftrightarrow> fnv1a (str_bytes (show_hex16 ?s)) = fnv1a (str_bytes (show_dec (uint ?s)))"
    unfolding str_bytes_append by (rule fnv1a_suffix)
  finally show ?thesis by auto
qed

lemma no_hash_verifies: "length p < 32 \<Longrightarrow> \<not> verify_password p (hash_password p)"
proof
  assume "length p < 32" and v: "verify_password p (hash_password p)"
  then have "texts_differ (length p)" by (intro texts_differ)
  then have "ucast (fnv1a (str_bytes (show_dec (uint (salt_of p))))) \<noteq>
      (ucast (fnv1a (str_bytes (show_hex16 (salt_of p)))) :: 16 word)"
    by (simp add: texts_differ_def salt_texts_differ_def salt_of_def fnv_low)
  then show False using v by (simp add: verify_hash_iff)
qed

end
