(* ===== verification/Frame_Bytes.thy ===== *)
theory Frame_Bytes
  imports Self_Model Bytes
begin

section \<open>Frames as byte arrays\<close>

text \<open>
  The page cache reads and writes the bytes of frames through the physical window. A frame is
  512 little-endian cells of the allocator's memory. Also the outcome of code that may panic or
  not return: \<open>None\<close> is not returning, \<open>Inl\<close> a panic.
\<close>

type_synonym 'a outcome = "'a rust option"

abbreviation ret :: "'a \<Rightarrow> 'a outcome" where
  "ret x \<equiv> Some (Inr x)"

fun obind :: "'a outcome \<Rightarrow> ('a \<Rightarrow> 'b outcome) \<Rightarrow> 'b outcome" where
  "obind None f = None"
| "obind (Some (Inl e)) f = Some (Inl e)"
| "obind (Some (Inr x)) f = f x"

lemma obind_ret: "obind m f = ret y \<longleftrightarrow> (\<exists>x. m = ret x \<and> f x = ret y)"
  by (cases "(m, f)" rule: obind.cases) auto

lemma obind_cong [fundef_cong]:
  "m = m' \<Longrightarrow> (\<And>x. m' = ret x \<Longrightarrow> f x = g x) \<Longrightarrow> obind m f = obind m' g"
  by (cases "(m', g)" rule: obind.cases) auto

definition page_bytes :: "BuddyAllocator \<Rightarrow> u64 \<Rightarrow> bytes" where
  "page_bytes b f = concat (map (\<lambda>j. to_le 8 (mem b (phys_offset b + (f + 8 * of_nat j)))) [0..<512])"

definition set_page_bytes :: "u64 \<Rightarrow> bytes \<Rightarrow> BuddyAllocator \<Rightarrow> BuddyAllocator" where
  "set_page_bytes f bs b = b\<lparr>mem := (\<lambda>v. let o' = unat (v - phys_offset b - f)
     in if o' < 4096 \<and> 8 dvd o' then from_le (take 8 (drop o' bs)) else mem b v)\<rparr>"

lemma length_concat_8: "\<forall>x \<in> set xs. length (g x) = 8 \<Longrightarrow> length (concat (map g xs)) = 8 * length xs"
  by (induction xs) auto

lemma length_page_bytes [simp]: "length (page_bytes b f) = 4096"
  by (simp add: page_bytes_def length_concat_8 del: length_concat)

lemma concat_chunks: "length bs = 8 * n \<Longrightarrow> concat (map (\<lambda>j. take 8 (drop (8 * j) bs)) [0..<n]) = bs"
proof (induction n arbitrary: bs)
  case (Suc n)
  let ?t = "take (8 * n) bs"
  have "take 8 (drop (8 * j) ?t) = take 8 (drop (8 * j) bs)" if "j < n" for j
    using that by (simp add: drop_take min_def)
  then have "concat (map (\<lambda>j. take 8 (drop (8 * j) bs)) [0..<n]) =
      concat (map (\<lambda>j. take 8 (drop (8 * j) ?t)) [0..<n])" by (intro arg_cong [where f = concat] map_cong) simp_all
  also have "\<dots> = ?t" using Suc.prems by (intro Suc.IH) simp
  finally show ?case using Suc.prems by (simp add: append_take_drop_id)
qed simp

lemma page_bytes_set:
  assumes "length bs = 4096"
  shows "page_bytes (set_page_bytes f bs b) f = bs"
proof -
  have cell: "to_le 8 (mem (set_page_bytes f bs b) (phys_offset b + (f + 8 * of_nat j))) = take 8 (drop (8 * j) bs)"
    if "j < 512" for j
  proof -
    have "phys_offset b + (f + 8 * of_nat j) - phys_offset b - f = of_nat (8 * j)" by simp
    moreover have "unat (of_nat (8 * j) :: u64) = 8 * j" using that by (simp only: unat_of_nat) simp
    ultimately have "mem (set_page_bytes f bs b) (phys_offset b + (f + 8 * of_nat j)) = from_le (take 8 (drop (8 * j) bs))"
      using that by (simp add: set_page_bytes_def Let_def)
    moreover have "length (take 8 (drop (8 * j) bs)) = 8" using that assms by simp
    ultimately show ?thesis using le64.enc_dec by simp
  qed
  have "page_bytes (set_page_bytes f bs b) f = concat (map (\<lambda>j. take 8 (drop (8 * j) bs)) [0..<512])"
    unfolding page_bytes_def using cell
    by (intro arg_cong [where f = concat] map_cong) (simp_all add: set_page_bytes_def)
  then show ?thesis using concat_chunks [of bs 512] assms by simp
qed

text \<open>The bytes of a frame depend on its cells only.\<close>

lemma page_bytes_cong:
  assumes "phys_offset b' = phys_offset b" and "frame_addr_ok f"
    and "\<forall>x. unat x \<in> frame_span f \<longrightarrow> mem b' (phys_offset b + x) = mem b (phys_offset b + x)"
  shows "page_bytes b' f = page_bytes b f"
proof -
  have end_ok: "unat f + 4096 \<le> 2 ^ 64"
    using assms(2) aligned_end [of 12 f] by (simp add: frame_addr_ok_def block_ok_def)
  have "unat (f + 8 * of_nat j) \<in> frame_span f" if "j < 512" for j
  proof -
    have "unat (of_nat (8 * j) :: u64) = 8 * j" using that by (simp only: unat_of_nat) simp
    then have "unat (8 * of_nat j :: u64) = 8 * j" by simp
    then show ?thesis using that end_ok unat_add_lem [of f "8 * of_nat j"]
      by (simp add: frame_span_def span_def)
  qed
  then show ?thesis unfolding page_bytes_def using assms(1,3)
    by (intro arg_cong [where f = concat] map_cong) simp_all
qed

lemma page_bytes_keeps:
  assumes "keeps_outside A b b'" and "frame_addr_ok f" and "frame_span f \<inter> A = {}"
  shows "page_bytes b' f = page_bytes b f"
  using assms by (intro page_bytes_cong) (auto simp: keeps_outside_def)

text \<open>Stores into a frame that is not free change neither the allocator nor another frame.\<close>

lemma set_page_outside: "frame_addr_ok f \<Longrightarrow> keeps_outside (frame_span f) b (set_page_bytes f bs b)"
proof -
  assume ok: "frame_addr_ok f"
  have end_ok: "unat f + 4096 \<le> 2 ^ 64"
    using ok aligned_end [of 12 f] by (simp add: frame_addr_ok_def block_ok_def)
  have "unat x \<in> frame_span f" if "unat (x - f) < 4096" for x
  proof -
    have "unat f + unat (x - f) < 2 ^ LENGTH(64)" using that end_ok by simp
    then have "unat x = unat f + unat (x - f)" using unat_add_lem [of f "x - f"] by simp
    then show ?thesis using that by (simp add: frame_span_def span_def)
  qed
  then show ?thesis by (auto simp: keeps_outside_def set_page_bytes_def Let_def)
qed

lemma set_page_held:
  assumes "held H b" and "f \<in> H"
  shows "held H (set_page_bytes f bs b)" and "free_space (set_page_bytes f bs b) = free_space b"
proof -
  have ok: "frame_addr_ok f" and dis: "frame_span f \<inter> free_space b = {}" and inv: "pmm_inv b"
    using assms by (auto simp: held_def)
  have "set_page_bytes f bs b = b\<lparr>mem := mem (set_page_bytes f bs b)\<rparr>" by (simp add: set_page_bytes_def)
  moreover have "\<forall>x. unat x \<in> free_space b \<longrightarrow>
      mem (set_page_bytes f bs b) (phys_offset b + x) = mem b (phys_offset b + x)"
    using set_page_outside [OF ok, of b bs] dis by (auto simp: keeps_outside_def)
  ultimately have "pmm_inv (set_page_bytes f bs b) \<and> free_space (set_page_bytes f bs b) = free_space b"
    using pmm_store [OF inv] by metis
  then show "held H (set_page_bytes f bs b)" and "free_space (set_page_bytes f bs b) = free_space b"
    using assms(1) by (auto simp: held_def)
qed

lemma set_page_other:
  assumes "frame_addr_ok f" and "frame_addr_ok g" and "f \<noteq> g"
  shows "page_bytes (set_page_bytes f bs b) g = page_bytes b g"
  using page_bytes_keeps [OF set_page_outside [OF assms(1)] assms(2)] frames_disjoint [OF assms] by blast

end
