(* ===== verification/Page_Cache.thy ===== *)
theory Page_Cache
  imports Frame_Bytes Format "HOL-Library.Product_Lexorder"
begin

section \<open>The unified page cache\<close>

text \<open>
  Model of \<^verbatim>\<open>kernel/src/page_cache.rs\<close>: file pages in frames of the physical allocator, keyed by
  inode and page offset, with a queue of keys for eviction. The loader of \<^verbatim>\<open>read_bytes\<close> is a
  closure over the file system; it is an argument that transforms the frame's bytes and the
  state \<open>'s\<close> it works on. Write-back walks the file tree and is in the theory Vfs.
\<close>

definition MAX_PAGES :: nat where "MAX_PAGES = 1024"

type_synonym CacheKey = "u64 \<times> u64"

record CacheEntry =
  phys_frame :: u64
  dirty :: bool

record PageCache =
  entries :: "(CacheKey, CacheEntry) btree"
  lru :: "CacheKey list"
  hits :: u64
  misses :: u64
  evictions :: u64
  pc_frames :: BuddyAllocator

type_synonym 's loader = "u64 \<Rightarrow> bytes \<Rightarrow> 's \<Rightarrow> (nat \<times> bytes \<times> 's) outcome"

definition pc_new :: "BuddyAllocator \<Rightarrow> PageCache" where
  "pc_new b = \<lparr>entries = [], lru = [], hits = 0, misses = 0, evictions = 0, pc_frames = b\<rparr>"

text \<open>The eviction loop of \<^verbatim>\<open>insert_frame\<close>; the first argument is the queue.\<close>

fun evict_loop :: "CacheKey list \<Rightarrow> PageCache \<Rightarrow> PageCache outcome" where
  "evict_loop [] pc = ret pc"
| "evict_loop (old_key # rest) pc =
     (if MAX_PAGES \<le> length (old_key # rest)
      then case bt_get (entries pc) old_key of
             Some old_entry \<Rightarrow>
               obind (free_frame (phys_frame old_entry) (pc_frames pc))
                 (\<lambda>b. evict_loop rest (pc\<lparr>lru := rest, entries := bt_remove old_key (entries pc),
                                         pc_frames := b, evictions := evictions pc + 1\<rparr>))
           | None \<Rightarrow> evict_loop rest (pc\<lparr>lru := rest\<rparr>)
      else ret pc)"

definition insert_frame :: "u64 \<Rightarrow> u64 \<Rightarrow> u64 \<Rightarrow> bool \<Rightarrow> PageCache \<Rightarrow> PageCache outcome" where
  "insert_frame ino page_off phys is_dirty pc =
     obind (evict_loop (lru pc) pc)
       (\<lambda>pc1. ret (pc1\<lparr>entries := bt_insert (ino, page_off) \<lparr>phys_frame = phys, dirty = is_dirty\<rparr> (entries pc1),
                       lru := lru pc1 @ [(ino, page_off)]\<rparr>))"

definition zero_page :: bytes where
  "zero_page = replicate 4096 0"

definition get_or_load_page ::
  "u64 \<Rightarrow> u64 \<Rightarrow> 's loader \<Rightarrow> PageCache \<Rightarrow> 's \<Rightarrow> (u64 \<times> PageCache \<times> 's) outcome" where
  "get_or_load_page ino page_off loader pc s =
     (case bt_get (entries pc) (ino, page_off) of
        Some e \<Rightarrow> ret (phys_frame e, pc\<lparr>hits := hits pc + 1\<rparr>, s)
      | None \<Rightarrow>
          (let pc1 = pc\<lparr>misses := misses pc + 1\<rparr>
           in case alloc_frame (pc_frames pc1) of
                None \<Rightarrow> ret (0, pc1, s)
              | Some (phys, b) \<Rightarrow>
                  (let b1 = set_page_bytes phys zero_page b
                   in obind (loader page_off (page_bytes b1 phys) s)
                        (\<lambda>(loaded, buf, s').
                           let b2 = set_page_bytes phys buf b1
                           in if loaded = 0
                              then obind (free_frame phys b2) (\<lambda>b3. ret (0, pc1\<lparr>pc_frames := b3\<rparr>, s'))
                              else obind (insert_frame ino page_off phys False (pc1\<lparr>pc_frames := b2\<rparr>))
                                     (\<lambda>pc2. ret (phys, pc2, s'))))))"

definition get_or_alloc_page :: "u64 \<Rightarrow> u64 \<Rightarrow> PageCache \<Rightarrow> (u64 \<times> PageCache) outcome" where
  "get_or_alloc_page ino page_off pc =
     (case bt_get (entries pc) (ino, page_off) of
        Some e \<Rightarrow> ret (phys_frame e, pc\<lparr>hits := hits pc + 1\<rparr>)
      | None \<Rightarrow>
          (let pc1 = pc\<lparr>misses := misses pc + 1\<rparr>
           in case alloc_frame (pc_frames pc1) of
                None \<Rightarrow> ret (0, pc1)
              | Some (phys, b) \<Rightarrow>
                  obind (insert_frame ino page_off phys True
                           (pc1\<lparr>pc_frames := set_page_bytes phys zero_page b\<rparr>))
                    (\<lambda>pc2. ret (phys, pc2))))"

text \<open>The page of a position and the position inside it.\<close>

definition page_off :: "u64 \<Rightarrow> u64" where
  "page_off pos = pos AND NOT (PAGE_SIZE - 1)"

definition page_inner :: "u64 \<Rightarrow> nat" where
  "page_inner pos = unat (pos - page_off pos)"

lemma page_off_push: "page_off pos = push_bit 12 (drop_bit 12 pos)"
  using and_not_mask [of pos 12] by (simp add: page_off_def PAGE_SIZE_def)

lemma page_off_unat: "unat (page_off pos) = unat pos div 4096 * 4096"
  by (simp only: page_off_push unat_push_drop) simp

lemma page_inner_mod: "page_inner pos = unat pos mod 4096"
proof -
  have "page_off pos \<le> pos" by (simp add: word_le_nat_alt page_off_unat div_times_less_eq_dividend)
  then have "page_inner pos = unat pos - unat (page_off pos)" by (simp add: page_inner_def unat_sub)
  then show ?thesis by (simp add: page_off_unat minus_div_mult_eq_mod)
qed

lemma page_inner_less [simp]: "page_inner pos < 4096"
  by (simp add: page_inner_mod)

function read_loop ::
  "u64 \<Rightarrow> 's loader \<Rightarrow> u64 \<Rightarrow> nat \<Rightarrow> bytes \<Rightarrow> PageCache \<Rightarrow> 's \<Rightarrow> (nat \<times> bytes \<times> PageCache \<times> 's) outcome" where
  "read_loop ino loader pos written buf pc s =
     (if length buf \<le> written then ret (written, buf, pc, s)
      else let can_read = min (4096 - page_inner pos) (length buf - written)
           in obind (get_or_load_page ino (page_off pos) loader pc s)
                (\<lambda>(phys, pc1, s1).
                   if phys = 0 then ret (written, buf, pc1, s1)
                   else read_loop ino loader (pos + of_nat can_read) (written + can_read)
                          (copy_at written (take can_read (drop (page_inner pos) (page_bytes (pc_frames pc1) phys))) buf)
                          pc1 s1))"
  by pat_completeness auto
termination
proof (relation "measure (\<lambda>(ino, loader, pos, written, buf, pc, s). length buf - written)", goal_cases)
  case (2 ino loader pos written buf pc s can)
  have "0 < can" and "can \<le> 4096 - page_inner pos" and "can \<le> length buf - written"
    using 2(1,2) page_inner_less [of pos] by (auto simp: min_def)
  then show ?case using 2(1) by (simp add: copy_at_def)
qed simp

declare read_loop.simps [simp del]

definition read_bytes ::
  "u64 \<Rightarrow> u64 \<Rightarrow> bytes \<Rightarrow> 's loader \<Rightarrow> PageCache \<Rightarrow> 's \<Rightarrow> (nat \<times> bytes \<times> PageCache \<times> 's) outcome" where
  "read_bytes ino file_offset buf loader pc s = read_loop ino loader file_offset 0 buf pc s"

function write_loop :: "u64 \<Rightarrow> bytes \<Rightarrow> u64 \<Rightarrow> nat \<Rightarrow> PageCache \<Rightarrow> PageCache outcome" where
  "write_loop ino data pos done pc =
     (if length data \<le> done then ret pc
      else let can_write = min (4096 - page_inner pos) (length data - done)
           in obind (get_or_alloc_page ino (page_off pos) pc)
                (\<lambda>(phys, pc1).
                   if phys = 0 then ret pc1
                   else let page = copy_at (page_inner pos) (take can_write (drop done data))
                                     (page_bytes (pc_frames pc1) phys);
                            pc2 = pc1\<lparr>pc_frames := set_page_bytes phys page (pc_frames pc1)\<rparr>;
                            pc3 = pc2\<lparr>entries := bt_modify (ino, page_off pos) (\<lambda>e. e\<lparr>dirty := True\<rparr>) (entries pc2)\<rparr>
                        in write_loop ino data (pos + of_nat can_write) (done + can_write) pc3))"
  by pat_completeness auto
termination
proof (relation "measure (\<lambda>(ino, data, pos, done, pc). length data - done)", goal_cases)
  case (2 ino data pos "done" pc can)
  then have "0 < can" using page_inner_less [of pos] by (auto simp: min_def)
  then show ?case using 2(1) by simp
qed simp

declare write_loop.simps [simp del]

definition write_bytes :: "u64 \<Rightarrow> u64 \<Rightarrow> bytes \<Rightarrow> PageCache \<Rightarrow> PageCache outcome" where
  "write_bytes ino file_offset data pc = write_loop ino data file_offset 0 pc"

fun invalidate_loop :: "CacheKey list \<Rightarrow> PageCache \<Rightarrow> PageCache outcome" where
  "invalidate_loop [] pc = ret pc"
| "invalidate_loop (k # ks) pc =
     obind (case bt_get (entries pc) k of
              Some e \<Rightarrow> obind (free_frame (phys_frame e) (pc_frames pc))
                (\<lambda>b. ret (pc\<lparr>entries := bt_remove k (entries pc), pc_frames := b, evictions := evictions pc + 1\<rparr>))
            | None \<Rightarrow> ret pc)
       (\<lambda>pc1. invalidate_loop ks (pc1\<lparr>lru := filter (\<lambda>l. l \<noteq> k) (lru pc1)\<rparr>))"

definition invalidate :: "u64 \<Rightarrow> PageCache \<Rightarrow> PageCache outcome" where
  "invalidate ino pc = invalidate_loop (filter (\<lambda>k. fst k = ino) (map fst (entries pc))) pc"

definition get_phys_frame :: "u64 \<Rightarrow> u64 \<Rightarrow> PageCache \<Rightarrow> u64 option" where
  "get_phys_frame ino off pc = map_option phys_frame (bt_get (entries pc) (ino, off))"

definition cache_stats :: "PageCache \<Rightarrow> u64 \<times> u64 \<times> u64" where
  "cache_stats pc = (hits pc, misses pc, evictions pc)"

definition hit_ratio :: "PageCache \<Rightarrow> u64" where
  "hit_ratio pc = (if hits pc + misses pc > 0 then hits pc * 100 div (hits pc + misses pc) else 0)"

definition cache_format_stats :: "PageCache \<Rightarrow> string" where
  "cache_format_stats pc =
     (let cached = show_dec (int (length (entries pc))); nl = [CHR 0x0A]
      in ''cached_pages : '' @ cached @ nl @ ''hit_rate     : '' @ show_dec (uint (hit_ratio pc)) @ ''%'' @ nl @
         ''hits         : '' @ show_dec (uint (hits pc)) @ nl @ ''misses       : '' @ show_dec (uint (misses pc)) @ nl @
         ''evictions    : '' @ show_dec (uint (evictions pc)) @ nl @
         ''capacity     : '' @ cached @ ''/'' @ show_dec (int MAX_PAGES) @ nl)"

subsection \<open>Cached frames are held, distinct and bounded\<close>

lemma bt_insert_fresh:
  "k \<notin> fst ` set m \<Longrightarrow> \<exists>xs ys. m = xs @ ys \<and> bt_insert k v m = xs @ (k, v) # ys"
proof (induction k v m rule: bt_insert.induct)
  case (2 k v k' v' m)
  show ?case
  proof (cases "k < k'")
    case True
    then show ?thesis by (intro exI [of _ "[]"] exI [of _ "(k', v') # m"]) simp
  next
    case False
    then have lt: "\<not> k < k'" "k \<noteq> k'" using "2.prems" by auto
    then obtain xs ys where "m = xs @ ys" "bt_insert k v m = xs @ (k, v) # ys" using 2 by auto
    then show ?thesis using lt by (intro exI [of _ "(k', v') # xs"] exI [of _ ys]) simp
  qed
qed simp

definition cached :: "PageCache \<Rightarrow> u64 set" where
  "cached pc = phys_frame ` snd ` set (entries pc)"

text \<open>\<open>H\<close> are frames the rest of the kernel holds.\<close>

definition pc_rep :: "u64 set \<Rightarrow> PageCache \<Rightarrow> bool" where
  "pc_rep H pc \<longleftrightarrow> bt_wf (entries pc) \<and> distinct (lru pc) \<and> set (lru pc) = fst ` set (entries pc) \<and>
     distinct (map (phys_frame \<circ> snd) (entries pc)) \<and>
     held (cached pc \<union> H) (pc_frames pc) \<and> cached pc \<inter> H = {}"

definition pc_inv :: "u64 set \<Rightarrow> PageCache \<Rightarrow> bool" where
  "pc_inv H pc \<longleftrightarrow> pc_rep H pc \<and> length (lru pc) \<le> MAX_PAGES"

definition pool_space :: "PageCache \<Rightarrow> nat set" where
  "pool_space pc = free_space (pc_frames pc) \<union> spans (cached pc)"

text \<open>The pages a client can see: the bytes of each cached key.\<close>

definition page_at :: "PageCache \<Rightarrow> CacheKey \<Rightarrow> bytes option" where
  "page_at pc k = map_option (\<lambda>e. page_bytes (pc_frames pc) (phys_frame e)) (bt_get (entries pc) k)"

lemma cached_remove:
  assumes "pc_rep H pc" and "bt_get (entries pc) k = Some e"
  shows "phys_frame ` snd ` set (bt_remove k (entries pc)) = cached pc - {phys_frame e}"
    and "phys_frame e \<in> cached pc"
proof -
  have ke: "(k, e) \<in> set (entries pc)" using assms by (simp add: pc_rep_def bt_get_eq_mem)
  then show "phys_frame e \<in> cached pc" by (force simp: cached_def)
  have inj: "inj_on (phys_frame \<circ> snd) (set (entries pc))" and injk: "inj_on fst (set (entries pc))"
    using assms(1) bt_wf_distinct by (auto simp: pc_rep_def distinct_map)
  have "fst x = k \<longleftrightarrow> phys_frame (snd x) = phys_frame e" if "x \<in> set (entries pc)" for x
    using inj_onD [OF inj _ that ke] inj_onD [OF injk _ that ke] by (cases x) auto
  then have "set (bt_remove k (entries pc)) = {x \<in> set (entries pc). phys_frame (snd x) \<noteq> phys_frame e}"
    by (auto simp: bt_remove_def)
  then show "phys_frame ` snd ` set (bt_remove k (entries pc)) = cached pc - {phys_frame e}"
    unfolding cached_def by (auto simp: image_image)
qed

lemma bt_get_cached: "bt_get (entries pc) k = Some e \<Longrightarrow> phys_frame e \<in> cached pc"
  by (force simp: cached_def dest: map_of_SomeD)

lemma distinct_frames:
  assumes "pc_rep H pc" and "bt_get (entries pc) k = Some e" and "bt_get (entries pc) k' = Some e'" and "k \<noteq> k'"
  shows "phys_frame e \<noteq> phys_frame e'"
proof
  assume eq: "phys_frame e = phys_frame e'"
  have "inj_on (phys_frame \<circ> snd) (set (entries pc))" using assms(1) by (simp add: pc_rep_def distinct_map)
  from inj_onD [OF this _ map_of_SomeD [OF assms(2)] map_of_SomeD [OF assms(3)]] eq assms(4)
  show False by simp
qed

lemma held_frame_ok: "held H b \<Longrightarrow> f \<in> H \<Longrightarrow> frame_addr_ok f"
  by (simp add: held_def)

text \<open>Giving back one held frame.\<close>

lemma held_free_one:
  assumes "held H b" and "f \<in> H"
  shows "\<exists>b'. free_frame f b = ret b' \<and> held (H - {f}) b' \<and> free_space b' = free_space b \<union> frame_span f \<and>
         (\<forall>g \<in> H - {f}. page_bytes b' g = page_bytes b g)"
proof -
  have f: "pmm_inv b" "frame_addr_ok f" "frame_span f \<inter> free_space b = {}" using assms by (auto simp: held_def)
  from pmm.release_gives [OF f] obtain b' where b': "free_frame f b = ret b'" "pmm_inv b'"
    "free_space b' = free_space b \<union> frame_span f" by blast
  have dis: "frame_span g \<inter> frame_span f = {}" if "g \<in> H - {f}" for g
    using that assms f(2) by (intro frames_disjoint) (auto simp: held_def)
  then have "held (H - {f}) b'" using b' assms(1) by (auto simp: held_def)
  moreover have "page_bytes b' g = page_bytes b g" if "g \<in> H - {f}" for g
    using that dis [OF that] assms(1)
    by (intro page_bytes_keeps [OF free_frame_keeps [OF f b'(1)]]) (auto simp: held_def)
  ultimately show ?thesis using b' by blast
qed

lemma spans_remove:
  assumes "held H b" and "f \<in> H"
  shows "spans H = frame_span f \<union> spans (H - {f})"
  using assms by (auto simp: spans_def)

text \<open>Dropping one entry, as eviction and invalidation do.\<close>

lemma drop_entry:
  assumes rep: "pc_rep H pc" and k: "bt_get (entries pc) k = Some e"
  shows "\<exists>b. free_frame (phys_frame e) (pc_frames pc) = ret b \<and>
    (\<forall>ks ev. distinct ks \<longrightarrow> set ks = set (lru pc) - {k} \<longrightarrow>
       (let pc1 = pc\<lparr>lru := ks, entries := bt_remove k (entries pc), pc_frames := b, evictions := ev\<rparr>
        in pc_rep H pc1 \<and> pool_space pc1 = pool_space pc \<and> page_at pc1 = (page_at pc)(k := None))) \<and>
    (\<forall>h \<in> H. page_bytes b h = page_bytes (pc_frames pc) h)"
proof -
  have held: "held (cached pc \<union> H) (pc_frames pc)" and CH: "cached pc \<inter> H = {}" using rep by (simp_all add: pc_rep_def)
  note cr = cached_remove [OF rep k]
  have in_u: "phys_frame e \<in> cached pc \<union> H" using cr(2) by simp
  from held_free_one [OF held in_u] obtain b where b: "free_frame (phys_frame e) (pc_frames pc) = ret b"
    "held (cached pc \<union> H - {phys_frame e}) b" "free_space b = free_space (pc_frames pc) \<union> frame_span (phys_frame e)"
    and pg: "\<And>g. g \<in> cached pc \<union> H - {phys_frame e} \<Longrightarrow> page_bytes b g = page_bytes (pc_frames pc) g" by blast
  have ch: "cached pc \<union> H - {phys_frame e} = (cached pc - {phys_frame e}) \<union> H" using CH cr(2) by auto
  have "pc_rep H pc1 \<and> pool_space pc1 = pool_space pc \<and> page_at pc1 = (page_at pc)(k := None)"
    if ks: "distinct ks" "set ks = set (lru pc) - {k}"
      and pc1: "pc1 = pc\<lparr>lru := ks, entries := bt_remove k (entries pc), pc_frames := b, evictions := ev\<rparr>"
    for ks ev pc1
  proof (intro conjI)
    have c1: "cached pc1 = cached pc - {phys_frame e}" using cr(1) by (simp add: cached_def pc1)
    have "distinct (map (phys_frame \<circ> snd) (bt_remove k (entries pc)))"
      using rep by (auto simp: pc_rep_def bt_remove_def distinct_map_filter)
    then show "pc_rep H pc1"
      using rep ks b(2) c1 ch CH by (auto simp: pc_rep_def pc1 bt_wf_remove)
    have "spans (cached pc) = frame_span (phys_frame e) \<union> spans (cached pc - {phys_frame e})"
      using cr(2) by (auto simp: spans_def)
    then show "pool_space pc1 = pool_space pc" using b(3) c1 by (auto simp: pool_space_def pc1)
    show "page_at pc1 = (page_at pc)(k := None)"
    proof
      fix k'
      show "page_at pc1 k' = ((page_at pc)(k := None)) k'"
      proof (cases "k' = k \<or> bt_get (entries pc) k' = None")
        case False
        then obtain e' where e': "bt_get (entries pc) k' = Some e'" and kk: "k \<noteq> k'" by auto
        have "phys_frame e' \<in> cached pc \<union> H - {phys_frame e}"
          using bt_get_cached [OF e'] distinct_frames [OF rep k e' kk] by simp
        from pg [OF this] show ?thesis using e' kk by (simp add: page_at_def pc1)
      qed (auto simp: page_at_def pc1)
    qed
  qed
  moreover have "\<forall>h \<in> H. page_bytes b h = page_bytes (pc_frames pc) h" using pg ch by blast
  ultimately show ?thesis using b(1) by (auto simp: Let_def)
qed

text \<open>Everything the cache still shows, it showed before.\<close>

lemma evict_loop_ok:
  assumes "pc_rep H pc" and "lru pc = ks"
  shows "\<exists>pc1. evict_loop ks pc = ret pc1 \<and> pc_rep H pc1 \<and> length (lru pc1) < MAX_PAGES \<and>
    pool_space pc1 = pool_space pc \<and> page_at pc1 \<subseteq>\<^sub>m page_at pc \<and>
    (\<forall>h \<in> H. page_bytes (pc_frames pc1) h = page_bytes (pc_frames pc) h)"
  using assms
proof (induction ks arbitrary: pc)
  case Nil
  then show ?case by (auto simp: MAX_PAGES_def)
next
  case (Cons k ks)
  show ?case
  proof (cases "MAX_PAGES \<le> length (k # ks)")
    case True
    have "k \<in> fst ` set (entries pc)" using Cons.prems by (auto simp: pc_rep_def)
    then obtain e where e: "bt_get (entries pc) k = Some e" by (metis bt_get_None_iff not_Some_eq)
    from drop_entry [OF Cons.prems(1) e] obtain b where b: "free_frame (phys_frame e) (pc_frames pc) = ret b"
      and d: "\<And>ks ev. distinct ks \<Longrightarrow> set ks = set (lru pc) - {k} \<Longrightarrow>
       (let pc1 = pc\<lparr>lru := ks, entries := bt_remove k (entries pc), pc_frames := b, evictions := ev\<rparr>
        in pc_rep H pc1 \<and> pool_space pc1 = pool_space pc \<and> page_at pc1 = (page_at pc)(k := None))"
      and hb: "\<forall>h \<in> H. page_bytes b h = page_bytes (pc_frames pc) h" by blast
    let ?pc1 = "pc\<lparr>lru := ks, entries := bt_remove k (entries pc), pc_frames := b, evictions := evictions pc + 1\<rparr>"
    have "distinct (k # ks)" using Cons.prems by (auto simp: pc_rep_def)
    then have p1: "pc_rep H ?pc1" "pool_space ?pc1 = pool_space pc" "page_at ?pc1 = (page_at pc)(k := None)"
      using d [of ks "evictions pc + 1"] Cons.prems(2) by (simp_all add: Let_def)
    from Cons.IH [OF p1(1)] obtain pc2 where "evict_loop ks ?pc1 = ret pc2" "pc_rep H pc2"
      "length (lru pc2) < MAX_PAGES" "pool_space pc2 = pool_space pc" "page_at pc2 \<subseteq>\<^sub>m page_at ?pc1"
      "\<forall>h \<in> H. page_bytes (pc_frames pc2) h = page_bytes b h"
      using p1(2) by auto
    moreover have "page_at ?pc1 \<subseteq>\<^sub>m page_at pc" by (auto simp: p1(3) map_le_def)
    ultimately show ?thesis using True e b hb by (auto intro: map_le_trans)
  next
    case False
    then show ?thesis using Cons.prems by (intro exI [of _ pc]) simp
  qed
qed

text \<open>A held frame that is not cached joins the cache.\<close>

lemma insert_frame_ok:
  assumes "pc_rep (insert phys H) pc" and "phys \<notin> H" and "bt_get (entries pc) (ino, off) = None"
  shows "\<exists>pc1. insert_frame ino off phys d pc = ret pc1 \<and> pc_inv H pc1 \<and>
    pool_space pc1 = pool_space pc \<union> frame_span phys \<and>
    page_at pc1 \<subseteq>\<^sub>m (page_at pc)((ino, off) \<mapsto> page_bytes (pc_frames pc) phys) \<and>
    bt_get (entries pc1) (ino, off) = Some \<lparr>phys_frame = phys, dirty = d\<rparr> \<and>
    page_at pc1 (ino, off) = Some (page_bytes (pc_frames pc) phys) \<and>
    (\<forall>h \<in> H. page_bytes (pc_frames pc1) h = page_bytes (pc_frames pc) h)"
proof -
  let ?k = "(ino, off)" and ?e = "\<lparr>phys_frame = phys, dirty = d\<rparr>"
  from evict_loop_ok [OF assms(1) refl] obtain pc1 where e1: "evict_loop (lru pc) pc = ret pc1"
    "pc_rep (insert phys H) pc1" "length (lru pc1) < MAX_PAGES" "pool_space pc1 = pool_space pc"
    "page_at pc1 \<subseteq>\<^sub>m page_at pc"
    and h1: "\<forall>h \<in> insert phys H. page_bytes (pc_frames pc1) h = page_bytes (pc_frames pc) h" by blast
  define pc2 where "pc2 = pc1\<lparr>entries := bt_insert ?k ?e (entries pc1), lru := lru pc1 @ [?k]\<rparr>"
  have "page_at pc1 ?k = None"
  proof (rule ccontr)
    assume "page_at pc1 ?k \<noteq> None"
    then have "?k \<in> dom (page_at pc)" using e1(5) map_le_implies_dom_le by blast
    then show False using assms(3) by (simp add: page_at_def dom_def)
  qed
  then have none: "bt_get (entries pc1) ?k = None" by (simp add: page_at_def)
  then have nk: "?k \<notin> fst ` set (entries pc1)" by (simp add: bt_get_None_iff)
  obtain xs ys where xy: "entries pc1 = xs @ ys" "bt_insert ?k ?e (entries pc1) = xs @ (?k, ?e) # ys"
    using bt_insert_fresh [OF nk] by blast
  have ins: "set (bt_insert ?k ?e (entries pc1)) = insert (?k, ?e) (set (entries pc1))"
    and dist: "distinct (map (phys_frame \<circ> snd) (bt_insert ?k ?e (entries pc1)))"
    if "phys \<notin> cached pc1" "distinct (map (phys_frame \<circ> snd) (entries pc1))"
    using that unfolding xy(2) by (auto simp: cached_def image_image xy(1))
  have rep1: "bt_wf (entries pc1)" "distinct (lru pc1)" "set (lru pc1) = fst ` set (entries pc1)"
    "distinct (map (phys_frame \<circ> snd) (entries pc1))" "held (cached pc1 \<union> insert phys H) (pc_frames pc1)"
    "cached pc1 \<inter> insert phys H = {}" using e1(2) by (simp_all add: pc_rep_def)
  then have fresh: "phys \<notin> cached pc1" by auto
  have c2: "cached pc2 = insert phys (cached pc1)"
    using ins [OF fresh rep1(4)] by (simp add: cached_def pc2_def)
  have "pc_inv H pc2"
    using rep1 dist [OF fresh] nk c2 assms(2) e1(3)
    by (auto simp: pc_inv_def pc_rep_def pc2_def bt_wf_insert)
  moreover have "pool_space pc2 = pool_space pc \<union> frame_span phys"
    using c2 e1(4) by (auto simp: pool_space_def pc2_def)
  moreover have pa: "page_at pc2 = (page_at pc1)(?k \<mapsto> page_bytes (pc_frames pc) phys)"
    using h1 by (auto simp: page_at_def pc2_def fun_eq_iff)
  moreover have "page_at pc2 \<subseteq>\<^sub>m (page_at pc)(?k \<mapsto> page_bytes (pc_frames pc) phys)"
    unfolding pa using e1(5) by (rule map_le_upd)
  moreover have "insert_frame ino off phys d pc = ret pc2" using e1(1) by (simp add: insert_frame_def pc2_def)
  ultimately show ?thesis using h1 by (intro exI [of _ pc2]) (simp_all add: pc2_def)
qed

subsection \<open>Reading through the cache\<close>

text \<open>The page of a file at an offset, filled with zeros past the end, and a cache that shows only
  pages of the current contents. A loader serves contents when it copies what is there and
  returns the number of bytes.\<close>

definition file_page :: "bytes \<Rightarrow> nat \<Rightarrow> bytes" where
  "file_page c o' = take 4096 (drop o' c) @ replicate (4096 - (length c - o')) 0"

definition coherent :: "(u64 \<rightharpoonup> bytes) \<Rightarrow> PageCache \<Rightarrow> bool" where
  "coherent F pc \<longleftrightarrow> (\<forall>ino off p c. page_at pc (ino, off) = Some p \<longrightarrow> F ino = Some c \<longrightarrow> p = file_page c (unat off))"

definition serves :: "bytes \<Rightarrow> ('s \<Rightarrow> bool) \<Rightarrow> 's loader \<Rightarrow> bool" where
  "serves c I loader \<longleftrightarrow> (\<forall>off buf s. I s \<longrightarrow> length buf = 4096 \<longrightarrow> unat off < length c \<longrightarrow>
     (let n = min 4096 (length c - unat off)
      in \<exists>s'. loader off buf s = ret (n, take n (drop (unat off) c) @ drop n buf, s') \<and> I s'))"

lemma length_file_page [simp]: "length (file_page c o') = 4096"
  by (simp add: file_page_def)

lemma file_page_slice:
  assumes "i < 4096" and "n \<le> 4096 - i" and "o' + i + n \<le> length c"
  shows "take n (drop i (file_page c o')) = take n (drop (o' + i) c)"
proof -
  have "drop i (file_page c o') = take (4096 - i) (drop (o' + i) c) @ drop (i - length (take 4096 (drop o' c)))
      (replicate (4096 - (length c - o')) 0)"
    by (simp add: file_page_def drop_take add.commute)
  then show ?thesis using assms by simp
qed

lemma page_at_upd [simp]:
  "page_at (pc\<lparr>hits := h\<rparr>) = page_at pc" "page_at (pc\<lparr>misses := h\<rparr>) = page_at pc"
  "pool_space (pc\<lparr>hits := h\<rparr>) = pool_space pc" "pool_space (pc\<lparr>misses := h\<rparr>) = pool_space pc"
  "pc_inv H (pc\<lparr>hits := h\<rparr>) = pc_inv H pc" "pc_inv H (pc\<lparr>misses := h\<rparr>) = pc_inv H pc"
  by (simp_all add: page_at_def fun_eq_iff pool_space_def cached_def pc_inv_def pc_rep_def)

lemma coherent_le: "coherent F pc \<Longrightarrow> page_at pc1 \<subseteq>\<^sub>m page_at pc \<Longrightarrow> coherent F pc1"
  unfolding coherent_def map_le_def by (metis domI)

lemma held_zeroed:
  assumes "pc_inv H pc" and "alloc_frame (pc_frames pc) = Some (phys, b)"
  defines "b1 \<equiv> set_page_bytes phys zero_page b"
  shows "pc_rep (insert phys H) (pc\<lparr>misses := m, pc_frames := set_page_bytes phys buf b1\<rparr>)" and "phys \<notin> H"
    and "page_at (pc\<lparr>misses := m, pc_frames := set_page_bytes phys buf b1\<rparr>) = page_at pc"
    and "pool_space (pc\<lparr>misses := m, pc_frames := set_page_bytes phys buf b1\<rparr>) \<union> frame_span phys = pool_space pc"
    and "phys \<noteq> 0" and "page_bytes b1 phys = zero_page"
    and "\<forall>h \<in> H. page_bytes (set_page_bytes phys buf b1) h = page_bytes (pc_frames pc) h"
proof -
  let ?H = "cached pc \<union> H"
  have rep: "pc_rep H pc" and held: "held ?H (pc_frames pc)" using assms(1) by (simp_all add: pc_inv_def pc_rep_def)
  note al = held_alloc [OF held assms(2)]
  have inp: "phys \<in> insert phys ?H" by simp
  note s1 = set_page_held [OF al(1) inp, of zero_page, folded b1_def]
  note s2 = set_page_held [OF s1(1) inp, of buf]
  show "phys \<notin> H" using al(2) by simp
  have dis: "cached pc \<inter> insert phys H = {}" using al(2) rep by (auto simp: pc_rep_def)
  let ?pc = "pc\<lparr>misses := m, pc_frames := set_page_bytes phys buf b1\<rparr>"
  have c: "cached ?pc = cached pc" by (simp add: cached_def)
  then show "pc_rep (insert phys H) ?pc"
    using rep s2(1) dis by (simp add: pc_rep_def)
  have ok: "frame_addr_ok g" if "g \<in> insert phys ?H" for g using al(1) that by (auto simp: held_def)
  have pb: "page_bytes (set_page_bytes phys buf b1) g = page_bytes (pc_frames pc) g" if g: "g \<in> ?H" for g
  proof -
    have "g \<noteq> phys" using al(2) g by auto
    then have "page_bytes (set_page_bytes phys buf b1) g = page_bytes b g"
      using set_page_other [OF ok ok] g by (simp add: b1_def)
    also have "\<dots> = page_bytes (pc_frames pc) g"
      using held g by (intro page_bytes_keeps [OF alloc_frame_keeps [OF _ assms(2)]]) (auto simp: held_def)
    finally show ?thesis .
  qed
  show "page_at ?pc = page_at pc"
  proof
    fix k
    show "page_at ?pc k = page_at pc k"
    proof (cases "bt_get (entries pc) k")
      case (Some e)
      then show ?thesis using pb [of "phys_frame e"] bt_get_cached [OF Some] by (simp add: page_at_def)
    qed (simp add: page_at_def)
  qed
  have "free_space (set_page_bytes phys buf b1) = free_space b" using s1(2) s2(2) by simp
  then show "pool_space ?pc \<union> frame_span phys = pool_space pc"
    using al(3) c by (auto simp: pool_space_def)
  show "phys \<noteq> 0" using ok [OF inp] by (simp add: frame_addr_ok_def block_ok_def)
  show "page_bytes b1 phys = zero_page" unfolding b1_def by (rule page_bytes_set) (simp add: zero_page_def)
  show "\<forall>h \<in> H. page_bytes (set_page_bytes phys buf b1) h = page_bytes (pc_frames pc) h" using pb by simp
qed

lemma get_or_load_ok:
  assumes inv: "pc_inv H pc" and coh: "coherent F pc" and F: "F ino = Some c" and sv: "serves c I loader"
    and I: "I s" and off: "unat off < length c"
  shows "\<exists>phys pc1 s1. get_or_load_page ino off loader pc s = ret (phys, pc1, s1) \<and>
     pc_inv H pc1 \<and> coherent F pc1 \<and> I s1 \<and> pool_space pc1 = pool_space pc \<and>
     (\<forall>h \<in> H. page_bytes (pc_frames pc1) h = page_bytes (pc_frames pc) h) \<and>
     (if phys = 0 then free_space (pc_frames pc1) = {}
      else page_bytes (pc_frames pc1) phys = file_page c (unat off))"
proof (cases "bt_get (entries pc) (ino, off)")
  case (Some e)
  have "phys_frame e \<in> cached pc" by (rule bt_get_cached [OF Some])
  then have "phys_frame e \<noteq> 0"
    using inv by (auto simp: pc_inv_def pc_rep_def held_def frame_addr_ok_def block_ok_def)
  moreover have "page_bytes (pc_frames pc) (phys_frame e) = file_page c (unat off)"
    using coh F Some by (auto simp: coherent_def page_at_def)
  ultimately show ?thesis using Some inv coh I
    by (auto simp: get_or_load_page_def coherent_def)
next
  case None
  show ?thesis
  proof (cases "alloc_frame (pc_frames pc)")
    case al: None
    have "pmm_inv (pc_frames pc)" using inv by (simp add: pc_inv_def pc_rep_def held_def)
    then have "free_space (pc_frames pc) = {}" using al by (rule alloc_frame_none)
    then show ?thesis using None al inv coh I by (auto simp: get_or_load_page_def coherent_def)
  next
    case (Some a)
    obtain phys b where a: "alloc_frame (pc_frames pc) = Some (phys, b)" using Some by (cases a) simp
    define b1 where "b1 = set_page_bytes phys zero_page b"
    define n where "n = min 4096 (length c - unat off)"
    obtain s1 where ld: "loader off (page_bytes b1 phys) s = ret (n, take n (drop (unat off) c) @ drop n (page_bytes b1 phys), s1)"
      and I1: "I s1"
      using sv [unfolded serves_def Let_def, rule_format, OF I _ off, of "page_bytes b1 phys"] by (auto simp: n_def)
    define buf where "buf = take n (drop (unat off) c) @ drop n (page_bytes b1 phys)"
    define pc1 where "pc1 = pc\<lparr>misses := misses pc + 1, pc_frames := set_page_bytes phys buf b1\<rparr>"
    note z1 = held_zeroed(1,3,4) [OF inv a, where m = "misses pc + 1" and buf = buf, folded b1_def, folded pc1_def]
      and z2 = held_zeroed(2,5,6) [OF inv a, folded b1_def] and z3 = held_zeroed(7) [OF inv a, where buf = buf, folded b1_def]
    have n: "n \<noteq> 0" using off by (simp add: n_def)
    have len: "length buf = 4096" by (simp add: buf_def n_def)
    have "bt_get (entries pc1) (ino, off) = None" using None by (simp add: pc1_def)
    from insert_frame_ok [OF z1(1) z2(1) this, of False] obtain pc2
      where i: "insert_frame ino off phys False pc1 = ret pc2" "pc_inv H pc2"
        "pool_space pc2 = pool_space pc1 \<union> frame_span phys"
        "page_at pc2 \<subseteq>\<^sub>m (page_at pc1)((ino, off) \<mapsto> page_bytes (pc_frames pc1) phys)"
        "bt_get (entries pc2) (ino, off) = Some \<lparr>phys_frame = phys, dirty = False\<rparr>"
        "page_at pc2 (ino, off) = Some (page_bytes (pc_frames pc1) phys)"
        and h: "\<forall>h \<in> H. page_bytes (pc_frames pc2) h = page_bytes (pc_frames pc1) h" by blast
    have "page_bytes (pc_frames pc1) phys = buf" unfolding pc1_def using page_bytes_set [OF len] by simp
    moreover have "buf = file_page c (unat off)"
      using z2(3) by (simp add: buf_def n_def file_page_def zero_page_def min_def)
    ultimately have pg: "page_bytes (pc_frames pc1) phys = file_page c (unat off)" by simp
    have "coherent F ((pc1\<lparr>entries := entries pc1\<rparr>))" using coh z1(2) by (simp add: coherent_def)
    then have "coherent F pc2"
      using i(4) pg F coh z1(2) unfolding coherent_def map_le_def
      by (metis (no_types, lifting) domI fun_upd_apply option.inject prod.inject)
    moreover have "get_or_load_page ino off loader pc s = ret (phys, pc2, s1)"
      using None a ld n i(1)
      by (simp add: get_or_load_page_def b1_def [symmetric] buf_def [symmetric] pc1_def)
    moreover have "page_bytes (pc_frames pc2) phys = file_page c (unat off)"
      using i(5,6) pg by (simp add: page_at_def)
    moreover have "\<forall>h \<in> H. page_bytes (pc_frames pc2) h = page_bytes (pc_frames pc) h"
      using h z3 by (simp add: pc1_def)
    ultimately show ?thesis using i(2,3) z1(3) z2(2) I1 by auto
  qed
qed

text \<open>The loop: after \<open>w\<close> bytes, the buffer holds \<open>w\<close> bytes of the file; it stops early only when
  no frame is left.\<close>

lemma unat_pos_add:
  "unat (pos::u64) + n < 2 ^ 64 \<Longrightarrow> unat (pos + of_nat n) = unat pos + n"
proof -
  assume a: "unat pos + n < 2 ^ 64"
  then have "unat (of_nat n :: u64) = n" by (simp only: unat_of_nat) simp
  then show ?thesis using a unat_add_lem [of pos "of_nat n"] by simp
qed

lemma read_step_buf:
  assumes "w \<le> length buf0" and "n \<le> length buf0 - w" and "b + w + n \<le> length c"
    and "p = take n (drop (b + w) c)"
  shows "copy_at w p (take w (drop b c) @ drop w buf0) = take (w + n) (drop b c) @ drop (w + n) buf0"
  using assms by (simp add: copy_at_def take_add add.commute [of b] add.commute [of n])

lemma read_loop_ok:
  assumes "pc_inv H pc" and "coherent F pc" and F: "F ino = Some c" and sv: "serves c I loader" and "I s"
    and "length c < 2 ^ 64" and "b + length buf0 \<le> length c" and "unat pos = b + w" and "w \<le> length buf0"
    and "buf = take w (drop b c) @ drop w buf0"
  shows "\<exists>w' pc' s'. read_loop ino loader pos w buf pc s = ret (w', take w' (drop b c) @ drop w' buf0, pc', s') \<and>
     pc_inv H pc' \<and> coherent F pc' \<and> I s' \<and> pool_space pc' = pool_space pc \<and> w' \<le> length buf0 \<and>
     (\<forall>h \<in> H. page_bytes (pc_frames pc') h = page_bytes (pc_frames pc) h) \<and>
     (w' < length buf0 \<longrightarrow> free_space (pc_frames pc') = {})"
  using assms(1,2,5,8-10)
proof (induction "length buf0 - w" arbitrary: w pos buf pc s rule: less_induct)
  case less
  have lb: "length buf = length buf0" using less.prems(5,6) assms(7) by simp
  show ?case
  proof (cases "length buf \<le> w")
    case True
    then have "w = length buf0" using less.prems(5) lb by simp
    then show ?thesis using True less.prems by (subst read_loop.simps) auto
  next
    case False
    define can where "can = min (4096 - page_inner pos) (length buf - w)"
    have can: "0 < can" "can \<le> 4096 - page_inner pos" "can \<le> length buf0 - w"
      using False lb page_inner_less [of pos] by (auto simp: can_def min_def)
    have po: "unat (page_off pos) + page_inner pos = b + w"
      using less.prems(4) by (simp add: page_off_unat page_inner_mod)
    then have lt: "unat (page_off pos) < length c" using False lb assms(7) by simp
    from get_or_load_ok [OF less.prems(1,2) F sv less.prems(3) lt] obtain phys pc1 s1 where
      g: "get_or_load_page ino (page_off pos) loader pc s = ret (phys, pc1, s1)" "pc_inv H pc1" "coherent F pc1"
         "I s1" "pool_space pc1 = pool_space pc"
      and h: "\<forall>h \<in> H. page_bytes (pc_frames pc1) h = page_bytes (pc_frames pc) h"
      and r: "if phys = 0 then free_space (pc_frames pc1) = {}
              else page_bytes (pc_frames pc1) phys = file_page c (unat (page_off pos))" by blast
    show ?thesis
    proof (cases "phys = 0")
      case True
      then show ?thesis using False g h r less.prems(5,6)
        by (subst read_loop.simps) (auto simp: can_def [symmetric])
    next
      case nz: False
      define buf1 where "buf1 = copy_at w (take can (drop (page_inner pos) (page_bytes (pc_frames pc1) phys))) buf"
      have "take can (drop (page_inner pos) (page_bytes (pc_frames pc1) phys)) = take can (drop (b + w) c)"
        using r nz file_page_slice [of "page_inner pos" can "unat (page_off pos)" c] can po assms(7) less.prems(5)
        by simp
      then have buf1: "buf1 = take (w + can) (drop b c) @ drop (w + can) buf0"
        unfolding buf1_def less.prems(6) using read_step_buf [OF less.prems(5) can(3)] assms(7) can(3) less.prems(5) by simp
      have pos: "unat (pos + of_nat can) = b + (w + can)"
        using less.prems(4,5) can(3) assms(6,7) by (subst unat_pos_add) simp_all
      have step: "read_loop ino loader pos w buf pc s = read_loop ino loader (pos + of_nat can) (w + can) buf1 pc1 s1"
        using False g(1) nz by (subst read_loop.simps) (simp add: can_def [symmetric] buf1_def Let_def)
      have "length buf0 - (w + can) < length buf0 - w" using can by simp
      from less.hyps [OF this g(2,3,4) pos _ buf1] can less.prems(5) g(5) h step
      show ?thesis by simp
    qed
  qed
qed

text \<open>What every call of the loader keeps, the whole read keeps.\<close>

lemma get_or_load_state:
  assumes "get_or_load_page ino off loader pc s = ret (phys, pc1, s1)" and "R s s"
    and "\<And>n b bs. loader off b s = ret (n, bs, s1) \<Longrightarrow> R s s1"
  shows "R s s1"
  using assms
  by (fastforce simp: get_or_load_page_def Let_def obind_ret split: option.splits prod.splits if_splits)

lemma read_loop_state:
  assumes "read_loop ino loader pos w bs pc s = ret (w', bs', pc', s')" and "reflp R" and "transp R"
    and "\<And>off b s n bs s'. loader off b s = ret (n, bs, s') \<Longrightarrow> R s s'"
  shows "R s s'"
  using assms(1)
proof (induction ino loader\<equiv>loader pos w bs pc s rule: read_loop.induct)
  case (1 ino pos w bs pc s)
  show ?case
  proof (cases "length bs \<le> w")
    case True
    then show ?thesis using "1.prems" assms(2) by (simp add: read_loop.simps reflpD)
  next
    case False
    then obtain phys pc1 s1 where g: "get_or_load_page ino (page_off pos) loader pc s = ret (phys, pc1, s1)"
      using "1.prems" by (subst (asm) read_loop.simps) (auto simp: Let_def obind_ret)
    have R1: "R s s1" by (rule get_or_load_state [OF g]) (use assms in \<open>auto intro: reflpD\<close>)
    show ?thesis
    proof (cases "phys = 0")
      case True
      then show ?thesis using "1.prems" False g R1 by (subst (asm) read_loop.simps) (auto simp: Let_def)
    next
      case nz: False
      have "R s1 s'" using "1.hyps" [OF False refl g refl refl nz] "1.prems" False g nz
        by (subst (asm) (2) read_loop.simps) (simp add: Let_def)
      then show ?thesis using R1 assms(3) by (blast dest: transpD)
    qed
  qed
qed

subsection \<open>Invalidation\<close>

lemma invalidate_loop_ok:
  assumes "pc_inv H pc" and "set ks \<subseteq> fst ` set (entries pc)" and "distinct ks"
  shows "\<exists>pc'. invalidate_loop ks pc = ret pc' \<and> pc_inv H pc' \<and> pool_space pc' = pool_space pc \<and>
    page_at pc' = (\<lambda>k. if k \<in> set ks then None else page_at pc k)"
  using assms
proof (induction ks arbitrary: pc)
  case (Cons k ks)
  have rep: "pc_rep H pc" and len: "length (lru pc) \<le> MAX_PAGES" using Cons.prems(1) by (simp_all add: pc_inv_def)
  obtain e where e: "bt_get (entries pc) k = Some e"
    using Cons.prems(2) by (metis bt_get_None_iff insert_subset list.set(2) not_Some_eq)
  let ?l = "filter (\<lambda>l. l \<noteq> k) (lru pc)"
  from drop_entry [OF rep e] obtain b where b: "free_frame (phys_frame e) (pc_frames pc) = ret b"
    and d: "\<And>ks ev. distinct ks \<Longrightarrow> set ks = set (lru pc) - {k} \<Longrightarrow>
       (let pc1 = pc\<lparr>lru := ks, entries := bt_remove k (entries pc), pc_frames := b, evictions := ev\<rparr>
        in pc_rep H pc1 \<and> pool_space pc1 = pool_space pc \<and> page_at pc1 = (page_at pc)(k := None))" by blast
  let ?pc1 = "pc\<lparr>lru := ?l, entries := bt_remove k (entries pc), pc_frames := b, evictions := evictions pc + 1\<rparr>"
  have "distinct ?l" using rep by (simp add: pc_rep_def)
  moreover have "set ?l = set (lru pc) - {k}" by auto
  ultimately have p1: "pc_rep H ?pc1" "pool_space ?pc1 = pool_space pc" "page_at ?pc1 = (page_at pc)(k := None)"
    using d [of ?l "evictions pc + 1"] by (simp_all add: Let_def)
  have "length ?l \<le> MAX_PAGES" using len by (meson le_trans length_filter_le)
  then have inv1: "pc_inv H ?pc1" using p1(1) by (simp add: pc_inv_def)
  have "set ks \<subseteq> fst ` set (entries ?pc1)" using Cons.prems(2,3) by auto
  from Cons.IH [OF inv1 this] Cons.prems(3) obtain pc2 where r:
    "invalidate_loop ks ?pc1 = ret pc2" "pc_inv H pc2" "pool_space pc2 = pool_space pc"
    "page_at pc2 = (\<lambda>x. if x \<in> set ks then None else page_at ?pc1 x)" using p1(2) by auto
  have upd: "pc\<lparr>entries := bt_remove k (entries pc), pc_frames := b, evictions := evictions pc + 1, lru := ?l\<rparr> = ?pc1"
    by simp
  have "invalidate_loop (k # ks) pc = invalidate_loop ks ?pc1" unfolding upd [symmetric] using e b by simp
  moreover have "page_at pc2 = (\<lambda>x. if x \<in> set (k # ks) then None else page_at pc x)"
    by (rule ext) (simp only: r(4) p1(3) fun_upd_apply list.set insert_iff split: if_split, simp)
  ultimately show ?case using r(1-3) by auto
qed simp

lemma invalidate_ok:
  assumes "pc_inv H pc"
  shows "\<exists>pc'. invalidate ino pc = ret pc' \<and> pc_inv H pc' \<and> pool_space pc' = pool_space pc \<and>
    page_at pc' = (\<lambda>k. if fst k = ino then None else page_at pc k)"
proof -
  let ?ks = "filter (\<lambda>k. fst k = ino) (map fst (entries pc))"
  have "distinct ?ks" using assms by (simp add: pc_inv_def pc_rep_def bt_wf_distinct)
  moreover have "set ?ks \<subseteq> fst ` set (entries pc)" by auto
  ultimately obtain pc' where pc': "invalidate ino pc = ret pc'" "pc_inv H pc'" "pool_space pc' = pool_space pc"
    "page_at pc' = (\<lambda>k. if k \<in> set ?ks then None else page_at pc k)"
    using invalidate_loop_ok [OF assms, of ?ks] unfolding invalidate_def by blast
  have "page_at pc' = (\<lambda>k. if fst k = ino then None else page_at pc k)"
  proof
    fix k
    show "page_at pc' k = (if fst k = ino then None else page_at pc k)"
    proof (cases "k \<in> fst ` set (entries pc)")
      case False
      then have "page_at pc k = None" by (simp add: page_at_def bt_get_None_iff)
      then show ?thesis by (simp add: pc'(4))
    next
      case True
      then show ?thesis by (auto simp: pc'(4))
    qed
  qed
  then show ?thesis using pc' by blast
qed

lemma invalidate_coherent:
  assumes "coherent F pc" and "page_at pc' = (\<lambda>k. if fst k = ino then None else page_at pc k)"
  shows "coherent (F(ino := x)) pc'"
  using assms by (auto simp: coherent_def)

lemma pc_new_inv: "pmm_inv b \<Longrightarrow> pc_inv {} (pc_new b)" "coherent F (pc_new b)"
  by (simp_all add: pc_inv_def pc_rep_def pc_new_def cached_def held_def coherent_def page_at_def)

text \<open>C27: reading a range of a file through a cache that agrees with the file returns a prefix of the range,
  all of it unless no physical frame is left. The cache keeps agreeing with every file, holds at most
  1024 pages, and loses no frame.\<close>

theorem cached_read_correct:
  assumes "pc_inv H pc" and "coherent F pc" and "F ino = Some c" and "serves c I loader" and "I s"
    and "length c < 2 ^ 64" and "unat off + length buf \<le> length c"
  shows "\<exists>w pc' s'. read_bytes ino off buf loader pc s = ret (w, take w (drop (unat off) c) @ drop w buf, pc', s') \<and>
     w \<le> length buf \<and> (w < length buf \<longrightarrow> free_space (pc_frames pc') = {}) \<and>
     pc_inv H pc' \<and> coherent F pc' \<and> I s' \<and> pool_space pc' = pool_space pc"
  using read_loop_ok [OF assms(1-5) assms(6,7), of off 0 buf] by (auto simp: read_bytes_def)

definition copy_loader :: "bytes \<Rightarrow> unit loader" where
  "copy_loader c off buf s =
     (let n = min 4096 (length c - unat off) in ret (n, take n (drop (unat off) c) @ drop n buf, s))"

lemma copy_loader_serves: "serves c (\<lambda>_. True) (copy_loader c)"
  by (simp add: serves_def copy_loader_def Let_def)

theorem cached_read_correct_witness:
  "\<exists>w pc' s'. read_bytes 7 1 [0, 0] (copy_loader [1, 2, 3]) (pc_new pmm_example) () =
       ret (w, take w (drop 1 [1, 2, 3]) @ drop w [0, 0], pc', s') \<and>
     w \<le> length [0, 0 :: u8] \<and> (w < length [0, 0 :: u8] \<longrightarrow> free_space (pc_frames pc') = {}) \<and>
     pc_inv {} pc' \<and> coherent [7 \<mapsto> [1, 2, 3]] pc' \<and> pool_space pc' = pool_space (pc_new pmm_example)"
  using cached_read_correct [of "{}" "pc_new pmm_example" "[7 \<mapsto> [1, 2, 3]]" 7 "[1, 2, 3]" "\<lambda>_. True"
      "copy_loader [1, 2, 3]" "()" 1 "[0, 0]"] pc_new_inv(1) [OF pmm_example_inv] pc_new_inv(2) copy_loader_serves [of "[1, 2, 3]"]
  by simp

end
