(* ===== verification/Vnodes.thy ===== *)
theory Vnodes
  imports Hot_Lock Users_Db Page_Cache Kring
begin

section \<open>File-system nodes and open files\<close>

text \<open>
  Models of \<^verbatim>\<open>kernel/src/vfs/ramfs.rs\<close>, \<^verbatim>\<open>devfs.rs\<close> and \<^verbatim>\<open>blockdev.rs\<close> under the traits of
  \<^verbatim>\<open>vfs/mod.rs\<close>. A shared node (\<^verbatim>\<open>Arc<dyn VfsNode>\<close>) is an index into the list of nodes, which only
  grows: a node is never freed here. The constructors of \<open>Node\<close> are the types that implement the
  trait; a method is one definition by cases over them, with the trait's default for the types
  that do not override it. The synthetic trees of procfs and sensorfs are not in it.

  Sound, windows, terminal, entropy and drives are behind the fields of \<open>Devices\<close>, functions on a
  state \<open>'w\<close> that the operations receive as an argument. \<open>fs_busy\<close> says whether a directory's lock
  is held by another processor when an operation tries it.
\<close>

datatype VfsError = NotFound | NotADirectory | NotAFile | PermissionDenied | Exists | InvalidArgument
  | Io | OutOfSpace | ReadOnly | TooManyOpenFiles | WouldBlock

type_synonym 'a vfs = "VfsError + 'a"

type_synonym node_ref = nat

record Stat =
  st_ino :: u64
  st_size :: u64
  st_is_dir :: bool
  st_nlink :: u32
  st_uid :: Uid
  st_gid :: Gid
  st_mode :: u16

record DirEntry =
  de_name :: string
  de_is_dir :: bool
  de_ino :: u64

datatype Node =
    SymlinkNode u64 string
  | RamFile u64 bytes Uid Gid u16
  | RamDir u64 "node_ref HotMap" Uid Gid u16
  | NullNode u64 | ZeroNode u64 | KmsgNode u64 | RandomNode u64 | ComposerNode u64
  | TtyNode u64 | PtmxNode u64 | DspNode u64 | PcmNode u64
  | SndDir u64 "node_ref HotMap"
  | DevDir u64 "node_ref HotMap"
  | AhciNode u64 nat u64
  | NvmeNode u64 nat u64

datatype FileHandle =
    RamFileHandle bytes nat u64 node_ref Uid Gid u16
  | NullHandle | ZeroHandle
  | KmsgHandle bytes nat u64
  | RandomHandle u64 | ComposerHandle u64 | TtyHandle u64 | PtmxHandle u64 | DspHandle u64 | PcmHandle u64
  | AhciHandle nat u64 u64
  | NvmeHandle nat u64 u64

record 'w Fs =
  fs_nodes :: "Node list"
  next_ino :: u64
  fs_mounts :: "(string \<times> node_ref) list"
  fs_root :: "node_ref option"
  devfs_root :: "node_ref option"
  fs_db :: UserDb
  fs_cache :: PageCache
  fs_ring :: KernelRing
  fs_busy :: bool
  fs_world :: 'w

record 'w Devices =
  d_entropy_fill :: "bytes \<Rightarrow> 'w \<Rightarrow> bytes \<times> 'w"
  d_entropy_stir :: "u64 \<Rightarrow> 'w \<Rightarrow> 'w"
  d_tty_read :: "bytes \<Rightarrow> 'w \<Rightarrow> (nat \<times> bytes) \<times> 'w"
  d_term_write :: "bytes \<Rightarrow> 'w \<Rightarrow> 'w"
  d_write_pcm :: "bytes \<Rightarrow> 'w \<Rightarrow> 'w"
  d_wm_create :: "u32 \<Rightarrow> u32 \<Rightarrow> u32 \<Rightarrow> u32 \<Rightarrow> bytes \<Rightarrow> 'w \<Rightarrow> 'w"
  d_wm_composite :: "'w \<Rightarrow> 'w"
  d_wm_destroy :: "u32 \<Rightarrow> 'w \<Rightarrow> 'w"
  d_wm_flip :: "u32 \<Rightarrow> 'w \<Rightarrow> 'w"
  d_wm_fill :: "u32 \<Rightarrow> u32 \<Rightarrow> u32 \<Rightarrow> u32 \<Rightarrow> u32 \<Rightarrow> u32 \<Rightarrow> 'w \<Rightarrow> 'w"
  d_ahci_read :: "nat \<Rightarrow> u64 \<Rightarrow> u16 \<Rightarrow> 'w \<Rightarrow> bytes option \<times> 'w"
  d_ahci_write :: "nat \<Rightarrow> u64 \<Rightarrow> bytes \<Rightarrow> 'w \<Rightarrow> bool \<times> 'w"
  d_nvme_read :: "nat \<Rightarrow> u64 \<Rightarrow> u16 \<Rightarrow> 'w \<Rightarrow> bytes option \<times> 'w"
  d_nvme_write :: "nat \<Rightarrow> u64 \<Rightarrow> bytes \<Rightarrow> 'w \<Rightarrow> bool \<times> 'w"
  d_notify :: "string \<Rightarrow> u32 \<Rightarrow> 'w \<Rightarrow> 'w"
  d_io_error :: "u64 \<Rightarrow> u64 \<Rightarrow> 'w \<Rightarrow> 'w"

definition alloc_ino :: "'w Fs \<Rightarrow> u64 \<times> 'w Fs" where
  "alloc_ino fs = (next_ino fs, fs\<lparr>next_ino := next_ino fs + 1\<rparr>)"

text \<open>\<^verbatim>\<open>Arc::new\<close> of a node, and the update of a node through its interior cells.\<close>

definition new_node :: "Node \<Rightarrow> 'w Fs \<Rightarrow> node_ref \<times> 'w Fs" where
  "new_node n fs = (length (fs_nodes fs), fs\<lparr>fs_nodes := fs_nodes fs @ [n]\<rparr>)"

definition set_node :: "node_ref \<Rightarrow> Node \<Rightarrow> 'w Fs \<Rightarrow> 'w Fs" where
  "set_node r n fs = fs\<lparr>fs_nodes := (fs_nodes fs)[r := n]\<rparr>"

abbreviation node :: "'w Fs \<Rightarrow> node_ref \<Rightarrow> Node" where
  "node fs r \<equiv> fs_nodes fs ! r"

definition cur_gid :: "'w Fs \<Rightarrow> Gid" where
  "cur_gid fs = (case get_user (current_uid (fs_db fs)) (fs_db fs) of Some u \<Rightarrow> u_gid u | None \<Rightarrow> 0)"

definition symlink_new :: "string \<Rightarrow> 'w Fs \<Rightarrow> node_ref \<times> 'w Fs" where
  "symlink_new target fs = (let (ino, fs1) = alloc_ino fs in new_node (SymlinkNode ino target) fs1)"

definition ram_file_new_with :: "bytes \<Rightarrow> 'w Fs \<Rightarrow> node_ref \<times> 'w Fs" where
  "ram_file_new_with content fs =
     (let (ino, fs1) = alloc_ino fs
      in new_node (RamFile ino content (current_uid (fs_db fs)) (cur_gid fs)
                     (0x1A4 AND NOT (db_umask (fs_db fs)))) fs1)"

definition ram_file_new :: "'w Fs \<Rightarrow> node_ref \<times> 'w Fs" where
  "ram_file_new fs =
     (let (ino, fs1) = alloc_ino fs
      in new_node (RamFile ino [] (current_uid (fs_db fs)) (cur_gid fs)
                     (0x1A4 AND NOT (db_umask (fs_db fs)))) fs1)"

definition ram_dir_new_root :: "'w Fs \<Rightarrow> node_ref \<times> 'w Fs" where
  "ram_dir_new_root fs = (let (ino, fs1) = alloc_ino fs in new_node (RamDir ino hot_new 0 0 0x1ED) fs1)"

definition ram_dir_new :: "'w Fs \<Rightarrow> node_ref \<times> 'w Fs" where
  "ram_dir_new fs =
     (let (ino, fs1) = alloc_ino fs
      in new_node (RamDir ino hot_new (current_uid (fs_db fs)) (cur_gid fs)
                     (0x1ED AND NOT (db_umask (fs_db fs)))) fs1)"

subsection \<open>Node methods\<close>

definition plain_stat :: "u64 \<Rightarrow> u16 \<Rightarrow> Stat" where
  "plain_stat ino m = \<lparr>st_ino = ino, st_size = 0, st_is_dir = False, st_nlink = 1, st_uid = 0, st_gid = 0, st_mode = m\<rparr>"

fun node_stat :: "Node \<Rightarrow> Stat" where
  "node_stat (SymlinkNode ino target) = (plain_stat ino 0xA1FF)\<lparr>st_size := of_nat (length target)\<rparr>"
| "node_stat (RamFile ino d uid gid m) =
     \<lparr>st_ino = ino, st_size = of_nat (length d), st_is_dir = False, st_nlink = 1, st_uid = uid, st_gid = gid, st_mode = m\<rparr>"
| "node_stat (RamDir ino ch uid gid m) =
     \<lparr>st_ino = ino, st_size = 0, st_is_dir = True, st_nlink = 2, st_uid = uid, st_gid = gid, st_mode = m\<rparr>"
| "node_stat (NullNode ino) = plain_stat ino 0x1B6"
| "node_stat (ZeroNode ino) = plain_stat ino 0x1B6"
| "node_stat (KmsgNode ino) = plain_stat ino 0x120"
| "node_stat (RandomNode ino) = plain_stat ino 0x1B6"
| "node_stat (ComposerNode ino) = plain_stat ino 0x1B6"
| "node_stat (TtyNode ino) = plain_stat ino 0x1B6"
| "node_stat (PtmxNode ino) = plain_stat ino 0x1B6"
| "node_stat (DspNode ino) = plain_stat ino 0x1B6"
| "node_stat (PcmNode ino) = plain_stat ino 0x1B0"
| "node_stat (SndDir ino ch) = (plain_stat ino 0x1ED)\<lparr>st_is_dir := True, st_nlink := 2\<rparr>"
| "node_stat (DevDir ino ch) = (plain_stat ino 0x1ED)\<lparr>st_is_dir := True, st_nlink := 2\<rparr>"
| "node_stat (AhciNode ino drive sz) = (plain_stat ino 0x1B0)\<lparr>st_size := sz\<rparr>"
| "node_stat (NvmeNode ino ctrl sz) = (plain_stat ino 0x1B0)\<lparr>st_size := sz\<rparr>"

text \<open>Opening \<^verbatim>\<open>/dev/kmsg\<close> formats the messages in the ring.\<close>

definition level_name :: "u8 \<Rightarrow> string" where
  "level_name lvl = (if unat lvl < 5 then [''TRACE'', ''DEBUG'', ''INFO '', ''WARN '', ''ERROR''] ! unat lvl
                     else ''?????'')"

definition kmsg_text :: "KernelRing \<Rightarrow> bytes" where
  "kmsg_text ring = concat (map (\<lambda>e. str_bytes (''['' @ level_name (level e) @ ''] '') @ as_bytes e @ [10])
     (kring_iter ring))"

fun node_open :: "node_ref \<Rightarrow> 'w Fs \<Rightarrow> Node \<Rightarrow> FileHandle vfs" where
  "node_open r fs (SymlinkNode ino target) = Inl InvalidArgument"
| "node_open r fs (RamFile ino d uid gid m) = Inr (RamFileHandle d 0 ino r uid gid m)"
| "node_open r fs (RamDir ino ch uid gid m) = Inl NotAFile"
| "node_open r fs (NullNode ino) = Inr NullHandle"
| "node_open r fs (ZeroNode ino) = Inr ZeroHandle"
| "node_open r fs (KmsgNode ino) = Inr (KmsgHandle (kmsg_text (fs_ring fs)) 0 ino)"
| "node_open r fs (RandomNode ino) = Inr (RandomHandle ino)"
| "node_open r fs (ComposerNode ino) = Inr (ComposerHandle ino)"
| "node_open r fs (TtyNode ino) = Inr (TtyHandle ino)"
| "node_open r fs (PtmxNode ino) = Inr (PtmxHandle ino)"
| "node_open r fs (DspNode ino) = Inr (DspHandle ino)"
| "node_open r fs (PcmNode ino) = Inr (PcmHandle ino)"
| "node_open r fs (SndDir ino ch) = Inl NotAFile"
| "node_open r fs (DevDir ino ch) = Inl NotAFile"
| "node_open r fs (AhciNode ino drive sz) = Inr (AhciHandle drive 0 sz)"
| "node_open r fs (NvmeNode ino ctrl sz) = Inr (NvmeHandle ctrl 0 sz)"

text \<open>The map of a directory node, and a node with another map.\<close>

fun children :: "Node \<Rightarrow> node_ref HotMap option" where
  "children (RamDir ino ch uid gid m) = Some ch"
| "children (SndDir ino ch) = Some ch"
| "children (DevDir ino ch) = Some ch"
| "children _ = None"

fun with_children :: "node_ref HotMap \<Rightarrow> Node \<Rightarrow> Node" where
  "with_children ch (RamDir ino _ uid gid m) = RamDir ino ch uid gid m"
| "with_children ch (SndDir ino _) = SndDir ino ch"
| "with_children ch (DevDir ino _) = DevDir ino ch"
| "with_children ch n = n"

fun is_block :: "Node \<Rightarrow> bool" where
  "is_block (AhciNode _ _ _) = True"
| "is_block (NvmeNode _ _ _) = True"
| "is_block _ = False"

definition node_readdir :: "node_ref \<Rightarrow> 'w Fs \<Rightarrow> DirEntry list vfs" where
  "node_readdir r fs =
     (case children (node fs r) of
        Some ch \<Rightarrow> Inr (map (\<lambda>(name, c). \<lparr>de_name = name, de_is_dir = st_is_dir (node_stat (node fs c)),
                                       de_ino = st_ino (node_stat (node fs c))\<rparr>) (snapshot ch))
      | None \<Rightarrow> if is_block (node fs r) then Inl NotFound else Inl NotADirectory)"

definition node_lookup :: "node_ref \<Rightarrow> string \<Rightarrow> 'w Fs \<Rightarrow> node_ref vfs \<times> 'w Fs" where
  "node_lookup r name fs =
     (case children (node fs r) of
        Some ch \<Rightarrow>
          (let (v, ch1) = hot_get (fs_busy fs) name ch;
               fs1 = set_node r (with_children ch1 (node fs r)) fs
           in case v of Some c \<Rightarrow> (Inr c, fs1) | None \<Rightarrow> (Inl NotFound, fs1))
      | None \<Rightarrow> if is_block (node fs r) then (Inl NotFound, fs) else (Inl NotADirectory, fs))"

text \<open>The three creating methods of \<^verbatim>\<open>RamDir\<close>: refuse an existing name, make the node, insert it.\<close>

definition ram_dir_add ::
  "node_ref \<Rightarrow> string \<Rightarrow> ('w Fs \<Rightarrow> node_ref \<times> 'w Fs) \<Rightarrow> node_ref HotMap \<Rightarrow> 'w Fs \<Rightarrow> node_ref vfs \<times> 'w Fs" where
  "ram_dir_add r name mk ch fs =
     (let (v, ch1) = hot_get (fs_busy fs) name ch;
          fs1 = set_node r (with_children ch1 (node fs r)) fs
      in case v of
           Some _ \<Rightarrow> (Inl Exists, fs1)
         | None \<Rightarrow> (let (c, fs2) = mk fs1
                    in (Inr c, set_node r (with_children (hot_insert (fs_busy fs2) name c ch1) (node fs2 r)) fs2)))"

text \<open>The error of a node that is no \<^verbatim>\<open>RamDir\<close>, for the methods that change a directory.\<close>

fun dir_error :: "Node \<Rightarrow> VfsError" where
  "dir_error (SndDir _ _) = ReadOnly"
| "dir_error (DevDir _ _) = ReadOnly"
| "dir_error (AhciNode _ _ _) = ReadOnly"
| "dir_error (NvmeNode _ _ _) = ReadOnly"
| "dir_error _ = NotADirectory"

definition node_create_file :: "node_ref \<Rightarrow> string \<Rightarrow> 'w Fs \<Rightarrow> node_ref vfs \<times> 'w Fs" where
  "node_create_file r name fs =
     (case node fs r of RamDir _ ch _ _ _ \<Rightarrow> ram_dir_add r name ram_file_new ch fs
      | n \<Rightarrow> (Inl (dir_error n), fs))"

definition node_mkdir :: "node_ref \<Rightarrow> string \<Rightarrow> 'w Fs \<Rightarrow> node_ref vfs \<times> 'w Fs" where
  "node_mkdir r name fs =
     (case node fs r of RamDir _ ch _ _ _ \<Rightarrow> ram_dir_add r name ram_dir_new ch fs
      | n \<Rightarrow> (Inl (dir_error n), fs))"

definition node_create_symlink :: "node_ref \<Rightarrow> string \<Rightarrow> string \<Rightarrow> 'w Fs \<Rightarrow> node_ref vfs \<times> 'w Fs" where
  "node_create_symlink r name target fs =
     (case node fs r of RamDir _ ch _ _ _ \<Rightarrow> ram_dir_add r name (symlink_new target) ch fs
      | _ \<Rightarrow> (Inl InvalidArgument, fs))"

definition node_unlink :: "node_ref \<Rightarrow> string \<Rightarrow> 'w Fs \<Rightarrow> unit vfs \<times> 'w Fs" where
  "node_unlink r name fs =
     (case node fs r of
        RamDir _ ch _ _ _ \<Rightarrow>
          (let (v, ch1) = hot_remove (fs_busy fs) name ch;
               fs1 = set_node r (with_children ch1 (node fs r)) fs
           in case v of Some _ \<Rightarrow> (Inr (), fs1) | None \<Rightarrow> (Inl NotFound, fs1))
      | n \<Rightarrow> (Inl (dir_error n), fs))"

definition node_set_mode :: "node_ref \<Rightarrow> u16 \<Rightarrow> 'w Fs \<Rightarrow> unit vfs \<times> 'w Fs" where
  "node_set_mode r m fs =
     (case node fs r of
        RamFile ino d uid gid _ \<Rightarrow> (Inr (), set_node r (RamFile ino d uid gid m) fs)
      | RamDir ino ch uid gid _ \<Rightarrow> (Inr (), set_node r (RamDir ino ch uid gid m) fs)
      | _ \<Rightarrow> (Inl ReadOnly, fs))"

definition node_set_owner :: "node_ref \<Rightarrow> Uid \<Rightarrow> Gid \<Rightarrow> 'w Fs \<Rightarrow> unit vfs \<times> 'w Fs" where
  "node_set_owner r uid gid fs =
     (case node fs r of
        RamFile ino d _ _ m \<Rightarrow> (Inr (), set_node r (RamFile ino d uid gid m) fs)
      | RamDir ino ch _ _ m \<Rightarrow> (Inr (), set_node r (RamDir ino ch uid gid m) fs)
      | _ \<Rightarrow> (Inl ReadOnly, fs))"

fun node_readlink :: "Node \<Rightarrow> string option" where
  "node_readlink (SymlinkNode ino target) = Some target"
| "node_readlink _ = None"

text \<open>
  \<^verbatim>\<open>link_child\<close> of the trait: no implementation overrides the default. The method of the same name
  of \<^verbatim>\<open>RamDir\<close> is an inherent one, which a call through the trait object does not reach.
\<close>

definition node_link_child :: "node_ref \<Rightarrow> string \<Rightarrow> node_ref \<Rightarrow> 'w Fs \<Rightarrow> unit vfs \<times> 'w Fs" where
  "node_link_child r name c fs = (Inl InvalidArgument, fs)"

definition ram_dir_link_child :: "node_ref \<Rightarrow> string \<Rightarrow> node_ref \<Rightarrow> node_ref HotMap \<Rightarrow> 'w Fs \<Rightarrow> unit vfs \<times> 'w Fs" where
  "ram_dir_link_child r name c ch fs =
     (case ram_dir_add r name (\<lambda>fs. (c, fs)) ch fs of (Inr _, fs1) \<Rightarrow> (Inr (), fs1) | (Inl e, fs1) \<Rightarrow> (Inl e, fs1))"

subsection \<open>Handle methods\<close>

abbreviation (input) SECTOR_SIZE :: nat where "SECTOR_SIZE \<equiv> 512"

text \<open>The read of the two handles that hold a copy of the contents. The source slice starts at the position
  even when nothing is left, so a position past the end is a panic.\<close>

definition slice_read :: "bytes \<Rightarrow> nat \<Rightarrow> bytes \<Rightarrow> (nat \<times> bytes \<times> nat) rust" where
  "slice_read d pos bs =
     (let avail = length d - pos; n = min (length bs) avail
      in if length d < pos then Inl SliceOutOfRange
         else Inr (n, take n (drop pos d) @ drop n bs, pos + n))"

text \<open>The write of \<^verbatim>\<open>RamFileHandle\<close>: a growing vector panics above \<^verbatim>\<open>isize::MAX\<close>, and the end of the slice
  wraps like every \<^verbatim>\<open>usize\<close>.\<close>

definition ram_write :: "bytes \<Rightarrow> nat \<Rightarrow> bytes \<Rightarrow> (bytes \<times> nat) rust" where
  "ram_write d pos bs =
     (let end_pos = (pos + length bs) mod 2 ^ 64
      in if length d < end_pos \<and> 2 ^ 63 \<le> end_pos then Inl ArithmeticOverflow
         else let d1 = (if length d < end_pos then d @ replicate (end_pos - length d) 0 else d)
              in if end_pos < pos then Inl SliceOutOfRange
                 else Inr (copy_at pos bs d1, end_pos))"

text \<open>UTF-8 as \<^verbatim>\<open>core::str::from_utf8\<close> accepts it: the shortest form of a scalar value.\<close>

definition cont :: "u8 \<Rightarrow> bool" where
  "cont b \<longleftrightarrow> 0x80 \<le> b \<and> b \<le> 0xBF"

fun valid_utf8 :: "bytes \<Rightarrow> bool" where
  "valid_utf8 [] = True"
| "valid_utf8 (a # r) =
     (if a < 0x80 then valid_utf8 r
      else if 0xC2 \<le> a \<and> a \<le> 0xDF then (case r of b # r1 \<Rightarrow> cont b \<and> valid_utf8 r1 | [] \<Rightarrow> False)
      else if 0xE0 \<le> a \<and> a \<le> 0xEF then
        (case r of b # c # r1 \<Rightarrow>
           (if a = 0xE0 then 0xA0 \<le> b \<and> b \<le> 0xBF else if a = 0xED then 0x80 \<le> b \<and> b \<le> 0x9F else cont b) \<and>
           cont c \<and> valid_utf8 r1
         | _ \<Rightarrow> False)
      else if 0xF0 \<le> a \<and> a \<le> 0xF4 then
        (case r of b # c # d # r1 \<Rightarrow>
           (if a = 0xF0 then 0x90 \<le> b \<and> b \<le> 0xBF else if a = 0xF4 then 0x80 \<le> b \<and> b \<le> 0x8F else cont b) \<and>
           cont c \<and> cont d \<and> valid_utf8 r1
         | _ \<Rightarrow> False)
      else False)"

definition le32_at :: "bytes \<Rightarrow> nat \<Rightarrow> u32" where
  "le32_at bs i = from_le (take 4 (drop i bs))"

definition composer_dispatch :: "'w Devices \<Rightarrow> bytes \<Rightarrow> 'w \<Rightarrow> 'w" where
  "composer_dispatch dev bs w =
     (if length bs < 8 then w
      else let cmd = le32_at bs 0; wid = le32_at bs 4; payload = drop 8 bs
      in if cmd = 1 then
           (if length payload < 20 then w
            else let tl = unat (le32_at payload 16);
                     title = (if 20 + tl \<le> length payload
                              then if valid_utf8 (take tl (drop 20 payload)) then take tl (drop 20 payload)
                                   else str_bytes ''window''
                              else str_bytes ''window'')
                 in d_wm_composite dev
                      (d_wm_create dev (le32_at payload 0) (le32_at payload 4) (le32_at payload 8)
                         (le32_at payload 12) title w))
         else if cmd = 2 then d_wm_destroy dev wid w
         else if cmd = 3 then d_wm_flip dev wid w
         else if cmd = 4 then
           (if length payload < 20 then w
            else d_wm_fill dev wid (le32_at payload 0) (le32_at payload 4) (le32_at payload 8)
                   (le32_at payload 12) (le32_at payload 16) w)
         else w)"

definition ahci_read :: "'w Devices \<Rightarrow> nat \<Rightarrow> u64 \<Rightarrow> u64 \<Rightarrow> bytes \<Rightarrow> 'w \<Rightarrow> (nat vfs \<times> bytes \<times> u64 \<times> 'w) rust" where
  "ahci_read dev drive off sz bs w =
     (if sz \<le> off then Inr (Inr 0, bs, off, w)
      else let to_read = min (length bs) (unat (sz - off));
               lba = off div of_nat SECTOR_SIZE;
               start = unat (off mod of_nat SECTOR_SIZE);
               sectors = of_nat ((start + to_read + SECTOR_SIZE - 1) div SECTOR_SIZE)
           in case d_ahci_read dev drive lba sectors w of
                (Some d, w1) \<Rightarrow>
                  (let end_pos = min (start + to_read) (length d)
                   in if end_pos < start then Inl SliceOutOfRange
                      else let n = end_pos - start
                           in Inr (Inr n, take n (drop start d) @ drop n bs, off + of_nat n, w1))
              | (None, w1) \<Rightarrow> Inr (Inl Io, bs, off, w1))"

definition sector_buf :: "bytes \<Rightarrow> bytes" where
  "sector_buf bs = bs @ replicate ((length bs + SECTOR_SIZE - 1) div SECTOR_SIZE * SECTOR_SIZE - length bs) 0"

definition ahci_write :: "'w Devices \<Rightarrow> nat \<Rightarrow> u64 \<Rightarrow> u64 \<Rightarrow> bytes \<Rightarrow> 'w \<Rightarrow> nat vfs \<times> u64 \<times> 'w" where
  "ahci_write dev drive off sz bs w =
     (if sz \<le> off then (Inl Io, off, w)
      else let lba = off div of_nat SECTOR_SIZE
           in case d_ahci_write dev drive lba (sector_buf bs) w of
                (True, w1) \<Rightarrow> (Inr (length bs), off + of_nat (length bs), w1)
              | (False, w1) \<Rightarrow> (Inl Io, off, w1))"

definition nvme_read :: "'w Devices \<Rightarrow> nat \<Rightarrow> u64 \<Rightarrow> u64 \<Rightarrow> bytes \<Rightarrow> 'w \<Rightarrow> (nat vfs \<times> bytes \<times> u64 \<times> 'w) rust" where
  "nvme_read dev ctrl off sz bs w =
     (if sz \<le> off then Inr (Inr 0, bs, off, w)
      else let to_read = min (length bs) (unat (sz - off));
               lba = off div 512;
               sectors = of_nat ((to_read + 511) div 512)
           in case d_nvme_read dev ctrl lba sectors w of
                (Some d, w1) \<Rightarrow>
                  (let start = unat (off mod 512)
                   in if length d < start then Inl SliceOutOfRange
                      else let n = min (length d - start) to_read
                           in Inr (Inr n, take n (drop start d) @ drop n bs, off + of_nat n, w1))
              | (None, w1) \<Rightarrow> Inr (Inl Io, bs, off, w1))"

definition nvme_write :: "'w Devices \<Rightarrow> nat \<Rightarrow> u64 \<Rightarrow> bytes \<Rightarrow> 'w \<Rightarrow> nat vfs \<times> u64 \<times> 'w" where
  "nvme_write dev ctrl off bs w =
     (let lba = off div 512
      in case d_nvme_write dev ctrl lba (sector_buf bs) w of
           (True, w1) \<Rightarrow> (Inr (length bs), off + of_nat (length bs), w1)
         | (False, w1) \<Rightarrow> (Inl Io, off, w1))"

fun handle_read :: "'w Devices \<Rightarrow> bytes \<Rightarrow> FileHandle \<Rightarrow> 'w Fs \<Rightarrow> (nat vfs \<times> bytes \<times> FileHandle \<times> 'w Fs) rust" where
  "handle_read dev bs (RamFileHandle d pos ino back uid gid m) fs =
     map_sum id (\<lambda>(n, bs1, pos1). (Inr n, bs1, RamFileHandle d pos1 ino back uid gid m, fs)) (slice_read d pos bs)"
| "handle_read dev bs NullHandle fs = Inr (Inr 0, bs, NullHandle, fs)"
| "handle_read dev bs ZeroHandle fs = Inr (Inr (length bs), replicate (length bs) 0, ZeroHandle, fs)"
| "handle_read dev bs (KmsgHandle d pos ino) fs =
     map_sum id (\<lambda>(n, bs1, pos1). (Inr n, bs1, KmsgHandle d pos1 ino, fs)) (slice_read d pos bs)"
| "handle_read dev bs (RandomHandle ino) fs =
     (let (bs1, w) = d_entropy_fill dev bs (fs_world fs)
      in Inr (Inr (length bs), bs1, RandomHandle ino, fs\<lparr>fs_world := w\<rparr>))"
| "handle_read dev bs (ComposerHandle ino) fs = Inr (Inr 0, bs, ComposerHandle ino, fs)"
| "handle_read dev bs (TtyHandle ino) fs =
     (let ((n, bs1), w) = d_tty_read dev bs (fs_world fs) in Inr (Inr n, bs1, TtyHandle ino, fs\<lparr>fs_world := w\<rparr>))"
| "handle_read dev bs (PtmxHandle ino) fs =
     (let ((n, bs1), w) = d_tty_read dev bs (fs_world fs) in Inr (Inr n, bs1, PtmxHandle ino, fs\<lparr>fs_world := w\<rparr>))"
| "handle_read dev bs (DspHandle ino) fs = Inr (Inr 0, bs, DspHandle ino, fs)"
| "handle_read dev bs (PcmHandle ino) fs = Inr (Inr 0, bs, PcmHandle ino, fs)"
| "handle_read dev bs (AhciHandle drive off sz) fs =
     map_sum id (\<lambda>(r, bs1, off1, w). (r, bs1, AhciHandle drive off1 sz, fs\<lparr>fs_world := w\<rparr>))
       (ahci_read dev drive off sz bs (fs_world fs))"
| "handle_read dev bs (NvmeHandle ctrl off sz) fs =
     map_sum id (\<lambda>(r, bs1, off1, w). (r, bs1, NvmeHandle ctrl off1 sz, fs\<lparr>fs_world := w\<rparr>))
       (nvme_read dev ctrl off sz bs (fs_world fs))"

text \<open>Writing to \<^verbatim>\<open>/dev/random\<close> stirs in the first eight bytes.\<close>

definition entropy_word :: "bytes \<Rightarrow> u64" where
  "entropy_word bs = fold (\<lambda>b val. push_bit 8 val OR ucast b) (take 8 bs) 0"

fun handle_write :: "'w Devices \<Rightarrow> bytes \<Rightarrow> FileHandle \<Rightarrow> 'w Fs \<Rightarrow> (nat vfs \<times> FileHandle \<times> 'w Fs) rust" where
  "handle_write dev bs (RamFileHandle d pos ino back uid gid m) fs =
     map_sum id (\<lambda>(d1, pos1). (Inr (length bs), RamFileHandle d1 pos1 ino back uid gid m, fs)) (ram_write d pos bs)"
| "handle_write dev bs NullHandle fs = Inr (Inr (length bs), NullHandle, fs)"
| "handle_write dev bs ZeroHandle fs = Inr (Inr (length bs), ZeroHandle, fs)"
| "handle_write dev bs (KmsgHandle d pos ino) fs = Inr (Inl ReadOnly, KmsgHandle d pos ino, fs)"
| "handle_write dev bs (RandomHandle ino) fs =
     Inr (Inr (length bs), RandomHandle ino, fs\<lparr>fs_world := d_entropy_stir dev (entropy_word bs) (fs_world fs)\<rparr>)"
| "handle_write dev bs (ComposerHandle ino) fs =
     Inr (Inr (length bs), ComposerHandle ino, fs\<lparr>fs_world := composer_dispatch dev bs (fs_world fs)\<rparr>)"
| "handle_write dev bs (TtyHandle ino) fs =
     Inr (Inr (length bs), TtyHandle ino, fs\<lparr>fs_world := d_term_write dev bs (fs_world fs)\<rparr>)"
| "handle_write dev bs (PtmxHandle ino) fs =
     Inr (Inr (length bs), PtmxHandle ino, fs\<lparr>fs_world := d_term_write dev bs (fs_world fs)\<rparr>)"
| "handle_write dev bs (DspHandle ino) fs =
     Inr (Inr (length bs), DspHandle ino, fs\<lparr>fs_world := d_write_pcm dev bs (fs_world fs)\<rparr>)"
| "handle_write dev bs (PcmHandle ino) fs =
     Inr (Inr (length bs), PcmHandle ino, fs\<lparr>fs_world := d_write_pcm dev bs (fs_world fs)\<rparr>)"
| "handle_write dev bs (AhciHandle drive off sz) fs =
     (let (r, off1, w) = ahci_write dev drive off sz bs (fs_world fs)
      in Inr (r, AhciHandle drive off1 sz, fs\<lparr>fs_world := w\<rparr>))"
| "handle_write dev bs (NvmeHandle ctrl off sz) fs =
     (let (r, off1, w) = nvme_write dev ctrl off bs (fs_world fs)
      in Inr (r, NvmeHandle ctrl off1 sz, fs\<lparr>fs_world := w\<rparr>))"

fun handle_seek :: "u64 \<Rightarrow> FileHandle \<Rightarrow> u64 vfs \<times> FileHandle" where
  "handle_seek p (RamFileHandle d _ ino back uid gid m) = (Inr p, RamFileHandle d (unat p) ino back uid gid m)"
| "handle_seek p (KmsgHandle d _ ino) = (Inr p, KmsgHandle d (unat p) ino)"
| "handle_seek p (AhciHandle drive _ sz) = (Inr (min p sz), AhciHandle drive (min p sz) sz)"
| "handle_seek p (NvmeHandle ctrl _ sz) = (Inr (min p sz), NvmeHandle ctrl (min p sz) sz)"
| "handle_seek p NullHandle = (Inr p, NullHandle)"
| "handle_seek p ZeroHandle = (Inr p, ZeroHandle)"
| "handle_seek p (ComposerHandle ino) = (Inr p, ComposerHandle ino)"
| "handle_seek p h = (Inr 0, h)"

fun handle_stat :: "FileHandle \<Rightarrow> Stat" where
  "handle_stat (RamFileHandle d pos ino back uid gid m) =
     \<lparr>st_ino = ino, st_size = of_nat (length d), st_is_dir = False, st_nlink = 1, st_uid = uid, st_gid = gid, st_mode = m\<rparr>"
| "handle_stat NullHandle = plain_stat 1 0x1B6"
| "handle_stat ZeroHandle = plain_stat 2 0x1B6"
| "handle_stat (KmsgHandle d pos ino) = (plain_stat ino 0x120)\<lparr>st_size := of_nat (length d)\<rparr>"
| "handle_stat (RandomHandle ino) = plain_stat ino 0x1B6"
| "handle_stat (ComposerHandle ino) = plain_stat ino 0x1B6"
| "handle_stat (TtyHandle ino) = plain_stat ino 0x1B6"
| "handle_stat (PtmxHandle ino) = plain_stat ino 0x1B6"
| "handle_stat (DspHandle ino) = plain_stat ino 0x1B6"
| "handle_stat (PcmHandle ino) = plain_stat ino 0x1B0"
| "handle_stat (AhciHandle drive off sz) = (plain_stat 0 0x1B0)\<lparr>st_size := sz\<rparr>"
| "handle_stat (NvmeHandle ctrl off sz) = (plain_stat 0 0x1B0)\<lparr>st_size := sz\<rparr>"

text \<open>\<^verbatim>\<open>flush\<close>: only the handle of a RAM file overrides it, and stores its copy back. The cell behind the handle
  is that of the file it was opened from.\<close>

fun set_file_data :: "bytes \<Rightarrow> Node \<Rightarrow> Node" where
  "set_file_data d (RamFile ino _ uid gid m) = RamFile ino d uid gid m"
| "set_file_data d n = n"

fun handle_flush :: "FileHandle \<Rightarrow> 'w Fs \<Rightarrow> 'w Fs" where
  "handle_flush (RamFileHandle d pos ino back uid gid m) fs = set_node back (set_file_data d (node fs back)) fs"
| "handle_flush _ fs = fs"

fun handle_truncate :: "u64 \<Rightarrow> FileHandle \<Rightarrow> FileHandle" where
  "handle_truncate n (RamFileHandle d pos ino back uid gid m) =
     (let d1 = take (unat n) d in RamFileHandle d1 (min pos (length d1)) ino back uid gid m)"
| "handle_truncate _ h = h"

fun handle_bytes_available :: "FileHandle \<Rightarrow> nat" where
  "handle_bytes_available (RamFileHandle d pos ino back uid gid m) = length d - pos"
| "handle_bytes_available (RandomHandle ino) = 2 ^ 64 - 1"
| "handle_bytes_available _ = 0"

fun handle_clone_box :: "FileHandle \<Rightarrow> FileHandle option" where
  "handle_clone_box (RandomHandle ino) = Some (RandomHandle ino)"
| "handle_clone_box _ = None"

end
