(* ===== verification/Vfs.thy ===== *)
theory Vfs
  imports Vnodes
begin

section \<open>The virtual file system\<close>

text \<open>
  Model of \<^verbatim>\<open>kernel/src/vfs/mod.rs\<close> and \<^verbatim>\<open>vfs/path.rs\<close>: the mount table, path resolution, permission
  checks and whole-file operations, with the construction of the device tree (\<^verbatim>\<open>devfs.rs\<close>,
  \<^verbatim>\<open>blockdev.rs\<close>) and the write-back half of \<^verbatim>\<open>page_cache.rs\<close>. Log messages have no counterpart.
  The loop that reads a file of size 0 until its end may run forever (\<^verbatim>\<open>/dev/zero\<close>); it is a
  partial function whose \<open>None\<close> is not returning.
\<close>

subsection \<open>The device tree\<close>

definition dev_entry :: "string \<Rightarrow> (u64 \<Rightarrow> Node) \<Rightarrow> node_ref HotMap \<times> 'w Fs \<Rightarrow> node_ref HotMap \<times> 'w Fs" where
  "dev_entry name mk s =
     (let (ch, fs) = s; (ino, fs1) = alloc_ino fs; (r, fs2) = new_node (mk ino) fs1
      in (hot_insert False name r ch, fs2))"

definition snd_dir_new :: "'w Fs \<Rightarrow> node_ref \<times> 'w Fs" where
  "snd_dir_new fs =
     (let (ch, fs1) = dev_entry ''pcmC0D0p'' PcmNode (hot_new, fs); (ino, fs2) = alloc_ino fs1
      in new_node (SndDir ino ch) fs2)"

definition dev_dir_new :: "'w Fs \<Rightarrow> Node \<times> 'w Fs" where
  "dev_dir_new fs =
     (let (ino, fs1) = alloc_ino fs;
          (ch, fs2) = fold (\<lambda>(name, mk). dev_entry name mk)
             [(''null'', NullNode), (''zero'', ZeroNode), (''kmsg'', KmsgNode), (''random'', RandomNode),
              (''urandom'', RandomNode), (''composer'', ComposerNode), (''tty'', TtyNode), (''ptmx'', PtmxNode),
              (''dsp'', DspNode)] (hot_new, fs1);
          (snd_ref, fs3) = snd_dir_new fs2
      in (DevDir ino (hot_insert False ''snd'' snd_ref ch), fs3))"

definition dev_dir_root :: "'w Fs \<Rightarrow> node_ref \<times> 'w Fs" where
  "dev_dir_root fs =
     (let (n, fs1) = dev_dir_new fs; (r, fs2) = new_node n fs1
      in (r, case devfs_root fs2 of None \<Rightarrow> fs2\<lparr>devfs_root := Some r\<rparr> | Some _ \<Rightarrow> fs2))"

definition register_node :: "string \<Rightarrow> node_ref \<Rightarrow> 'w Fs \<Rightarrow> 'w Fs" where
  "register_node name r fs =
     (case devfs_root fs of
        Some root \<Rightarrow>
          (case children (node fs root) of
             Some ch \<Rightarrow> set_node root (with_children (hot_insert (fs_busy fs) name r ch) (node fs root)) fs
           | None \<Rightarrow> fs)
      | None \<Rightarrow> fs)"

definition ahci_node_new :: "nat \<Rightarrow> u64 \<Rightarrow> 'w Fs \<Rightarrow> node_ref \<times> 'w Fs" where
  "ahci_node_new drive sector_count fs =
     (let (ino, fs1) = alloc_ino fs in new_node (AhciNode ino drive (sector_count * of_nat SECTOR_SIZE)) fs1)"

definition nvme_node_new :: "nat \<Rightarrow> u64 \<Rightarrow> 'w Fs \<Rightarrow> node_ref \<times> 'w Fs" where
  "nvme_node_new ctrl lba_count fs =
     (let (ino, fs1) = alloc_ino fs in new_node (NvmeNode ino ctrl (lba_count * 512)) fs1)"

definition register_block_devices :: "nat \<Rightarrow> nat \<Rightarrow> 'w Fs \<Rightarrow> 'w Fs" where
  "register_block_devices ahci_count nvme_count fs =
     (let fs1 = fold (\<lambda>i fs. let (r, fs') = ahci_node_new i (64 * 1024 * 1024 * 1024 div of_nat SECTOR_SIZE) fs
                             in register_node (''sd'' @ [char_of (97 + i)]) r fs') [0..<min ahci_count 26] fs
      in fold (\<lambda>i fs. let (r, fs') = nvme_node_new i (64 * 1024 * 1024 * 1024 div 512) fs
                      in register_node (''nvme'' @ show_dec (int i)) r fs') [0..<nvme_count] fs1)"

subsection \<open>Mounts and paths\<close>

definition mount :: "string \<Rightarrow> node_ref \<Rightarrow> 'w Fs \<Rightarrow> 'w Fs" where
  "mount mountpoint root fs = fs\<lparr>fs_mounts := fs_mounts fs @ [(mountpoint, root)]\<rparr>"

fun walk_components :: "string list \<Rightarrow> node_ref \<Rightarrow> 'w Fs \<Rightarrow> node_ref vfs \<times> 'w Fs" where
  "walk_components [] r fs = (Inr r, fs)"
| "walk_components (c # rest) r fs =
     (if c = ''.'' \<or> c = ''..'' then walk_components rest r fs
      else case node_lookup r c fs of
             (Inr r1, fs1) \<Rightarrow> walk_components rest r1 fs1
           | (Inl e, fs1) \<Rightarrow> (Inl e, fs1))"

definition walk :: "node_ref \<Rightarrow> string \<Rightarrow> 'w Fs \<Rightarrow> node_ref vfs \<times> 'w Fs" where
  "walk r path fs = walk_components (filter (\<lambda>s. s \<noteq> []) (split_char (CHR ''/'') path)) r fs"

text \<open>The last of the longest mount points that are prefixes of the path.\<close>

definition best_mount :: "string \<Rightarrow> (string \<times> node_ref) list \<Rightarrow> (string \<times> node_ref) option" where
  "best_mount path ms =
     snd (fold (\<lambda>m (best_len, best). if starts_with path (fst m) \<and> best_len \<le> length (fst m)
                                    then (length (fst m), Some m) else (best_len, best)) ms (0, None))"

definition resolve :: "string \<Rightarrow> 'w Fs \<Rightarrow> node_ref vfs \<times> 'w Fs" where
  "resolve path fs =
     (case best_mount path (fs_mounts fs) of
        Some (mp, root) \<Rightarrow> walk root (drop (length mp) path) fs
      | None \<Rightarrow> (Inl NotFound, fs))"

definition vfs_lookup :: "string \<Rightarrow> 'w Fs \<Rightarrow> node_ref vfs \<times> 'w Fs" where
  "vfs_lookup path fs = resolve path fs"

definition trim_end :: "char \<Rightarrow> string \<Rightarrow> string" where
  "trim_end c s = rev (dropWhile (\<lambda>x. x = c) (rev s))"

definition split_parent :: "string \<Rightarrow> string \<times> string" where
  "split_parent path0 =
     (let path = trim_end (CHR ''/'') path0
      in case rfind_char (CHR ''/'') path of
           Some pos \<Rightarrow> (if pos = 0 then ''/'' else take pos path, drop (pos + 1) path)
         | None \<Rightarrow> (''/'', path))"

text \<open>The split that the whole-file operations do themselves.\<close>

definition parent_and_name :: "string \<Rightarrow> string \<times> string" where
  "parent_and_name path =
     (case rfind_char (CHR ''/'') path of
        Some pos \<Rightarrow> (take (max pos 1) path, drop (pos + 1) path)
      | None \<Rightarrow> (''/'', path))"

definition vfs_init :: "nat \<Rightarrow> nat \<Rightarrow> 'w Fs \<Rightarrow> 'w Fs rust" where
  "vfs_init ahci_count nvme_count fs =
     (let (root, fs1) = ram_dir_new_root fs;
          fs2 = snd (node_mkdir root ''dev'' fs1);
          fs3 = snd (node_mkdir root ''proc'' fs2);
          fs4 = snd (node_mkdir root ''sys'' fs3);
          fs5 = snd (node_mkdir root ''ai'' fs4);
          fs6 = fs5\<lparr>fs_root := Some root\<rparr>
      in case node_lookup root ''dev'' fs6 of
           (Inl _, _) \<Rightarrow> Inl ExpectFailed
         | (Inr _, fs7) \<Rightarrow>
             (let (dev, fs8) = dev_dir_root fs7
              in Inr (register_block_devices ahci_count nvme_count (mount ''/'' root (mount ''/dev'' dev fs8)))))"

subsection \<open>Permission checks\<close>

definition check_perm :: "node_ref \<Rightarrow> u8 \<Rightarrow> 'w Fs \<Rightarrow> unit vfs" where
  "check_perm r want fs =
     (let uid = current_uid (fs_db fs)
      in if uid = 0 then Inr ()
      else let st = node_stat (node fs r);
               m = st_mode st;
               gid = (case get_user uid (fs_db fs) of Some u \<Rightarrow> u_gid u | None \<Rightarrow> - 1);
               perm_bits = (if uid = st_uid st then drop_bit 6 m AND 7
                            else if gid = st_gid st then drop_bit 3 m AND 7
                            else m AND 7)
           in if ucast perm_bits AND want = want then Inr () else Inl PermissionDenied)"

definition checked_open :: "node_ref \<Rightarrow> bool \<Rightarrow> 'w Fs \<Rightarrow> FileHandle vfs" where
  "checked_open r for_write fs =
     (case check_perm r (if for_write then 6 else 4) fs of
        Inl e \<Rightarrow> Inl e | Inr _ \<Rightarrow> node_open r fs (node fs r))"

definition checked_readdir :: "node_ref \<Rightarrow> 'w Fs \<Rightarrow> DirEntry list vfs" where
  "checked_readdir r fs = (case check_perm r 5 fs of Inl e \<Rightarrow> Inl e | Inr _ \<Rightarrow> node_readdir r fs)"

definition checked_create_file :: "node_ref \<Rightarrow> string \<Rightarrow> 'w Fs \<Rightarrow> node_ref vfs \<times> 'w Fs" where
  "checked_create_file r name fs = (case check_perm r 3 fs of Inl e \<Rightarrow> (Inl e, fs) | Inr _ \<Rightarrow> node_create_file r name fs)"

definition checked_mkdir :: "node_ref \<Rightarrow> string \<Rightarrow> 'w Fs \<Rightarrow> node_ref vfs \<times> 'w Fs" where
  "checked_mkdir r name fs = (case check_perm r 3 fs of Inl e \<Rightarrow> (Inl e, fs) | Inr _ \<Rightarrow> node_mkdir r name fs)"

definition checked_unlink :: "node_ref \<Rightarrow> string \<Rightarrow> 'w Fs \<Rightarrow> unit vfs \<times> 'w Fs" where
  "checked_unlink r name fs = (case check_perm r 3 fs of Inl e \<Rightarrow> (Inl e, fs) | Inr _ \<Rightarrow> node_unlink r name fs)"

subsection \<open>Whole-file operations\<close>

text \<open>The closure that fills a page: a fresh handle, a seek and one read; every failure is an empty read.\<close>

definition page_loader :: "'w Devices \<Rightarrow> node_ref \<Rightarrow> 'w Fs loader" where
  "page_loader dev r off frame fs =
     (case checked_open r False fs of
        Inl _ \<Rightarrow> ret (0, frame, fs)
      | Inr fh \<Rightarrow>
          (case handle_read dev frame (snd (handle_seek off fh)) fs of
             Inl p \<Rightarrow> Some (Inl p)
           | Inr (Inr n, frame1, _, fs1) \<Rightarrow> ret (n, frame1, fs1)
           | Inr (Inl _, frame1, _, fs1) \<Rightarrow> ret (0, frame1, fs1)))"

partial_function (option) read_to_end ::
  "'w Devices \<Rightarrow> FileHandle \<Rightarrow> bytes \<Rightarrow> 'w Fs \<Rightarrow> (bytes vfs \<times> 'w Fs) outcome" where
  "read_to_end dev fh acc fs =
     (case handle_read dev (replicate 4096 0) fh fs of
        Inl p \<Rightarrow> Some (Inl p)
      | Inr (Inl e, _, _, fs1) \<Rightarrow> ret (Inl e, fs1)
      | Inr (Inr n, tmp, fh1, fs1) \<Rightarrow>
          if n = 0 then ret (Inr acc, fs1) else read_to_end dev fh1 (acc @ take n tmp) fs1)"

definition read_node :: "'w Devices \<Rightarrow> node_ref \<Rightarrow> 'w Fs \<Rightarrow> (bytes vfs \<times> 'w Fs) outcome" where
  "read_node dev r fs =
     (let st = node_stat (node fs r); sz = unat (st_size st)
      in if 0 < sz \<and> sz \<le> 64 * 1024 * 1024
         then obind (read_bytes (st_ino st) 0 (replicate sz 0) (page_loader dev r) (fs_cache fs) fs)
                (\<lambda>(loaded, bs, pc, fs1). ret (Inr (take loaded bs), fs1\<lparr>fs_cache := pc\<rparr>))
         else case checked_open r False fs of
                Inl e \<Rightarrow> ret (Inl e, fs)
              | Inr fh \<Rightarrow> read_to_end dev fh [] fs)"

definition read_file :: "'w Devices \<Rightarrow> string \<Rightarrow> 'w Fs \<Rightarrow> (bytes vfs \<times> 'w Fs) outcome" where
  "read_file dev path fs =
     (case vfs_lookup path fs of
        (Inl e, fs1) \<Rightarrow> ret (Inl e, fs1)
      | (Inr r, fs1) \<Rightarrow> read_node dev r fs1)"

text \<open>The write loop: the rest of the data until all is written; a write of nothing is an error.\<close>

function write_all :: "'w Devices \<Rightarrow> bytes \<Rightarrow> nat \<Rightarrow> FileHandle \<Rightarrow> 'w Fs \<Rightarrow> (unit vfs \<times> FileHandle \<times> 'w Fs) rust" where
  "write_all dev bs off fh fs =
     (if off < length bs
      then case handle_write dev (drop off bs) fh fs of
             Inl p \<Rightarrow> Inl p
           | Inr (Inl e, fh1, fs1) \<Rightarrow> Inr (Inl e, fh1, fs1)
           | Inr (Inr n, fh1, fs1) \<Rightarrow>
               if n = 0 then Inr (Inl Io, fh1, fs1) else write_all dev bs (off + n) fh1 fs1
      else Inr (Inr (), fh, fs))"
  by pat_completeness auto
termination
  by (relation "measure (\<lambda>(dev, bs, off, fh, fs). length bs - off)") auto

declare write_all.simps [simp del]

definition IN_MODIFY :: u32 where "IN_MODIFY = 0x0002"

definition IN_DELETE :: u32 where "IN_DELETE = 0x0200"

definition write_node :: "'w Devices \<Rightarrow> string \<Rightarrow> bytes \<Rightarrow> node_ref \<Rightarrow> 'w Fs \<Rightarrow> (unit vfs \<times> 'w Fs) outcome" where
  "write_node dev path bs r fs =
     (case checked_open r True fs of
        Inl e \<Rightarrow> ret (Inl e, fs)
      | Inr fh \<Rightarrow>
          (case write_all dev bs 0 fh fs of
             Inl p \<Rightarrow> Some (Inl p)
           | Inr (Inl e, _, fs1) \<Rightarrow> ret (Inl e, fs1)
           | Inr (Inr _, _, fs1) \<Rightarrow>
               obind (invalidate (st_ino (node_stat (node fs1 r))) (fs_cache fs1))
                 (\<lambda>pc. ret (Inr (), fs1\<lparr>fs_cache := pc, fs_world := d_notify dev path IN_MODIFY (fs_world fs1)\<rparr>))))"

definition write_file :: "'w Devices \<Rightarrow> string \<Rightarrow> bytes \<Rightarrow> 'w Fs \<Rightarrow> (unit vfs \<times> 'w Fs) outcome" where
  "write_file dev path bs fs =
     (let (parent_path, name) = parent_and_name path
      in case vfs_lookup parent_path fs of
           (Inl e, fs1) \<Rightarrow> ret (Inl e, fs1)
         | (Inr parent, fs1) \<Rightarrow>
             (case vfs_lookup path fs1 of
                (Inr r, fs2) \<Rightarrow> write_node dev path bs r fs2
              | (Inl NotFound, fs2) \<Rightarrow>
                  (case checked_create_file parent name fs2 of
                     (Inl e, fs3) \<Rightarrow> ret (Inl e, fs3)
                   | (Inr r, fs3) \<Rightarrow> write_node dev path bs r fs3)
              | (Inl e, fs2) \<Rightarrow> ret (Inl e, fs2)))"

definition vfs_unlink :: "'w Devices \<Rightarrow> string \<Rightarrow> 'w Fs \<Rightarrow> unit vfs \<times> 'w Fs" where
  "vfs_unlink dev path fs =
     (let (parent_path, name) = parent_and_name path
      in case vfs_lookup parent_path fs of
           (Inl e, fs1) \<Rightarrow> (Inl e, fs1)
         | (Inr parent, fs1) \<Rightarrow>
             (case checked_unlink parent name fs1 of
                (Inr _, fs2) \<Rightarrow> (Inr (), fs2\<lparr>fs_world := d_notify dev path IN_DELETE (fs_world fs2)\<rparr>)
              | (Inl e, fs2) \<Rightarrow> (Inl e, fs2)))"

definition link_node :: "string \<Rightarrow> string \<Rightarrow> node_ref \<Rightarrow> 'w Fs \<Rightarrow> unit vfs \<times> 'w Fs" where
  "link_node parent_path name c fs =
     (case vfs_lookup parent_path fs of
        (Inl e, fs1) \<Rightarrow> (Inl e, fs1)
      | (Inr parent, fs1) \<Rightarrow> node_link_child parent name c fs1)"

definition append_file :: "'w Devices \<Rightarrow> string \<Rightarrow> bytes \<Rightarrow> 'w Fs \<Rightarrow> (unit vfs \<times> 'w Fs) outcome" where
  "append_file dev path bs fs =
     obind (read_file dev path fs)
       (\<lambda>(r, fs1). case r of
          Inr existing \<Rightarrow> write_file dev path (existing @ bs) fs1
        | Inl NotFound \<Rightarrow> write_file dev path bs fs1
        | Inl e \<Rightarrow> ret (Inl e, fs1))"

subsection \<open>Write-back of dirty pages\<close>

fun first_found :: "('e \<Rightarrow> 's \<Rightarrow> 'r option \<times> 's) \<Rightarrow> 'e list \<Rightarrow> 's \<Rightarrow> 'r option \<times> 's" where
  "first_found f [] s = (None, s)"
| "first_found f (e # es) s = (case f e s of (Some r, s1) \<Rightarrow> (Some r, s1) | (None, s1) \<Rightarrow> first_found f es s1)"

primrec search_node_by_ino :: "nat \<Rightarrow> u64 \<Rightarrow> node_ref \<Rightarrow> 'w Fs \<Rightarrow> node_ref option \<times> 'w Fs" where
  "search_node_by_ino 0 target r fs = (None, fs)"
| "search_node_by_ino (Suc depth) target r fs =
     (let st = node_stat (node fs r)
      in if st_ino st = target \<and> \<not> st_is_dir st then (Some r, fs)
      else if st_is_dir st then
        (case node_readdir r fs of
           Inr es \<Rightarrow> first_found (\<lambda>e fs1. case node_lookup r (de_name e) fs1 of
                        (Inr c, fs2) \<Rightarrow> search_node_by_ino depth target c fs2
                      | (Inl _, fs2) \<Rightarrow> (None, fs2)) es fs
         | Inl _ \<Rightarrow> (None, fs))
      else (None, fs))"

definition find_node_by_ino :: "u64 \<Rightarrow> 'w Fs \<Rightarrow> (node_ref option \<times> 'w Fs) rust" where
  "find_node_by_ino ino fs =
     (case fs_root fs of None \<Rightarrow> Inl ExpectFailed | Some root \<Rightarrow> Inr (search_node_by_ino 3 ino root fs))"

definition writeback_page :: "'w Devices \<Rightarrow> u64 \<Rightarrow> u64 \<Rightarrow> bytes \<Rightarrow> 'w Fs \<Rightarrow> (bool \<times> 'w Fs) rust" where
  "writeback_page dev ino off page fs =
     (case find_node_by_ino ino fs of
        Inl p \<Rightarrow> Inl p
      | Inr (None, fs1) \<Rightarrow> Inr (True, fs1)
      | Inr (Some r, fs1) \<Rightarrow>
          (case node_open r fs1 (node fs1 r) of
             Inl _ \<Rightarrow> Inr (False, fs1)
           | Inr fh \<Rightarrow>
               (case handle_write dev page (snd (handle_seek off fh)) fs1 of
                  Inl p \<Rightarrow> Inl p
                | Inr (Inr _, _, fs2) \<Rightarrow> Inr (True, fs2)
                | Inr (Inl _, _, fs2) \<Rightarrow> Inr (False, fs2))))"

fun writeback_loop :: "'w Devices \<Rightarrow> (u64 \<times> u64 \<times> u64) list \<Rightarrow> 'w Fs \<Rightarrow> 'w Fs rust" where
  "writeback_loop dev [] fs = Inr fs"
| "writeback_loop dev ((ino, off, phys) # rest) fs =
     (case writeback_page dev ino off (page_bytes (pc_frames (fs_cache fs)) phys) fs of
        Inl p \<Rightarrow> Inl p
      | Inr (True, fs1) \<Rightarrow>
          writeback_loop dev rest
            (fs1\<lparr>fs_cache := (fs_cache fs1)\<lparr>entries := bt_modify (ino, off) (\<lambda>e. e\<lparr>dirty := False\<rparr>) (entries (fs_cache fs1))\<rparr>\<rparr>)
      | Inr (False, fs1) \<Rightarrow> writeback_loop dev rest (fs1\<lparr>fs_world := d_io_error dev ino off (fs_world fs1)\<rparr>))"

definition tick_writeback :: "'w Devices \<Rightarrow> 'w Fs \<Rightarrow> 'w Fs rust" where
  "tick_writeback dev fs =
     writeback_loop dev (map (\<lambda>(k, e). (fst k, snd k, phys_frame e)) (filter (\<lambda>(k, e). dirty e) (entries (fs_cache fs)))) fs"

end
