(* ===== verification/Vfs_Inv.thy ===== *)
theory Vfs_Inv
  imports Vfs
begin

section \<open>The file tree keeps its shape\<close>

text \<open>
  What every operation keeps: references in directories, mounts and roots point to nodes, the maps
  of directories are well formed, and a node once made keeps its type and inode. Lookups change
  nothing but the counters inside the directory maps; \<open>fs_same\<close> says so.
\<close>

definition refs_below :: "nat \<Rightarrow> Node \<Rightarrow> bool" where
  "refs_below k n \<longleftrightarrow> (case children n of Some ch \<Rightarrow> hot_inv ch \<and> (\<forall>c \<in> ran (hot_view ch). c < k) | None \<Rightarrow> True)"

definition fs_wf :: "'w Fs \<Rightarrow> bool" where
  "fs_wf fs \<longleftrightarrow> (let k = length (fs_nodes fs)
     in (\<forall>n \<in> set (fs_nodes fs). refs_below k n) \<and> (\<forall>m \<in> set (fs_mounts fs). snd m < k) \<and>
        (\<forall>r. fs_root fs = Some r \<longrightarrow> r < k) \<and> (\<forall>r. devfs_root fs = Some r \<longrightarrow> r < k))"

text \<open>A node without what may change: its type and inode, and for the fixed nodes everything.\<close>

fun shape :: "Node \<Rightarrow> Node" where
  "shape (RamFile ino d uid gid m) = RamFile ino [] 0 0 0"
| "shape (RamDir ino ch uid gid m) = RamDir ino hot_new 0 0 0"
| "shape n = with_children hot_new n"

definition keeps_nodes :: "'w Fs \<Rightarrow> 'w Fs \<Rightarrow> bool" where
  "keeps_nodes fs fs' \<longleftrightarrow> length (fs_nodes fs) \<le> length (fs_nodes fs') \<and>
     (\<forall>r < length (fs_nodes fs). shape (node fs' r) = shape (node fs r))"

definition evolves :: "'w Fs \<Rightarrow> 'w Fs \<Rightarrow> bool" where
  "evolves fs fs' \<longleftrightarrow> fs_wf fs' \<and> keeps_nodes fs fs'"

lemma keeps_nodes_refl [simp]: "keeps_nodes fs fs"
  by (simp add: keeps_nodes_def)

lemma keeps_nodes_trans: "keeps_nodes a b \<Longrightarrow> keeps_nodes b c \<Longrightarrow> keeps_nodes a c"
  by (auto simp: keeps_nodes_def)

lemma evolves_refl: "fs_wf fs \<Longrightarrow> evolves fs fs"
  by (simp add: evolves_def)

lemma evolves_trans: "evolves a b \<Longrightarrow> evolves b c \<Longrightarrow> evolves a c"
  by (auto simp: evolves_def intro: keeps_nodes_trans)

lemma evolves_wf: "evolves a b \<Longrightarrow> fs_wf b"
  by (simp add: evolves_def)

lemma evolves_valid: "evolves a b \<Longrightarrow> r < length (fs_nodes a) \<Longrightarrow> r < length (fs_nodes b)"
  by (simp add: evolves_def keeps_nodes_def)

subsection \<open>What a client sees of a node\<close>

definition nview :: "Node \<Rightarrow> Node \<times> (string \<rightharpoonup> node_ref)" where
  "nview n = (with_children hot_new n, case children n of Some ch \<Rightarrow> hot_view ch | None \<Rightarrow> Map.empty)"

definition fs_same :: "'w Fs \<Rightarrow> 'w Fs \<Rightarrow> bool" where
  "fs_same fs fs' \<longleftrightarrow> map nview (fs_nodes fs') = map nview (fs_nodes fs) \<and>
     fs' = fs\<lparr>fs_nodes := fs_nodes fs'\<rparr>"

lemma fs_same_refl [simp]: "fs_same fs fs"
  by (simp add: fs_same_def)

lemma fs_same_trans: "fs_same a b \<Longrightarrow> fs_same b c \<Longrightarrow> fs_same a c"
  unfolding fs_same_def by (metis Fs.surjective Fs.update_convs(1))

lemma fs_same_length: "fs_same a b \<Longrightarrow> length (fs_nodes b) = length (fs_nodes a)"
  unfolding fs_same_def by (metis length_map)

lemma fs_same_nview: "fs_same a b \<Longrightarrow> r < length (fs_nodes a) \<Longrightarrow> nview (node b r) = nview (node a r)"
  using fs_same_length [of a b] unfolding fs_same_def by (metis nth_map)

lemma fs_same_fields:
  assumes "fs_same a b"
  shows "next_ino b = next_ino a" "fs_mounts b = fs_mounts a" "fs_root b = fs_root a" "devfs_root b = devfs_root a"
    "fs_db b = fs_db a" "fs_cache b = fs_cache a" "fs_ring b = fs_ring a" "fs_busy b = fs_busy a" "fs_world b = fs_world a"
proof -
  have b: "b = a\<lparr>fs_nodes := fs_nodes b\<rparr>" using assms by (simp add: fs_same_def)
  show "next_ino b = next_ino a" "fs_mounts b = fs_mounts a" "fs_root b = fs_root a" "devfs_root b = devfs_root a"
    "fs_db b = fs_db a" "fs_cache b = fs_cache a" "fs_ring b = fs_ring a" "fs_busy b = fs_busy a" "fs_world b = fs_world a"
    by (subst b, simp)+
qed

lemma children_with [simp]: "children n = Some ch \<Longrightarrow> children (with_children ch' n) = Some ch'"
  by (cases n) auto

lemma with_children_with [simp]: "with_children a (with_children b n) = with_children a n"
  by (cases n) auto

lemma shape_with [simp]: "shape (with_children ch n) = shape n"
  by (cases n) auto

lemma nview_shape: "nview n = nview n' \<Longrightarrow> shape n = shape n'"
  unfolding nview_def by (metis prod.inject shape_with)

lemma stat_with [simp]: "node_stat (with_children ch n) = node_stat n"
  by (cases n) auto

lemma nview_stat: "nview n = nview n' \<Longrightarrow> node_stat n = node_stat n'"
  unfolding nview_def by (metis prod.inject stat_with)

lemma nview_with: "children n = Some ch \<Longrightarrow> nview (with_children ch' n) = (fst (nview n), hot_view ch')"
  by (simp add: nview_def)

subsection \<open>Single updates\<close>

lemma nth_set_node: "r < length (fs_nodes fs) \<Longrightarrow> node (set_node r n fs) r' = (if r' = r then n else node fs r')"
  by (simp add: set_node_def nth_list_update)

lemma set_node_length [simp]: "length (fs_nodes (set_node r n fs)) = length (fs_nodes fs)"
  by (simp add: set_node_def)

lemma set_node_fields [simp]:
  "next_ino (set_node r n fs) = next_ino fs" "fs_mounts (set_node r n fs) = fs_mounts fs"
  "fs_root (set_node r n fs) = fs_root fs" "devfs_root (set_node r n fs) = devfs_root fs"
  "fs_db (set_node r n fs) = fs_db fs" "fs_cache (set_node r n fs) = fs_cache fs"
  "fs_busy (set_node r n fs) = fs_busy fs" "fs_world (set_node r n fs) = fs_world fs"
  by (simp_all add: set_node_def)

lemma fs_wf_node: "fs_wf fs \<Longrightarrow> r < length (fs_nodes fs) \<Longrightarrow> refs_below (length (fs_nodes fs)) (node fs r)"
  by (simp add: fs_wf_def Let_def)

lemma set_node_wf:
  assumes "fs_wf fs" and "refs_below (length (fs_nodes fs)) n"
  shows "fs_wf (set_node r n fs)"
  using assms by (auto simp: fs_wf_def Let_def set_node_def dest: subsetD [OF set_update_subset_insert])

lemma set_node_evolves:
  assumes "fs_wf fs" and "refs_below (length (fs_nodes fs)) n" and "shape n = shape (node fs r)"
  shows "evolves fs (set_node r n fs)"
proof -
  have "shape (node (set_node r n fs) r') = shape (node fs r')" if "r' < length (fs_nodes fs)" for r'
    using assms(3) that by (cases "r = r'") (simp_all add: set_node_def)
  then show ?thesis using set_node_wf [OF assms(1,2)] by (simp add: evolves_def keeps_nodes_def)
qed

lemma set_node_same:
  assumes "r < length (fs_nodes fs)" and "nview n = nview (node fs r)"
  shows "fs_same fs (set_node r n fs)"
proof -
  have "map nview ((fs_nodes fs)[r := n]) = (map nview (fs_nodes fs))[r := nview (node fs r)]"
    using assms(2) by (simp add: map_update)
  then show ?thesis using assms(1) by (simp add: fs_same_def set_node_def list_update_id nth_map [symmetric] del: nth_map)
qed

lemma refs_below_mono: "refs_below k n \<Longrightarrow> k \<le> k' \<Longrightarrow> refs_below k' n"
  by (auto simp: refs_below_def split: option.splits)

lemma new_node_evolves:
  assumes "fs_wf fs" and "refs_below (length (fs_nodes fs) + 1) n" and "new_node n fs = (r, fs')"
  shows "evolves fs fs' \<and> r = length (fs_nodes fs) \<and> length (fs_nodes fs') = length (fs_nodes fs) + 1 \<and> node fs' r = n"
proof -
  have fs': "fs' = fs\<lparr>fs_nodes := fs_nodes fs @ [n]\<rparr>" and r: "r = length (fs_nodes fs)"
    using assms(3) by (auto simp: new_node_def)
  have "fs_wf fs'"
    using assms(1,2) refs_below_mono [of "length (fs_nodes fs)" _ "Suc (length (fs_nodes fs))"]
    unfolding fs' fs_wf_def Let_def by (auto simp: less_SucI)
  then show ?thesis by (simp add: evolves_def keeps_nodes_def fs' r nth_append)
qed

lemma alloc_ino_wf [simp]: "fs_wf (snd (alloc_ino fs)) = fs_wf fs" "fs_nodes (snd (alloc_ino fs)) = fs_nodes fs"
  by (simp_all add: alloc_ino_def fs_wf_def)

lemma fs_wf_other [simp]:
  "fs_wf (fs\<lparr>fs_cache := c\<rparr>) = fs_wf fs" "fs_wf (fs\<lparr>fs_world := w\<rparr>) = fs_wf fs" "fs_wf (fs\<lparr>next_ino := i\<rparr>) = fs_wf fs"
  "fs_wf (fs\<lparr>fs_db := d\<rparr>) = fs_wf fs"
  by (simp_all add: fs_wf_def)

lemma evolves_other:
  "evolves a b \<Longrightarrow> evolves a (b\<lparr>fs_cache := c\<rparr>)" "evolves a b \<Longrightarrow> evolves a (b\<lparr>fs_world := w\<rparr>)"
  by (simp_all add: evolves_def keeps_nodes_def)

subsection \<open>Node methods\<close>

lemma look_child:
  assumes "fs_wf fs" and "r < length (fs_nodes fs)" and "children (node fs r) = Some ch" and "hot_get b name ch = (v, ch1)"
  shows "hot_inv ch1" and "hot_view ch1 = hot_view ch" and "v = hot_view ch name"
    and "v = Some c \<Longrightarrow> c < length (fs_nodes fs)"
    and "evolves fs (set_node r (with_children ch1 (node fs r)) fs)"
    and "fs_same fs (set_node r (with_children ch1 (node fs r)) fs)"
proof -
  have i: "hot_inv ch" and v: "\<And>c. c \<in> ran (hot_view ch) \<Longrightarrow> c < length (fs_nodes fs)"
    using fs_wf_node [OF assms(1,2)] assms(3) by (simp_all add: refs_below_def)
  show h: "hot_inv ch1" "hot_view ch1 = hot_view ch" and val: "v = hot_view ch name"
    using hot.look_inv [OF i, of b name] hot.look_view [OF i, of b name] hot.look_val [OF i, of b name] assms(4)
    by simp_all
  then show "v = Some c \<Longrightarrow> c < length (fs_nodes fs)" using v by (auto simp: ran_def)
  show "evolves fs (set_node r (with_children ch1 (node fs r)) fs)"
    using assms(3) h v by (intro set_node_evolves [OF assms(1)]) (simp_all add: refs_below_def)
  show "fs_same fs (set_node r (with_children ch1 (node fs r)) fs)"
    using assms(3) h by (intro set_node_same [OF assms(2)]) (simp add: nview_with, simp add: nview_def)
qed

lemma lookup_ok:
  assumes "fs_wf fs" and "r < length (fs_nodes fs)" and "node_lookup r name fs = (res, fs')"
  shows "evolves fs fs'" and "fs_same fs fs'" and "res = Inr c \<Longrightarrow> c < length (fs_nodes fs')"
proof -
  have "evolves fs fs' \<and> fs_same fs fs' \<and> (res = Inr c \<longrightarrow> c < length (fs_nodes fs'))"
  proof (cases "children (node fs r)")
    case None
    then show ?thesis using assms(1,3) by (auto simp: node_lookup_def evolves_refl split: if_splits)
  next
    case (Some ch)
    obtain v ch1 where g: "hot_get (fs_busy fs) name ch = (v, ch1)" by fastforce
    note l = look_child [OF assms(1,2) Some g]
    show ?thesis using assms(3) Some g l by (auto simp: node_lookup_def Let_def split: option.splits)
  qed
  then show "evolves fs fs'" and "fs_same fs fs'" and "res = Inr c \<Longrightarrow> c < length (fs_nodes fs')" by auto
qed

text \<open>Making a node and adding it to a directory.\<close>

definition makes :: "('w Fs \<Rightarrow> node_ref \<times> 'w Fs) \<Rightarrow> bool" where
  "makes mk \<longleftrightarrow> (\<forall>fs r fs'. fs_wf fs \<longrightarrow> mk fs = (r, fs') \<longrightarrow> evolves fs fs' \<and> r < length (fs_nodes fs') \<and>
     (\<forall>r' < length (fs_nodes fs). node fs' r' = node fs r'))"

lemma makes_new:
  assumes below: "\<And>ino fs. refs_below 0 (mk ino fs)"
  shows "makes (\<lambda>fs :: 'w Fs. let (ino, fs1) = alloc_ino fs in new_node (mk ino fs) fs1)"
  unfolding makes_def
proof (intro allI impI)
  fix fs :: "'w Fs" and r fs'
  assume wf: "fs_wf fs" and eq: "(let (ino, fs1) = alloc_ino fs in new_node (mk ino fs) fs1) = (r, fs')"
  obtain ino fs1 where a: "alloc_ino fs = (ino, fs1)" by fastforce
  have wf1: "fs_wf fs1" and n1: "fs_nodes fs1 = fs_nodes fs" using wf alloc_ino_wf [of fs] a by simp_all
  have b: "refs_below (length (fs_nodes fs1) + 1) (mk ino fs)" by (rule refs_below_mono [OF below]) simp
  have nn: "new_node (mk ino fs) fs1 = (r, fs')" using eq a by simp
  from new_node_evolves [OF wf1 b nn] n1 nn
  show "evolves fs fs' \<and> r < length (fs_nodes fs') \<and> (\<forall>r' < length (fs_nodes fs). node fs' r' = node fs r')"
    by (auto simp: evolves_def keeps_nodes_def new_node_def nth_append)
qed

lemma refs_below_leaf [simp]: "children n = None \<Longrightarrow> refs_below k n"
  by (simp add: refs_below_def)

lemma refs_below_dir [simp]: "refs_below 0 (RamDir ino hot_new uid gid m)"
  by (simp add: refs_below_def hot_new_ok)

lemma makes_ram [simp]: "makes ram_file_new" "makes ram_dir_new" "makes ram_dir_new_root" "makes (symlink_new t)"
  using makes_new [of "\<lambda>ino fs. RamFile ino [] (current_uid (fs_db fs)) (cur_gid fs) (0x1A4 AND NOT (db_umask (fs_db fs)))"]
    makes_new [of "\<lambda>ino fs. RamDir ino hot_new (current_uid (fs_db fs)) (cur_gid fs) (0x1ED AND NOT (db_umask (fs_db fs)))"]
    makes_new [of "\<lambda>ino fs. RamDir ino hot_new 0 0 0x1ED"] makes_new [of "\<lambda>ino fs. SymlinkNode ino t"]
  unfolding ram_file_new_def [abs_def] ram_dir_new_def [abs_def] ram_dir_new_root_def [abs_def] symlink_new_def [abs_def]
  by simp_all

lemma ram_dir_add_ok:
  assumes "fs_wf fs" and r: "r < length (fs_nodes fs)" and ch: "children (node fs r) = Some ch" and "makes mk"
    and "ram_dir_add r name mk ch fs = (res, fs')"
  shows "evolves fs fs'" and "res = Inr c \<Longrightarrow> c < length (fs_nodes fs')"
proof -
  obtain v ch1 where g: "hot_get (fs_busy fs) name ch = (v, ch1)" by fastforce
  note l = look_child [OF assms(1) r ch g]
  let ?fs1 = "set_node r (with_children ch1 (node fs r)) fs"
  have "evolves fs fs' \<and> (res = Inr c \<longrightarrow> c < length (fs_nodes fs'))"
  proof (cases v)
    case (Some x)
    then show ?thesis using assms(5) g l(5) by (auto simp: ram_dir_add_def Let_def)
  next
    case None
    obtain d fs2 where m: "mk ?fs1 = (d, fs2)" by fastforce
    have e2: "evolves ?fs1 fs2" "d < length (fs_nodes fs2)" and kept: "\<forall>r' < length (fs_nodes ?fs1). node fs2 r' = node ?fs1 r'"
      using assms(4) m evolves_wf [OF l(5)] unfolding makes_def by blast+
    have n2: "node fs2 r = with_children ch1 (node fs r)" using kept r by (simp add: nth_set_node)
    have r2: "r < length (fs_nodes fs2)" using evolves_valid [OF e2(1)] r by simp
    have c2: "children (node fs2 r) = Some ch1" using ch n2 by simp
    have below: "\<forall>c \<in> ran (hot_view ch1). c < length (fs_nodes fs2)"
      using fs_wf_node [OF evolves_wf [OF e2(1)] r2] c2 by (simp add: refs_below_def)
    have "ran ((hot_view ch1)(name \<mapsto> d)) \<subseteq> insert d (ran (hot_view ch1))" by (auto simp: ran_def)
    then have rb: "refs_below (length (fs_nodes fs2)) (with_children (hot_insert (fs_busy fs2) name d ch1) (node fs2 r))"
      using c2 below e2(2) l(1) by (auto simp: refs_below_def hot.ins_inv hot.ins_view)
    have fin: "fs' = set_node r (with_children (hot_insert (fs_busy fs2) name d ch1) (node fs2 r)) fs2" "res = Inr d"
      using assms(5) g None m by (simp_all add: ram_dir_add_def Let_def)
    have "evolves fs2 fs'" unfolding fin by (rule set_node_evolves [OF evolves_wf [OF e2(1)] rb]) simp
    then show ?thesis using l(5) e2 fin by (auto intro: evolves_trans)
  qed
  then show "evolves fs fs'" and "res = Inr c \<Longrightarrow> c < length (fs_nodes fs')" by auto
qed

lemma create_ok:
  assumes "fs_wf fs" and "r < length (fs_nodes fs)"
  shows "node_create_file r name fs = (res, fs') \<Longrightarrow> evolves fs fs' \<and> (\<forall>c. res = Inr c \<longrightarrow> c < length (fs_nodes fs'))"
    and "node_mkdir r name fs = (res, fs') \<Longrightarrow> evolves fs fs' \<and> (\<forall>c. res = Inr c \<longrightarrow> c < length (fs_nodes fs'))"
    and "node_create_symlink r name t fs = (res, fs') \<Longrightarrow> evolves fs fs' \<and> (\<forall>c. res = Inr c \<longrightarrow> c < length (fs_nodes fs'))"
proof -
  have add: "evolves fs fs' \<and> (\<forall>c. res = Inr c \<longrightarrow> c < length (fs_nodes fs'))"
    if "ram_dir_add r name mk ch fs = (res, fs')" "makes mk" "node fs r = RamDir ino ch uid gid m" for mk ino ch uid gid m
    using ram_dir_add_ok [OF assms _ that(2,1)] that(3) by auto
  show "node_create_file r name fs = (res, fs') \<Longrightarrow> evolves fs fs' \<and> (\<forall>c. res = Inr c \<longrightarrow> c < length (fs_nodes fs'))"
    using assms(1) by (cases "node fs r") (auto simp: node_create_file_def evolves_refl dest!: add [OF _ makes_ram(1)])
  show "node_mkdir r name fs = (res, fs') \<Longrightarrow> evolves fs fs' \<and> (\<forall>c. res = Inr c \<longrightarrow> c < length (fs_nodes fs'))"
    using assms(1) by (cases "node fs r") (auto simp: node_mkdir_def evolves_refl dest!: add [OF _ makes_ram(2)])
  show "node_create_symlink r name t fs = (res, fs') \<Longrightarrow> evolves fs fs' \<and> (\<forall>c. res = Inr c \<longrightarrow> c < length (fs_nodes fs'))"
    using assms(1) by (cases "node fs r") (auto simp: node_create_symlink_def evolves_refl dest!: add [OF _ makes_ram(4)])
qed

lemma unlink_ok:
  assumes "fs_wf fs" and "r < length (fs_nodes fs)" and "node_unlink r name fs = (res, fs')"
  shows "evolves fs fs'"
proof (cases "\<exists>ino ch uid gid m. node fs r = RamDir ino ch uid gid m")
  case True
  then obtain ino ch uid gid m where n: "node fs r = RamDir ino ch uid gid m" by blast
  have i: "hot_inv ch" and v: "\<forall>c \<in> ran (hot_view ch). c < length (fs_nodes fs)"
    using fs_wf_node [OF assms(1,2)] n by (simp_all add: refs_below_def)
  obtain x ch1 where x: "hot_remove (fs_busy fs) name ch = (x, ch1)" by fastforce
  have h: "hot_inv ch1" "hot_view ch1 = (hot_view ch)(name := None)"
    using hot.del_inv [OF i, of "fs_busy fs" name] hot.del_view [OF i, of "fs_busy fs" name] x by simp_all
  have "ran (hot_view ch1) \<subseteq> ran (hot_view ch)" by (auto simp: h(2) ran_def)
  then have "evolves fs (set_node r (with_children ch1 (node fs r)) fs)"
    using n h v by (intro set_node_evolves [OF assms(1)]) (auto simp: refs_below_def)
  then show ?thesis using assms(3) n x by (auto simp: node_unlink_def Let_def split: option.splits)
next
  case False
  then show ?thesis using assms(1,3) by (auto simp: node_unlink_def evolves_refl split: Node.splits)
qed

lemma set_attr_ok:
  assumes "fs_wf fs" and "r < length (fs_nodes fs)"
  shows "node_set_mode r m fs = (res, fs') \<Longrightarrow> evolves fs fs'" and "node_set_owner r u g fs = (res, fs') \<Longrightarrow> evolves fs fs'"
  using fs_wf_node [OF assms] set_node_evolves [OF assms(1)] assms(1)
  by (auto simp: node_set_mode_def node_set_owner_def evolves_refl refs_below_def split: Node.splits)

lemma shape_data [simp]: "shape (set_file_data d n) = shape n"
  by (cases n) auto

lemma children_data [simp]: "children (set_file_data d n) = children n"
  by (cases n) auto

lemma flush_ok:
  assumes "fs_wf fs" and "\<And>d pos ino back uid gid m. h = RamFileHandle d pos ino back uid gid m \<Longrightarrow> back < length (fs_nodes fs)"
  shows "evolves fs (handle_flush h fs)"
proof (cases h)
  case (RamFileHandle d pos ino bk uid gid m)
  have "refs_below (length (fs_nodes fs)) (set_file_data d (node fs bk))"
    using fs_wf_node [OF assms(1) assms(2) [OF RamFileHandle]] by (simp add: refs_below_def)
  then show ?thesis using RamFileHandle assms(1) by (simp add: set_node_evolves)
qed (use assms(1) in \<open>simp_all add: evolves_refl\<close>)

subsection \<open>Paths\<close>

lemma walk_ok:
  assumes "fs_wf fs" and "r < length (fs_nodes fs)" and "walk_components path r fs = (res, fs')"
  shows "evolves fs fs' \<and> fs_same fs fs' \<and> (\<forall>c. res = Inr c \<longrightarrow> c < length (fs_nodes fs'))"
  using assms
proof (induction path r fs rule: walk_components.induct)
  case (2 c rest r fs)
  show ?case
  proof (cases "c = ''.'' \<or> c = ''..''")
    case True
    then show ?thesis using 2 by auto
  next
    case False
    obtain v fs1 where l: "node_lookup r c fs = (v, fs1)" by fastforce
    note lk = lookup_ok [OF "2.prems"(1,2) l]
    show ?thesis
    proof (cases v)
      case (Inl e)
      then show ?thesis using "2.prems"(3) False l lk by auto
    next
      case (Inr r1)
      have "evolves fs1 fs' \<and> fs_same fs1 fs' \<and> (\<forall>c. res = Inr c \<longrightarrow> c < length (fs_nodes fs'))"
        using "2.IH"(2) [OF False l [symmetric] Inr evolves_wf [OF lk(1)] lk(3) [OF Inr]] "2.prems"(3) False l Inr
        by simp
      then show ?thesis using lk(1,2) by (blast intro: evolves_trans fs_same_trans)
    qed
  qed
qed (auto simp: evolves_refl)

lemma best_mount_in:
  "best_mount path ms = Some m \<Longrightarrow> m \<in> set ms \<and> starts_with path (fst m) \<and>
     (\<forall>m' \<in> set ms. starts_with path (fst m') \<longrightarrow> length (fst m') \<le> length (fst m))"
proof -
  define step where "step = (\<lambda>(m :: string \<times> node_ref) (best_len, best). if starts_with path (fst m) \<and> best_len \<le> length (fst m)
                                    then (length (fst m), Some m) else (best_len, best))"
  define ok where "ok = (\<lambda>(ms :: (string \<times> node_ref) list) s. case snd s of
       Some m \<Rightarrow> fst s = length (fst m) \<and> m \<in> set ms \<and> starts_with path (fst m) \<and>
         (\<forall>m' \<in> set ms. starts_with path (fst m') \<longrightarrow> length (fst m') \<le> length (fst m))
     | None \<Rightarrow> fst s = (0::nat) \<and> (\<forall>m' \<in> set ms. \<not> starts_with path (fst m')))"
  have "ok ms (fold step ms (0, None))"
  proof (induction ms rule: rev_induct)
    case (snoc m ms)
    then show ?case
      by (cases "fold step ms (0, None)") (auto simp: ok_def step_def split: option.splits)
  qed (simp add: ok_def)
  moreover assume "best_mount path ms = Some m"
  then have "snd (fold step ms (0, None)) = Some m" by (simp add: best_mount_def step_def)
  ultimately show ?thesis by (simp add: ok_def)
qed

lemma resolve_ok:
  assumes "fs_wf fs" and "vfs_lookup path fs = (res, fs')"
  shows "evolves fs fs'" and "fs_same fs fs'" and "res = Inr c \<Longrightarrow> c < length (fs_nodes fs')"
proof -
  have "evolves fs fs' \<and> fs_same fs fs' \<and> (res = Inr c \<longrightarrow> c < length (fs_nodes fs'))"
  proof (cases "best_mount path (fs_mounts fs)")
    case None
    then show ?thesis using assms by (auto simp: vfs_lookup_def resolve_def evolves_refl)
  next
    case (Some m)
    then have "snd m < length (fs_nodes fs)" using best_mount_in [OF Some] assms(1) by (auto simp: fs_wf_def Let_def)
    from walk_ok [OF assms(1) this] Some assms(2) show ?thesis
      by (cases m) (auto simp: vfs_lookup_def resolve_def walk_def)
  qed
  then show "evolves fs fs'" and "fs_same fs fs'" and "res = Inr c \<Longrightarrow> c < length (fs_nodes fs')" by auto
qed

end
