(* ===== verification/Vfs_Props.thy ===== *)
theory Vfs_Props
  imports Vfs_Inv
begin

section \<open>Whole-file operations\<close>

text \<open>
  Sequences of file operations keep every node's type; a file reads back as its contents through the
  page cache; and three places where the code falls short: \<^verbatim>\<open>write_file\<close> never stores what it wrote, a
  cached page is returned without a permission check, and a mount point captures paths that only
  share its first characters.
\<close>

subsection \<open>Reads and writes touch the outside world only\<close>

definition world_only :: "'w Fs \<Rightarrow> 'w Fs \<Rightarrow> bool" where
  "world_only fs fs' \<longleftrightarrow> (\<exists>w. fs' = fs\<lparr>fs_world := w\<rparr>)"

lemma world_only_self [simp]: "world_only fs (fs\<lparr>fs_world := w\<rparr>)"
  by (auto simp: world_only_def)

lemma world_only_refl [simp]: "world_only fs fs"
  unfolding world_only_def by (rule exI [of _ "fs_world fs"]) simp

lemma world_only_trans: "world_only a b \<Longrightarrow> world_only b c \<Longrightarrow> world_only a c"
  by (auto simp: world_only_def)

lemma world_only_order: "reflp world_only" "transp world_only"
  by (auto intro!: reflpI transpI intro: world_only_trans)

lemma handle_read_world: "handle_read dev bs h fs = Inr (r, bs', h', fs') \<Longrightarrow> world_only fs fs'"
  by (cases h) (auto simp: map_sum_def split: prod.splits sum.splits)

lemma handle_write_world: "handle_write dev bs h fs = Inr (r, h', fs') \<Longrightarrow> world_only fs fs'"
  by (cases h) (auto simp: map_sum_def split: prod.splits sum.splits)

lemma page_loader_world: "page_loader dev r off bs fs = ret (n, bs', fs') \<Longrightarrow> world_only fs fs'"
  by (auto simp: page_loader_def split: sum.splits prod.splits dest: handle_read_world)

lemma write_all_world: "write_all dev bs off h fs = Inr (r, h', fs') \<Longrightarrow> world_only fs fs'"
proof (induction dev bs off h fs rule: write_all.induct)
  case (1 dev bs off h fs)
  show ?case
  proof (cases "off < length bs")
    case False
    then show ?thesis using "1.prems" by (simp add: write_all.simps)
  next
    case True
    then obtain v h1 fs1 where w: "handle_write dev (drop off bs) h fs = Inr (v, h1, fs1)"
      using "1.prems" by (subst (asm) write_all.simps) (auto split: sum.splits)
    note w1 = handle_write_world [OF w]
    show ?thesis
    proof (cases "\<exists>n. v = Inr n \<and> n \<noteq> 0")
      case again: True
      then obtain n where n: "v = Inr n" "n \<noteq> 0" by blast
      have "world_only fs1 fs'"
        by (rule "1.IH" [OF True w refl n(1) refl n(2)]) (use "1.prems" True w n in \<open>subst (asm) write_all.simps, simp\<close>)
      then show ?thesis using w1 by (blast intro: world_only_trans)
    next
      case False
      then show ?thesis using "1.prems" True w w1
        by (subst (asm) write_all.simps) (auto split: sum.splits if_splits)
    qed
  qed
qed

lemma read_to_end_world:
  assumes "read_to_end dev h acc fs = ret (r, fs')"
  shows "world_only fs fs'"
proof -
  have "\<forall>r fs'. y = Inr (r, fs') \<longrightarrow> world_only fs fs'" if "read_to_end dev h acc fs = Some y" for y
  proof (rule read_to_end.raw_induct [OF _ that], intro allI impI)
    fix f :: "'w Devices \<Rightarrow> FileHandle \<Rightarrow> bytes \<Rightarrow> 'w Fs \<Rightarrow> (bytes vfs \<times> 'w Fs) outcome" and dev h acc fs z r fs'
    assume IH: "\<And>dev h acc fs y. f dev h acc fs = Some y \<Longrightarrow> \<forall>r fs'. y = Inr (r, fs') \<longrightarrow> world_only fs fs'"
      and eq: "(case handle_read dev (replicate 4096 0) h fs of Inl p \<Rightarrow> Some (Inl p)
        | Inr (Inl e, x, xa, fs1) \<Rightarrow> ret (Inl e, fs1)
        | Inr (Inr n, tmp, h1, fs1) \<Rightarrow> if n = 0 then ret (Inr acc, fs1) else f dev h1 (acc @ take n tmp) fs1) = Some z"
      and z: "z = Inr (r, fs')"
    obtain v tmp h1 fs1 where hr: "handle_read dev (replicate 4096 0) h fs = Inr (v, tmp, h1, fs1)"
      using eq z by (auto split: sum.splits)
    note w = handle_read_world [OF hr]
    show "world_only fs fs'"
    proof (cases "\<exists>n. v = Inr n \<and> n \<noteq> 0")
      case True
      then obtain n where "v = Inr n" "n \<noteq> 0" by blast
      then have "world_only fs1 fs'" using IH eq z hr by simp
      then show ?thesis using w by (blast intro: world_only_trans)
    next
      case False
      then show ?thesis using eq z hr w by (auto split: sum.splits if_splits)
    qed
  qed
  then show ?thesis using assms by blast
qed

lemma read_node_nodes:
  assumes "read_node dev r fs = ret (res, fs')"
  shows "\<exists>w pc. fs' = fs\<lparr>fs_world := w, fs_cache := pc\<rparr>"
proof (cases "0 < unat (st_size (node_stat (node fs r))) \<and> unat (st_size (node_stat (node fs r))) \<le> 64 * 1024 * 1024")
  case True
  then obtain n bs pc fs1 where rd: "read_bytes (st_ino (node_stat (node fs r))) 0
      (replicate (unat (st_size (node_stat (node fs r)))) 0) (page_loader dev r) (fs_cache fs) fs = ret (n, bs, pc, fs1)"
    and fs': "fs' = fs1\<lparr>fs_cache := pc\<rparr>"
    using assms by (auto simp: read_node_def Let_def obind_ret)
  have "world_only fs fs1"
    using read_loop_state [OF rd [unfolded read_bytes_def] world_only_order] page_loader_world by blast
  then obtain w where "fs1 = fs\<lparr>fs_world := w\<rparr>" by (auto simp: world_only_def)
  then show ?thesis using fs' by (intro exI [of _ w] exI [of _ pc]) simp
next
  case False
  then have "world_only fs fs'"
    using assms by (auto simp: read_node_def Let_def split: sum.splits dest: read_to_end_world)
  then obtain w where "fs' = fs\<lparr>fs_world := w\<rparr>" by (auto simp: world_only_def)
  then show ?thesis by (intro exI [of _ w] exI [of _ "fs_cache fs"]) simp
qed

lemma write_node_nodes:
  assumes "write_node dev path bs r fs = ret (res, fs')"
  shows "\<exists>w pc. fs' = fs\<lparr>fs_world := w, fs_cache := pc\<rparr>"
proof (cases "checked_open r True fs")
  case (Inl e)
  then show ?thesis using assms by (intro exI [of _ "fs_world fs"] exI [of _ "fs_cache fs"]) (simp add: write_node_def)
next
  case (Inr h)
  obtain v h1 fs1 where w: "write_all dev bs 0 h fs = Inr (v, h1, fs1)"
    using assms Inr by (auto simp: write_node_def split: sum.splits)
  from write_all_world [OF w] obtain x where x: "fs1 = fs\<lparr>fs_world := x\<rparr>" by (auto simp: world_only_def)
  show ?thesis
  proof (cases v)
    case l: (Inl e)
    then have "fs' = fs\<lparr>fs_world := x\<rparr>" using assms Inr w x by (simp add: write_node_def)
    then show ?thesis by (intro exI [of _ x] exI [of _ "fs_cache fs"]) simp
  next
    case r: (Inr u)
    then obtain pc where "fs' = fs1\<lparr>fs_cache := pc, fs_world := d_notify dev path IN_MODIFY (fs_world fs1)\<rparr>"
      using assms Inr w by (auto simp: write_node_def obind_ret)
    then show ?thesis
      using x by (intro exI [of _ "d_notify dev path IN_MODIFY (fs_world fs1)"] exI [of _ pc]) simp
  qed
qed

subsection \<open>Contents of files\<close>

fun file_data :: "Node \<Rightarrow> bytes option" where
  "file_data (RamFile ino d uid gid m) = Some d"
| "file_data n = None"

lemma file_data_with [simp]: "file_data (with_children ch n) = file_data n"
  by (cases n) auto

lemma nview_data: "nview n = nview n' \<Longrightarrow> file_data n = file_data n'"
  unfolding nview_def by (metis prod.inject file_data_with)

lemma fs_same_data: "fs_same a b \<Longrightarrow> r < length (fs_nodes a) \<Longrightarrow> file_data (node b r) = file_data (node a r)"
  by (rule nview_data [OF fs_same_nview])

definition contents_after :: "'w Fs \<Rightarrow> 'w Fs \<Rightarrow> bool" where
  "contents_after fs fs' \<longleftrightarrow> length (fs_nodes fs) \<le> length (fs_nodes fs') \<and> (\<forall>r < length (fs_nodes fs').
     file_data (node fs' r) = (if r < length (fs_nodes fs) then file_data (node fs r) else Some []))"

lemma contents_same: "fs_same fs fs' \<Longrightarrow> contents_after fs fs'"
  using fs_same_length [of fs fs'] by (simp add: contents_after_def fs_same_data)

lemma contents_trans: "contents_after a b \<Longrightarrow> contents_after b c \<Longrightarrow> contents_after a c"
  by (auto simp: contents_after_def)

lemma contents_fields: "contents_after a b \<Longrightarrow> fs_nodes c = fs_nodes b \<Longrightarrow> contents_after a c"
  by (simp add: contents_after_def)

lemma create_contents:
  assumes "fs_wf fs" and "r < length (fs_nodes fs)" and "node_create_file r name fs = (res, fs')"
  shows "contents_after fs fs'"
proof (cases "\<exists>ino ch uid gid m. node fs r = RamDir ino ch uid gid m")
  case True
  then obtain ino ch uid gid m where n: "node fs r = RamDir ino ch uid gid m" by blast
  obtain v ch1 where g: "hot_get (fs_busy fs) name ch = (v, ch1)" by fastforce
  have same: "contents_after fs (set_node r (with_children ch1 (node fs r)) fs)"
    by (rule contents_same) (use look_child(6) [OF assms(1,2) _ g] n in simp)
  show ?thesis
  proof (cases v)
    case (Some x)
    then show ?thesis using assms(3) n g same by (simp add: node_create_file_def ram_dir_add_def Let_def)
  next
    case None
    let ?fs1 = "set_node r (with_children ch1 (node fs r)) fs"
    obtain f fs2 where f: "ram_file_new ?fs1 = (f, fs2)" by fastforce
    then have nodes: "\<exists>i u g m. fs_nodes fs2 = fs_nodes ?fs1 @ [RamFile i [] u g m]"
      by (auto simp: ram_file_new_def alloc_ino_def new_node_def)
    have "fs' = set_node r (with_children (hot_insert (fs_busy fs2) name f ch1) (node fs2 r)) fs2"
      using assms(3) n g None f by (simp add: node_create_file_def ram_dir_add_def Let_def)
    then have "contents_after ?fs1 fs'"
      using nodes assms(2) by (auto simp: contents_after_def nth_set_node nth_append)
    then show ?thesis using same contents_trans by blast
  qed
next
  case False
  then have "fs' = fs" using assms(3) by (auto simp: node_create_file_def split: Node.splits)
  then show ?thesis by (simp add: contents_after_def)
qed

subsection \<open>Directories\<close>

text \<open>What a client sees of a directory: the nodes its names stand for.\<close>

definition dir_view :: "'w Fs \<Rightarrow> node_ref \<Rightarrow> string \<rightharpoonup> node_ref" where
  "dir_view fs r = snd (nview (node fs r))"

text \<open>Nothing but the directory \<open>r\<close> is changed, and nodes are only added.\<close>

definition only_dir :: "node_ref \<Rightarrow> 'w Fs \<Rightarrow> 'w Fs \<Rightarrow> bool" where
  "only_dir r fs fs' \<longleftrightarrow> length (fs_nodes fs) \<le> length (fs_nodes fs') \<and>
     fst (nview (node fs' r)) = fst (nview (node fs r)) \<and>
     (\<forall>r' < length (fs_nodes fs). r' \<noteq> r \<longrightarrow> nview (node fs' r') = nview (node fs r'))"

definition added :: "node_ref \<Rightarrow> string \<Rightarrow> 'w Fs \<Rightarrow> node_ref vfs \<times> 'w Fs \<Rightarrow> bool" where
  "added r name fs out \<longleftrightarrow> (let (res, fs') = out; c = length (fs_nodes fs)
     in only_dir r fs fs' \<and>
        (if name \<in> dom (dir_view fs r) then res = Inl Exists \<and> dir_view fs' r = dir_view fs r
         else res = Inr c \<and> length (fs_nodes fs') = c + 1 \<and> dir_view fs' r = (dir_view fs r)(name \<mapsto> c)))"

lemma dir_add_added:
  assumes "fs_wf fs" and r: "r < length (fs_nodes fs)" and n: "node fs r = RamDir ino ch uid gid m"
    and mk: "\<And>s. fst (mk s) = length (fs_nodes s) \<and> fs_nodes (snd (mk s)) = fs_nodes s @ [new s]"
  shows "added r name fs (ram_dir_add r name mk ch fs) \<and>
    (name \<notin> dom (dir_view fs r) \<longrightarrow>
     (\<exists>s. node (snd (ram_dir_add r name mk ch fs)) (length (fs_nodes fs)) = new s))"
proof -
  obtain v ch1 where g: "hot_get (fs_busy fs) name ch = (v, ch1)" by fastforce
  have "children (node fs r) = Some ch" using n by simp
  note l = look_child [OF assms(1) r this g]
  let ?fs1 = "set_node r (with_children ch1 (node fs r)) fs"
  have dv: "dir_view fs r = hot_view ch" using n by (simp add: dir_view_def nview_def)
  show ?thesis
  proof (cases v)
    case (Some x)
    then have "ram_dir_add r name mk ch fs = (Inl Exists, ?fs1)" using g by (simp add: ram_dir_add_def)
    then show ?thesis using Some l(2,3) n r dv
      by (auto simp: added_def only_dir_def dir_view_def nth_set_node nview_def)
  next
    case None
    obtain d fs2 where m2: "mk ?fs1 = (d, fs2)" by fastforce
    then have d: "d = length (fs_nodes fs)" "fs_nodes fs2 = fs_nodes ?fs1 @ [new ?fs1]" using mk [of ?fs1] by simp_all
    have "hot_view (hot_insert (fs_busy fs2) name d ch1) = (hot_view ch)(name \<mapsto> d)"
      using l(1,2) by (simp add: hot.ins_view)
    moreover have "ram_dir_add r name mk ch fs =
        (Inr d, set_node r (with_children (hot_insert (fs_busy fs2) name d ch1) (node fs2 r)) fs2)"
      using g None m2 by (simp add: ram_dir_add_def)
    moreover have "name \<notin> dom (dir_view fs r)" using None l(3) dv by auto
    ultimately show ?thesis using d n r dv
      by (auto simp: added_def only_dir_def dir_view_def nth_set_node nview_def nth_append set_node_def)
  qed
qed

lemma new_nodes:
  "fst (ram_file_new s) = length (fs_nodes s) \<and> fs_nodes (snd (ram_file_new s)) =
     fs_nodes s @ [RamFile (next_ino s) [] (current_uid (fs_db s)) (cur_gid s) (0x1A4 AND NOT (db_umask (fs_db s)))]"
  "fst (ram_dir_new s) = length (fs_nodes s) \<and> fs_nodes (snd (ram_dir_new s)) =
     fs_nodes s @ [RamDir (next_ino s) hot_new (current_uid (fs_db s)) (cur_gid s) (0x1ED AND NOT (db_umask (fs_db s)))]"
  by (simp_all add: ram_file_new_def ram_dir_new_def alloc_ino_def new_node_def)

text \<open>C22: a directory behaves as a map from names to nodes, whether or not it has been split into shards and whatever
  the contention: lookup reads the map, creating a file or a directory under a free name adds a new empty node and
  under a taken name fails with Exists, unlink removes the name, and no other node is touched.\<close>

theorem directory_refines_map:
  assumes "fs_wf fs" and "r < length (fs_nodes fs)" and "node fs r = RamDir ino ch uid gid m"
  shows "(fst (node_lookup r name fs) = (case dir_view fs r name of Some c \<Rightarrow> Inr c | None \<Rightarrow> Inl NotFound) \<and>
      fs_same fs (snd (node_lookup r name fs))) \<and>
    (added r name fs (node_create_file r name fs) \<and> (name \<notin> dom (dir_view fs r) \<longrightarrow>
      file_data (node (snd (node_create_file r name fs)) (length (fs_nodes fs))) = Some [])) \<and>
    (added r name fs (node_mkdir r name fs) \<and> (name \<notin> dom (dir_view fs r) \<longrightarrow>
      dir_view (snd (node_mkdir r name fs)) (length (fs_nodes fs)) = Map.empty)) \<and>
    (fst (node_unlink r name fs) = (if name \<in> dom (dir_view fs r) then Inr () else Inl NotFound) \<and>
      only_dir r fs (snd (node_unlink r name fs)) \<and>
      dir_view (snd (node_unlink r name fs)) r = (dir_view fs r)(name := None))" (is "?look \<and> ?create \<and> ?mkdir \<and> ?unlink")
proof -
  obtain v ch1 where g: "hot_get (fs_busy fs) name ch = (v, ch1)" by fastforce
  have c: "children (node fs r) = Some ch" using assms(3) by simp
  note l = look_child [OF assms(1,2) c g]
  have look: ?look
    using l(3,6) assms(3) g by (auto simp: node_lookup_def dir_view_def nview_def split: option.splits)
  have create: ?create
    using dir_add_added [where mk = ram_file_new, OF assms new_nodes(1), of name] assms(3) by (auto simp: node_create_file_def)
  have mkdir: ?mkdir
    using dir_add_added [where mk = ram_dir_new, OF assms new_nodes(2), of name] assms(3)
    by (auto simp: node_mkdir_def dir_view_def nview_def hot_new_ok)
  have i: "hot_inv ch" using fs_wf_node [OF assms(1,2)] assms(3) by (simp add: refs_below_def)
  obtain x ch2 where x: "hot_remove (fs_busy fs) name ch = (x, ch2)" by fastforce
  have "hot_view ch2 = (hot_view ch)(name := None)" "x = hot_view ch name"
    using hot.del_view [OF i, of "fs_busy fs" name] hot.del_val [OF i, of "fs_busy fs" name] x by simp_all
  then have unlink: ?unlink
    using assms(2,3) x by (auto simp: node_unlink_def only_dir_def dir_view_def nview_def nth_set_node split: option.splits)
  show ?thesis using look create mkdir unlink by blast
qed

subsection \<open>Sequences of operations\<close>

text \<open>The operations of the file system on nodes and paths. A reference an operation is given was returned
  by an earlier one, and a flushed handle was opened from a node.\<close>

inductive fs_step :: "'w Devices \<Rightarrow> 'w Fs \<Rightarrow> 'w Fs \<Rightarrow> bool" for dev where
  Lookup: "vfs_lookup path fs = (res, fs') \<Longrightarrow> fs_step dev fs fs'"
| Create: "r < length (fs_nodes fs) \<Longrightarrow> checked_create_file r name fs = (res, fs') \<Longrightarrow> fs_step dev fs fs'"
| Mkdir: "r < length (fs_nodes fs) \<Longrightarrow> checked_mkdir r name fs = (res, fs') \<Longrightarrow> fs_step dev fs fs'"
| Symlink: "r < length (fs_nodes fs) \<Longrightarrow> node_create_symlink r name target fs = (res, fs') \<Longrightarrow> fs_step dev fs fs'"
| Unlink: "vfs_unlink dev path fs = (res', fs') \<Longrightarrow> fs_step dev fs fs'"
| Link: "link_node path name c fs = (res', fs') \<Longrightarrow> fs_step dev fs fs'"
| Chmod: "r < length (fs_nodes fs) \<Longrightarrow> node_set_mode r m fs = (res', fs') \<Longrightarrow> fs_step dev fs fs'"
| Chown: "r < length (fs_nodes fs) \<Longrightarrow> node_set_owner r uid gid fs = (res', fs') \<Longrightarrow> fs_step dev fs fs'"
| Mount: "r < length (fs_nodes fs) \<Longrightarrow> fs_step dev fs (mount path r fs)"
| Read: "handle_read dev bs h fs = Inr (n, bs', h', fs') \<Longrightarrow> fs_step dev fs fs'"
| Write: "handle_write dev bs h fs = Inr (n, h', fs') \<Longrightarrow> fs_step dev fs fs'"
| Flush: "(\<And>d pos ino bk uid gid m. h = RamFileHandle d pos ino bk uid gid m \<Longrightarrow> bk < length (fs_nodes fs)) \<Longrightarrow>
     fs_step dev fs (handle_flush h fs)"
| ReadFile: "read_file dev path fs = ret (v, fs') \<Longrightarrow> fs_step dev fs fs'"
| WriteFile: "write_file dev path bs fs = ret (u, fs') \<Longrightarrow> fs_step dev fs fs'"
| AppendFile: "append_file dev path bs fs = ret (u, fs') \<Longrightarrow> fs_step dev fs fs'"

inductive fs_reach :: "'w Devices \<Rightarrow> 'w Fs \<Rightarrow> 'w Fs \<Rightarrow> bool" for dev fs where
  Start: "fs_reach dev fs fs"
| Step: "fs_reach dev fs fs1 \<Longrightarrow> fs_step dev fs1 fs2 \<Longrightarrow> fs_reach dev fs fs2"

lemma evolves_nodes: "evolves a b \<Longrightarrow> evolves a (b\<lparr>fs_world := w, fs_cache := pc\<rparr>)"
  by (simp add: evolves_def keeps_nodes_def)

lemma evolves_world: "fs_wf a \<Longrightarrow> world_only a b \<Longrightarrow> evolves a b"
  by (auto simp: world_only_def evolves_def keeps_nodes_def)

lemma checked_ok:
  assumes "fs_wf fs" and "r < length (fs_nodes fs)"
  shows "checked_create_file r name fs = (res, fs') \<Longrightarrow> evolves fs fs' \<and> (\<forall>c. res = Inr c \<longrightarrow> c < length (fs_nodes fs'))"
    and "checked_mkdir r name fs = (res, fs') \<Longrightarrow> evolves fs fs'"
    and "checked_unlink r name fs = (res', fs') \<Longrightarrow> evolves fs fs'"
  using create_ok [OF assms] unlink_ok [OF assms] assms(1)
  by (auto simp: checked_create_file_def checked_mkdir_def checked_unlink_def evolves_refl split: sum.splits)

lemma read_file_evolves:
  assumes "fs_wf fs" and "read_file dev path fs = ret (v, fs')"
  shows "evolves fs fs'"
proof -
  obtain u fs1 where l: "vfs_lookup path fs = (u, fs1)" by fastforce
  note r = resolve_ok [OF assms(1) l]
  show ?thesis
  proof (cases u)
    case (Inl e)
    then show ?thesis using assms(2) l r(1) by (simp add: read_file_def)
  next
    case (Inr n)
    then have "read_node dev n fs1 = ret (v, fs')" using assms(2) l by (simp add: read_file_def)
    then show ?thesis using read_node_nodes evolves_nodes [OF r(1)] by blast
  qed
qed

lemma write_file_evolves:
  assumes "fs_wf fs" and "write_file dev path bs fs = ret (res, fs')"
  shows "evolves fs fs'"
proof -
  obtain pp name where pn: "parent_and_name path = (pp, name)" by fastforce
  obtain v fs1 where l1: "vfs_lookup pp fs = (v, fs1)" by fastforce
  note r1 = resolve_ok [OF assms(1) l1]
  have wn: "evolves x y" if "evolves x z" "write_node dev path bs r z = ret (res, y)" for r x y z
    using write_node_nodes [OF that(2)] evolves_nodes [OF that(1)] by blast
  show ?thesis
  proof (cases v)
    case (Inl e)
    then show ?thesis using assms(2) pn l1 r1(1) by (simp add: write_file_def)
  next
    case (Inr p)
    obtain u fs2 where l2: "vfs_lookup path fs1 = (u, fs2)" by fastforce
    note r2 = resolve_ok [OF evolves_wf [OF r1(1)] l2]
    have p: "p < length (fs_nodes fs2)" using evolves_valid [OF r2(1)] r1(3) [OF Inr] by blast
    obtain w fs3 where cr: "checked_create_file p name fs2 = (w, fs3)" by fastforce
    note c = checked_ok(1) [OF evolves_wf [OF r2(1)] p cr]
    have e2: "evolves fs fs2" using r1(1) r2(1) by (rule evolves_trans)
    then have e3: "evolves fs fs3" using c by (blast intro: evolves_trans)
    have "fs' = fs2 \<or> fs' = fs3 \<or> (\<exists>r. write_node dev path bs r fs2 = ret (res, fs')) \<or>
        (\<exists>r. write_node dev path bs r fs3 = ret (res, fs'))"
      using assms(2) pn l1 Inr l2 cr by (auto simp: write_file_def split: sum.splits VfsError.splits)
    then show ?thesis using e2 e3 wn by blast
  qed
qed

lemma fs_step_evolves: "fs_step dev fs fs' \<Longrightarrow> fs_wf fs \<Longrightarrow> evolves fs fs'"
proof (induction rule: fs_step.induct)
  case (Unlink path fs res' fs')
  obtain pp name where pn: "parent_and_name path = (pp, name)" by fastforce
  obtain v fs1 where l1: "vfs_lookup pp fs = (v, fs1)" by fastforce
  note r1 = resolve_ok [OF Unlink.prems l1]
  show ?case
  proof (cases v)
    case (Inl e)
    then show ?thesis using Unlink.hyps pn l1 r1(1) by (simp add: vfs_unlink_def)
  next
    case (Inr p)
    obtain w fs2 where u: "checked_unlink p name fs1 = (w, fs2)" by fastforce
    have "evolves fs fs2" using r1(1) checked_ok(3) [OF evolves_wf [OF r1(1)] r1(3) [OF Inr] u] by (rule evolves_trans)
    then show ?thesis using Unlink.hyps pn l1 Inr u by (auto simp: vfs_unlink_def evolves_other split: sum.splits)
  qed
next
  case (Link path name c fs res' fs')
  obtain v fs1 where l1: "vfs_lookup path fs = (v, fs1)" by fastforce
  show ?case using Link.hyps l1 resolve_ok(1) [OF Link.prems l1]
    by (auto simp: link_node_def node_link_child_def split: sum.splits)
next
  case (AppendFile path bs fs u fs')
  then obtain v fs1 where rd: "read_file dev path fs = ret (v, fs1)"
    by (auto simp: append_file_def obind_ret)
  then have w: "fs' = fs1 \<or> (\<exists>b. write_file dev path b fs1 = ret (u, fs'))"
    using AppendFile.hyps by (cases v) (auto simp: append_file_def split: VfsError.splits)
  have "evolves fs fs1" by (rule read_file_evolves [OF AppendFile.prems rd])
  then show ?case using w write_file_evolves evolves_wf evolves_trans by blast
next
  case (Mount r fs path)
  then show ?case by (auto simp: mount_def evolves_def keeps_nodes_def fs_wf_def Let_def)
qed (auto intro: resolve_ok(1) checked_ok(1) [THEN conjunct1] checked_ok(2) create_ok(3) [THEN conjunct1] set_attr_ok
       evolves_world [OF _ handle_read_world] evolves_world [OF _ handle_write_world] flush_ok read_file_evolves
       write_file_evolves)

lemma fs_reach_evolves: "fs_reach dev fs fs' \<Longrightarrow> fs_wf fs \<Longrightarrow> evolves fs fs'"
proof (induction rule: fs_reach.induct)
  case (Step fs1 fs2)
  then show ?case using fs_step_evolves evolves_wf evolves_trans by blast
qed (rule evolves_refl)


text \<open>C40: \<^verbatim>\<open>write_file\<close> stores nothing: whatever it returns, every file has the contents it had before, and a
  file it created is empty. The data goes into the handle's own copy, which is dropped without a flush.\<close>

theorem write_file_stores_nothing:
  assumes "fs_wf fs" and "write_file dev path bs fs = ret (res, fs')"
  shows "\<forall>r < length (fs_nodes fs').
     file_data (node fs' r) = (if r < length (fs_nodes fs) then file_data (node fs r) else Some [])"
proof -
  obtain pp name where pn: "parent_and_name path = (pp, name)" by fastforce
  obtain v fs1 where l1: "vfs_lookup pp fs = (v, fs1)" by fastforce
  note r1 = resolve_ok [OF assms(1) l1]
  have wn: "contents_after x y" if "write_node dev path bs r x = ret (res, y)" for r x y
    using write_node_nodes [OF that] by (auto simp: contents_after_def)
  have "contents_after fs fs'"
  proof (cases v)
    case (Inl e)
    then show ?thesis using assms(2) pn l1 contents_same [OF r1(2)] by (simp add: write_file_def)
  next
    case (Inr p)
    obtain u fs2 where l2: "vfs_lookup path fs1 = (u, fs2)" by fastforce
    note r2 = resolve_ok [OF evolves_wf [OF r1(1)] l2]
    have c2: "contents_after fs fs2" using contents_same [OF r1(2)] contents_same [OF r2(2)] contents_trans by blast
    have p: "p < length (fs_nodes fs2)" using evolves_valid [OF r2(1)] r1(3) [OF Inr] by blast
    obtain w fs3 where cr: "checked_create_file p name fs2 = (w, fs3)" by fastforce
    have "contents_after fs2 fs3"
      using cr create_contents [OF evolves_wf [OF r2(1)] p]
      by (auto simp: checked_create_file_def contents_after_def split: sum.splits)
    then have c3: "contents_after fs fs3" using c2 contents_trans by blast
    have "fs' = fs2 \<or> fs' = fs3 \<or> (\<exists>r. write_node dev path bs r fs2 = ret (res, fs')) \<or>
        (\<exists>r. write_node dev path bs r fs3 = ret (res, fs'))"
      using assms(2) pn l1 Inr l2 cr by (auto simp: write_file_def split: sum.splits VfsError.splits)
    then show ?thesis using c2 c3 wn contents_trans by blast
  qed
  then show ?thesis by (simp add: contents_after_def)
qed

subsection \<open>Reading a file\<close>

lemma loader_serves:
  assumes "node fs r = RamFile ino d uid gid m" and "check_perm r 4 fs = Inr ()"
  shows "serves d (\<lambda>s. s = fs) (page_loader dev r)"
  unfolding serves_def Let_def
proof (intro allI impI)
  fix off :: u64 and bs :: bytes and s
  assume "s = fs" and "length bs = 4096" and "unat off < length d"
  then show "\<exists>s'. page_loader dev r off bs s = ret (min 4096 (length d - unat off),
      take (min 4096 (length d - unat off)) (drop (unat off) d) @ drop (min 4096 (length d - unat off)) bs, s') \<and> s' = fs"
    using assms by (simp add: page_loader_def checked_open_def slice_read_def Let_def)
qed

lemma read_ram_size:
  assumes "node fs r = RamFile ino d uid gid m" and "length d \<le> 64 * 1024 * 1024"
  shows "unat (st_size (node_stat (node fs r))) = length d"
proof -
  have "length d < 2 ^ 64" using assms(2) by simp
  then show ?thesis using assms(1) by (simp only: node_stat.simps Stat.simps unat_of_nat) simp
qed


text \<open>A page of the file that is already cached is returned without a permission check: a process that may
  not read the file gets its contents.\<close>

theorem cached_read_ignores_permissions:
  assumes "vfs_lookup path fs = (Inr r, fs1)" and "node fs1 r = RamFile ino d uid gid m"
    and "0 < length d" and "length d \<le> 4096" and "check_perm r 4 fs1 = Inl PermissionDenied"
    and "page_at (fs_cache fs1) (ino, 0) = Some (file_page d 0)" and "pc_inv H (fs_cache fs1)"
  shows "\<exists>fs'. read_file dev path fs = ret (Inr d, fs')"
proof -
  obtain e where e: "bt_get (entries (fs_cache fs1)) (ino, 0) = Some e"
    and pg: "page_bytes (pc_frames (fs_cache fs1)) (phys_frame e) = file_page d 0"
    using assms(6) by (auto simp: page_at_def)
  have "phys_frame e \<in> cached (fs_cache fs1)" by (rule bt_get_cached [OF e])
  then have nz: "phys_frame e \<noteq> 0"
    using assms(7) by (auto simp: pc_inv_def pc_rep_def held_def frame_addr_ok_def block_ok_def)
  let ?bs = "replicate (length d) (0 :: u8)" and ?pc = "(fs_cache fs1)\<lparr>hits := hits (fs_cache fs1) + 1\<rparr>"
  have po: "page_off 0 = 0" and pi: "page_inner 0 = 0" by (simp_all add: page_off_def page_inner_mod)
  have g: "get_or_load_page ino 0 (page_loader dev r) (fs_cache fs1) fs1 = ret (phys_frame e, ?pc, fs1)"
    using e by (simp add: get_or_load_page_def)
  have "take (length d) (file_page d 0) = d" using assms(4) by (simp add: file_page_def)
  then have "read_bytes ino 0 ?bs (page_loader dev r) (fs_cache fs1) fs1 = ret (length d, d, ?pc, fs1)"
    unfolding read_bytes_def using assms(3,4) g nz pg
    by (subst read_loop.simps, subst read_loop.simps) (simp add: po pi Let_def min_def copy_at_def)
  then have "read_node dev r fs1 = ret (Inr d, fs1\<lparr>fs_cache := ?pc\<rparr>)"
    using assms(2-4) read_ram_size [OF assms(2)] by (simp add: read_node_def Let_def)
  then show ?thesis using assms(1) by (auto simp: read_file_def)
qed

subsection \<open>Mount points\<close>

text \<open>A mount point takes every path that starts with its characters: a file of the root directory whose name
  begins with dev is looked up among the devices.\<close>

lemma mount_captures_longer_names:
  "best_mount (''/dev'' @ x) [(''/dev'', d), (''/'', r)] = Some (''/dev'', d)"
  by (simp add: best_mount_def starts_with_def)

subsection \<open>A small file system\<close>

text \<open>A root directory with one file that only root may read, used by the process of the given user.\<close>

definition devices_example :: "unit Devices" where
  "devices_example = \<lparr>d_entropy_fill = (\<lambda>bs w. (bs, w)), d_entropy_stir = (\<lambda>_ w. w),
     d_tty_read = (\<lambda>bs w. ((0, bs), w)), d_term_write = (\<lambda>_ w. w), d_write_pcm = (\<lambda>_ w. w),
     d_wm_create = (\<lambda>_ _ _ _ _ w. w), d_wm_composite = (\<lambda>w. w), d_wm_destroy = (\<lambda>_ w. w), d_wm_flip = (\<lambda>_ w. w),
     d_wm_fill = (\<lambda>_ _ _ _ _ _ w. w), d_ahci_read = (\<lambda>_ _ _ w. (None, w)), d_ahci_write = (\<lambda>_ _ _ w. (False, w)),
     d_nvme_read = (\<lambda>_ _ _ w. (None, w)), d_nvme_write = (\<lambda>_ _ _ w. (False, w)), d_notify = (\<lambda>_ _ w. w),
     d_io_error = (\<lambda>_ _ w. w)\<rparr>"

definition fs_example :: "u32 \<Rightarrow> PageCache \<Rightarrow> unit Fs" where
  "fs_example euid pc = \<lparr>fs_nodes = [RamDir 1 (hot_insert False ''key'' 1 hot_new) 0 0 0x1C0, RamFile 2 [7, 8, 9] 0 0 0x180],
     next_ino = 3, fs_mounts = [(''/'', 0)], fs_root = Some 0, devfs_root = None,
     fs_db = db_new\<lparr>caller_euid := (\<lambda>_. Some euid)\<rparr>, fs_cache = pc, fs_ring = kring_new, fs_busy = False, fs_world = ()\<rparr>"

definition cache_example :: PageCache where
  "cache_example = (pc_new (set_page_bytes 0x2000 (file_page [7, 8, 9] 0) pmm_example_split))
     \<lparr>entries := [((2, 0), \<lparr>phys_frame = 0x2000, dirty = False\<rparr>)], lru := [(2, 0)]\<rparr>"

lemma fs_example_lookup: "vfs_lookup ''/key'' (fs_example u pc) = (Inr 1, fs_example u pc)"
  by (simp add: vfs_lookup_def resolve_def best_mount_def fs_example_def starts_with_def walk_def
      node_lookup_def hot_get_def hot_get_routed_def hot_insert_def hot_insert_routed_def hot_new_def
      set_node_def)

lemma fs_example_wf: "fs_wf (fs_example u pc)"
proof -
  have "hot_inv (hot_insert False k v hot_new)" "hot_view (hot_insert False k v hot_new) = [k \<mapsto> v]" for k and v :: node_ref
    by (simp_all add: hot.ins_inv hot.ins_view hot_new_ok)
  then show ?thesis by (simp add: fs_wf_def fs_example_def refs_below_def)
qed

lemma cache_example_inv: "pc_inv {} cache_example" "page_at cache_example (2, 0) = Some (file_page [7, 8, 9] 0)"
proof -
  have "held {} pmm_example" using pmm_example_inv by (simp add: held_def)
  moreover have "alloc_frame pmm_example = Some (0x2000, pmm_example_split)"
    using pmm_example_alloc by (simp add: alloc_frame_def)
  ultimately have "held {0x2000} pmm_example_split" by (rule held_alloc)
  then have "held {0x2000} (set_page_bytes 0x2000 (file_page [7, 8, 9] 0) pmm_example_split)"
    using set_page_held(1) by blast
  then show "pc_inv {} cache_example"
    by (simp add: pc_inv_def pc_rep_def cache_example_def pc_new_def cached_def bt_wf_def MAX_PAGES_def)
  show "page_at cache_example (2, 0) = Some (file_page [7, 8, 9] 0)"
    by (simp add: page_at_def cache_example_def pc_new_def page_bytes_set)
qed

theorem directory_refines_map_witness:
  "fst (node_lookup 0 ''key'' (fs_example 0 cache_example)) = Inr 1 \<and>
   fst (node_create_file 0 ''new'' (fs_example 0 cache_example)) = Inr 2 \<and>
   fst (node_create_file 0 ''key'' (fs_example 0 cache_example)) = Inl Exists \<and>
   dir_view (snd (node_unlink 0 ''key'' (fs_example 0 cache_example))) 0 = Map.empty"
proof -
  let ?fs = "fs_example 0 cache_example" and ?ch = "hot_insert False ''key'' 1 hot_new"
  have n: "0 < length (fs_nodes ?fs)" "node ?fs 0 = RamDir 1 ?ch 0 0 0x1C0" and len: "length (fs_nodes ?fs) = 2"
    by (simp_all add: fs_example_def)
  have v: "dir_view ?fs 0 = [''key'' \<mapsto> 1]"
    by (simp add: dir_view_def nview_def n(2) hot.ins_view hot_new_ok)
  note d = directory_refines_map [OF fs_example_wf n]
  show ?thesis using d [of "''key''"] d [of "''new''"] v len by (auto simp: added_def)
qed


theorem write_file_stores_nothing_witness:
  "\<exists>fs'. write_file devices_example ''/key'' [1, 2] (fs_example 0 (pc_new pmm_example)) = ret (Inr (), fs') \<and>
     file_data (node fs' 1) = Some [7, 8, 9]"
proof -
  let ?fs = "fs_example 0 (pc_new pmm_example)"
  have "vfs_lookup ''/'' ?fs = (Inr 0, ?fs)"
    by (simp add: vfs_lookup_def resolve_def best_mount_def fs_example_def starts_with_def walk_def)
  moreover have "write_node devices_example ''/key'' [1, 2] 1 ?fs = ret (Inr (), ?fs)"
    by (subst write_node_def, subst write_all.simps, subst write_all.simps)
      (simp add: fs_example_def checked_open_def check_perm_def current_uid_def db_new_def invalidate_def pc_new_def ram_write_def
       devices_example_def Let_def)
  ultimately have w: "write_file devices_example ''/key'' [1, 2] ?fs = ret (Inr (), ?fs)"
    by (simp add: write_file_def parent_and_name_def rfind_char_def find_char_def fs_example_lookup)
  then show ?thesis using write_file_stores_nothing [OF fs_example_wf w] by (auto simp: fs_example_def)
qed


theorem cached_read_ignores_permissions_witness:
  "check_perm 1 4 (fs_example 1000 cache_example) = Inl PermissionDenied \<and>
   (\<exists>fs'. read_file devices_example ''/key'' (fs_example 1000 cache_example) = ret (Inr [7, 8, 9], fs'))"
proof -
  have p: "check_perm 1 4 (fs_example 1000 cache_example) = Inl PermissionDenied"
    by (simp add: fs_example_def check_perm_def current_uid_def db_new_def get_user_def)
  then show ?thesis
    using cached_read_ignores_permissions [OF fs_example_lookup _ _ _ p, where dev = devices_example] cache_example_inv
    by (simp add: fs_example_def)
qed

end
