(* ===== verification/Users.thy ===== *)
theory Users
  imports Vfs_Props
begin

section \<open>Accounts and the files under /etc\<close>

text \<open>
  The part of \<^verbatim>\<open>users.rs\<close> that works on the file system: boot-time accounts, adding and removing
  users, changing passwords, and the files under \<^verbatim>\<open>/etc\<close> that repeat the database. The database is
  the field \<open>fs_db\<close> of the file system state, so one state carries both. The closing lemmas show
  that the files follow the database and that a password just set is refused.
\<close>

subsection \<open>The files under /etc\<close>

definition generate_passwd :: "UserDb \<Rightarrow> bytes" where
  "generate_passwd db =
     concat (map (\<lambda>u. str_bytes (username u @ '':x:'' @ show_dec (uint (u_uid u)) @ '':'' @ show_dec (uint (u_gid u)) @
       ''::/'' @ u_home u @ '':'' @ u_shell u @ [CHR 0x0A])) (users db))"

definition generate_group :: "UserDb \<Rightarrow> bytes" where
  "generate_group db =
     concat (map (\<lambda>g. str_bytes (g_name g @ '':x:'' @ show_dec (uint (g_gid g)) @ '':'' @
       join_with '','' (g_members g) @ [CHR 0x0A])) (groups db))"

definition generate_shadow :: "UserDb \<Rightarrow> bytes" where
  "generate_shadow db =
     concat (map (\<lambda>s. str_bytes (sh_username s @ '':'' @ sh_hash s @ '':0:0:99999:7:::'' @ [CHR 0x0A])) (shadow db))"

definition write_etc_file :: "'w Devices \<Rightarrow> string \<Rightarrow> bytes \<Rightarrow> 'w Fs \<Rightarrow> 'w Fs rust" where
  "write_etc_file dev name content fs =
     (case vfs_lookup ''/etc'' fs of
        (Inl _, fs1) \<Rightarrow> Inr fs1
      | (Inr etc, fs1) \<Rightarrow>
          (case node_create_file etc name fs1 of
             (Inl _, fs2) \<Rightarrow> Inr fs2
           | (Inr n, fs2) \<Rightarrow>
               (case node_open n fs2 (node fs2 n) of
                  Inl _ \<Rightarrow> Inr fs2
                | Inr fh \<Rightarrow>
                    (case handle_write dev content fh fs2 of
                       Inl p \<Rightarrow> Inl p
                     | Inr (_, fh1, fs3) \<Rightarrow> Inr (handle_flush fh1 fs3)))))"

fun write_etc_files :: "'w Devices \<Rightarrow> (string \<times> bytes) list \<Rightarrow> 'w Fs \<Rightarrow> 'w Fs rust" where
  "write_etc_files dev [] fs = Inr fs"
| "write_etc_files dev ((name, content) # rest) fs =
     (case write_etc_file dev name content fs of Inl p \<Rightarrow> Inl p | Inr fs1 \<Rightarrow> write_etc_files dev rest fs1)"

definition MOTD :: string where
  "MOTD = ''Welcome to NodeAI - AI-Integrated Kernel OS'' @ [CHR 0x0A] @ ''Type '' @ [CHR 0x27] @ ''help'' @ [CHR 0x27] @
     '' for available commands.'' @ [CHR 0x0A]"

definition SUDOERS :: string where
  "SUDOERS = ''# /etc/sudoers - NodeAI sudo configuration'' @ [CHR 0x0A] @ ''root ALL=(ALL) ALL'' @ [CHR 0x0A] @
     ''%sudo ALL=(ALL) ALL'' @ [CHR 0x0A]"

definition populate_etc_files :: "'w Devices \<Rightarrow> 'w Fs \<Rightarrow> 'w Fs rust" where
  "populate_etc_files dev fs =
     (let fs1 = (case vfs_lookup ''/'' fs of
                   (Inl _, s) \<Rightarrow> s
                 | (Inr root, s) \<Rightarrow>
                     snd (node_mkdir root ''home'' (snd (node_mkdir root ''root'' (snd (node_mkdir root ''etc'' s))))));
          db = fs_db fs1
      in write_etc_files dev
           [(''passwd'', generate_passwd db), (''group'', generate_group db), (''shadow'', generate_shadow db),
            (''hostname'', str_bytes (''nodeai'' @ [CHR 0x0A])), (''motd'', str_bytes MOTD),
            (''sudoers'', str_bytes SUDOERS)] fs1)"

definition refresh_etc_files :: "'w Devices \<Rightarrow> 'w Fs \<Rightarrow> 'w Fs rust" where
  "refresh_etc_files dev fs =
     (case vfs_lookup ''/etc'' fs of
        (Inl _, fs1) \<Rightarrow> Inr fs1
      | (Inr etc, fs1) \<Rightarrow>
          (let fs2 = snd (node_unlink etc ''shadow'' (snd (node_unlink etc ''group'' (snd (node_unlink etc ''passwd'' fs1)))));
               db = fs_db fs2
           in write_etc_files dev
                [(''passwd'', generate_passwd db), (''group'', generate_group db), (''shadow'', generate_shadow db)] fs2))"

definition create_home_dirs :: "'w Fs \<Rightarrow> 'w Fs" where
  "create_home_dirs fs =
     (case vfs_lookup ''/home'' fs of
        (Inl _, fs1) \<Rightarrow> fs1
      | (Inr home, fs1) \<Rightarrow> snd (node_mkdir home ''nodeai'' fs1))"

subsection \<open>Accounts\<close>

definition default_accounts :: "UserDb \<Rightarrow> UserDb" where
  "default_accounts db = db\<lparr>
     groups := groups db @
       [\<lparr>g_name = ''root'', g_gid = 0, g_members = []\<rparr>, \<lparr>g_name = ''nodeai'', g_gid = 1000, g_members = []\<rparr>,
        \<lparr>g_name = ''nobody'', g_gid = 65534, g_members = []\<rparr>, \<lparr>g_name = ''sudo'', g_gid = 27, g_members = [''nodeai'']\<rparr>],
     users := users db @
       [\<lparr>username = ''root'', u_uid = 0, u_gid = 0, u_home = ''/root'', u_shell = ''/bin/sh''\<rparr>,
        \<lparr>username = ''nodeai'', u_uid = 1000, u_gid = 1000, u_home = ''/home/nodeai'', u_shell = ''/bin/sh''\<rparr>,
        \<lparr>username = ''nobody'', u_uid = 65534, u_gid = 65534, u_home = ''/nonexistent'', u_shell = ''/bin/false''\<rparr>],
     shadow := shadow db @
       [\<lparr>sh_username = ''root'', sh_hash = hash_password ''root''\<rparr>,
        \<lparr>sh_username = ''nodeai'', sh_hash = hash_password ''nodeai''\<rparr>]\<rparr>"

definition on_db :: "(UserDb \<Rightarrow> UserDb) \<Rightarrow> 'w Fs \<Rightarrow> 'w Fs" where
  "on_db f fs = fs\<lparr>fs_db := f (fs_db fs)\<rparr>"

definition users_init :: "'w Devices \<Rightarrow> 'w Fs \<Rightarrow> 'w Fs rust" where
  "users_init dev fs =
     (case populate_etc_files dev (on_db (\<lambda>db. set_cwd ''/'' (default_accounts db)) fs) of
        Inl p \<Rightarrow> Inl p
      | Inr fs1 \<Rightarrow> Inr (on_db (set_hostname ''nodeai'') (create_home_dirs fs1)))"

definition next_uid :: "User list \<Rightarrow> Uid" where
  "next_uid us =
     (let uid = (if us = [] then 999 else Max (set (map u_uid us))) + 1
      in if uid < 1000 then 1000 else uid)"

definition add_account :: "string \<Rightarrow> Uid \<Rightarrow> UserDb \<Rightarrow> UserDb" where
  "add_account name uid db = db\<lparr>
     users := users db @ [\<lparr>username = name, u_uid = uid, u_gid = uid, u_home = ''/home/'' @ name, u_shell = ''/bin/sh''\<rparr>],
     groups := groups db @ [\<lparr>g_name = name, g_gid = uid, g_members = [name]\<rparr>],
     shadow := shadow db @ [\<lparr>sh_username = name, sh_hash = ''!''\<rparr>]\<rparr>"

definition useradd :: "'w Devices \<Rightarrow> string \<Rightarrow> 'w Fs \<Rightarrow> ((string + Uid) \<times> 'w Fs) rust" where
  "useradd dev name fs =
     (if \<exists>u \<in> set (users (fs_db fs)). username u = name then Inr (Inl ''user already exists'', fs)
      else let uid = next_uid (users (fs_db fs));
               fs1 = on_db (add_account name uid) fs;
               fs2 = (case vfs_lookup ''/home'' fs1 of
                        (Inl _, s) \<Rightarrow> s | (Inr home, s) \<Rightarrow> snd (node_mkdir home name s))
           in case refresh_etc_files dev fs2 of Inl p \<Rightarrow> Inl p | Inr fs3 \<Rightarrow> Inr (Inr uid, fs3))"

definition remove_account :: "string \<Rightarrow> UserDb \<Rightarrow> UserDb" where
  "remove_account name db = db\<lparr>
     users := filter (\<lambda>u. username u \<noteq> name) (users db),
     shadow := filter (\<lambda>s. sh_username s \<noteq> name) (shadow db),
     groups := filter (\<lambda>g. g_name g \<noteq> name)
       (map (\<lambda>g. g\<lparr>g_members := filter (\<lambda>x. x \<noteq> name) (g_members g)\<rparr>) (groups db))\<rparr>"

definition userdel :: "'w Devices \<Rightarrow> string \<Rightarrow> 'w Fs \<Rightarrow> ((string + unit) \<times> 'w Fs) rust" where
  "userdel dev name fs =
     (if name = ''root'' then Inr (Inl ''cannot delete root'', fs)
      else if length (filter (\<lambda>u. username u \<noteq> name) (users (fs_db fs))) = length (users (fs_db fs))
      then Inr (Inl ''user not found'', fs)
      else case refresh_etc_files dev (on_db (remove_account name) fs) of
             Inl p \<Rightarrow> Inl p | Inr fs1 \<Rightarrow> Inr (Inr (), fs1))"

fun set_hash :: "string \<Rightarrow> string \<Rightarrow> ShadowEntry list \<Rightarrow> ShadowEntry list option" where
  "set_hash name h [] = None"
| "set_hash name h (s # rest) =
     (if sh_username s = name then Some (s\<lparr>sh_hash := h\<rparr> # rest)
      else map_option ((#) s) (set_hash name h rest))"

definition change_password :: "'w Devices \<Rightarrow> string \<Rightarrow> string \<Rightarrow> 'w Fs \<Rightarrow> ((string + unit) \<times> 'w Fs) rust" where
  "change_password dev name new_password fs =
     (case set_hash name (hash_password new_password) (shadow (fs_db fs)) of
        None \<Rightarrow> Inr (Inl ''user not found'', fs)
      | Some sh \<Rightarrow>
          (case refresh_etc_files dev (on_db (\<lambda>db. db\<lparr>shadow := sh\<rparr>) fs) of
             Inl p \<Rightarrow> Inl p | Inr fs1 \<Rightarrow> Inr (Inr (), fs1)))"

subsection \<open>Lookups after changes elsewhere\<close>

text \<open>A later state of the file system in which no directory entry was lost or redirected, but for the names in \<open>S\<close>.\<close>

definition keeps_found :: "string set \<Rightarrow> 'w Fs \<Rightarrow> 'w Fs \<Rightarrow> bool" where
  "keeps_found S fs fs' \<longleftrightarrow> fs_mounts fs' = fs_mounts fs \<and> keeps_nodes fs fs' \<and>
     (\<forall>r < length (fs_nodes fs). \<forall>name c. name \<notin> S \<longrightarrow> dir_view fs r name = Some c \<longrightarrow> dir_view fs' r name = Some c)"

lemma found_refl [simp]: "keeps_found S fs fs"
  by (simp add: keeps_found_def)

lemma found_trans: "keeps_found S a b \<Longrightarrow> keeps_found S b c \<Longrightarrow> keeps_found S a c"
  by (auto simp: keeps_found_def keeps_nodes_def)

lemma found_mono: "keeps_found S a b \<Longrightarrow> S \<subseteq> T \<Longrightarrow> keeps_found T a b"
  by (auto simp: keeps_found_def)

lemma found_same:
  assumes "fs_same a b"
  shows "keeps_found S a b" and "keeps_found S b a"
proof -
  have "shape (node b r) = shape (node a r) \<and> dir_view b r = dir_view a r" if "r < length (fs_nodes a)" for r
    using fs_same_nview [OF assms that] nview_shape [OF fs_same_nview [OF assms that]] by (simp add: dir_view_def)
  then show "keeps_found S a b" and "keeps_found S b a"
    using fs_same_length [OF assms] fs_same_fields(2) [OF assms] by (auto simp: keeps_found_def keeps_nodes_def)
qed

lemma lookup_result:
  assumes "fs_wf fs" and "r < length (fs_nodes fs)"
  shows "fst (node_lookup r name fs) = Inr c \<longleftrightarrow> dir_view fs r name = Some c"
proof (cases "children (node fs r)")
  case (Some ch)
  obtain v ch1 where g: "hot_get (fs_busy fs) name ch = (v, ch1)" by fastforce
  note l = look_child [OF assms Some g]
  show ?thesis using Some g l(3) by (auto simp: node_lookup_def dir_view_def nview_def Let_def split: option.splits)
qed (simp add: node_lookup_def dir_view_def nview_def)

lemma dir_view_below: "fs_wf fs \<Longrightarrow> r < length (fs_nodes fs) \<Longrightarrow> dir_view fs r name = Some c \<Longrightarrow> c < length (fs_nodes fs)"
  using fs_wf_node [of fs r] by (auto simp: refs_below_def dir_view_def nview_def ran_def split: option.splits)

lemma walk_found:
  assumes "fs_wf a" and "fs_wf b" and "keeps_found S a b" and "r < length (fs_nodes a)" and "set names \<inter> S = {}"
    and "fst (walk_components names r a) = Inr x"
  shows "fst (walk_components names r b) = Inr x"
  using assms
proof (induction names arbitrary: r a b)
  case (Cons c names)
  show ?case
  proof (cases "c = ''.'' \<or> c = ''..''")
    case True
    then show ?thesis using Cons.IH [OF Cons.prems(1-4)] Cons.prems(5,6) by auto
  next
    case False
    obtain v a1 where la: "node_lookup r c a = (v, a1)" by fastforce
    then obtain r1 where v: "v = Inr r1" using Cons.prems(6) False by (auto split: sum.splits)
    have rb: "r < length (fs_nodes b)" using Cons.prems(3,4) by (auto simp: keeps_found_def keeps_nodes_def)
    have "dir_view b r c = Some r1"
      using la v lookup_result [OF Cons.prems(1,4), of c r1] Cons.prems(3,4,5) by (simp add: keeps_found_def)
    then obtain b1 where lb: "node_lookup r c b = (Inr r1, b1)"
      using lookup_result [OF Cons.prems(2) rb] by (metis prod.collapse)
    note ka = lookup_ok [OF Cons.prems(1,4) la] and kb = lookup_ok [OF Cons.prems(2) rb lb]
    have "keeps_found S a1 b1"
      using Cons.prems(3) found_same(2) [OF ka(2)] found_same(1) [OF kb(2)] found_trans by blast
    then have "fst (walk_components names r1 b1) = Inr x"
      using Cons.IH [OF evolves_wf [OF ka(1)] evolves_wf [OF kb(1)] _ ka(3) [OF v]] Cons.prems(5,6) False la v by simp
    then show ?thesis using False lb by simp
  qed
qed simp

text \<open>The components of a path below a mount are pieces of the path.\<close>

definition path_pieces :: "string \<Rightarrow> string set" where
  "path_pieces path = (\<Union>k \<le> length path. set (split_char (CHR ''/'') (drop k path)))"

lemma resolve_found:
  assumes "fs_wf a" and "fs_wf b" and "keeps_found S a b" and "path_pieces path \<inter> S = {}"
    and "fst (vfs_lookup path a) = Inr x"
  shows "fst (vfs_lookup path b) = Inr x"
proof -
  obtain mp root where m: "best_mount path (fs_mounts a) = Some (mp, root)"
    using assms(5) by (auto simp: vfs_lookup_def resolve_def split: option.splits)
  note in_m = best_mount_in [OF m]
  have root: "root < length (fs_nodes a)" using in_m assms(1) by (auto simp: fs_wf_def Let_def)
  have "take (length mp) path = mp" using in_m by (simp add: starts_with_def)
  then have "length mp \<le> length path" by (metis length_take min.cobounded1)
  then have "set (filter (\<lambda>s. s \<noteq> []) (split_char (CHR ''/'') (drop (length mp) path))) \<inter> S = {}"
    using assms(4) by (auto simp: path_pieces_def)
  then show ?thesis using walk_found [OF assms(1-3) root] m assms(3,5)
    by (simp add: vfs_lookup_def resolve_def walk_def keeps_found_def)
qed

subsection \<open>Writing one file of /etc\<close>

lemma nview_ram_dir: "nview n = nview (RamDir ino ch uid gid m) \<Longrightarrow> \<exists>ch'. n = RamDir ino ch' uid gid m"
  by (cases n) (auto simp: nview_def)

lemma nview_file_data: "fst (nview n) = fst (nview n') \<Longrightarrow> file_data n = file_data n'"
  by (cases n; cases n') (auto simp: nview_def)

lemma create_fields:
  "fs_mounts (snd (node_create_file r name fs)) = fs_mounts fs" "fs_db (snd (node_create_file r name fs)) = fs_db fs"
  "fs_mounts (snd (node_unlink r name fs)) = fs_mounts fs" "fs_db (snd (node_unlink r name fs)) = fs_db fs"
  "fs_mounts (snd (node_mkdir r name fs)) = fs_mounts fs" "fs_db (snd (node_mkdir r name fs)) = fs_db fs"
  by (auto simp: node_create_file_def node_mkdir_def node_unlink_def ram_dir_add_def ram_file_new_def ram_dir_new_def
      alloc_ino_def new_node_def Let_def split: Node.splits option.splits prod.splits)

text \<open>A state after a change of the directory \<open>r\<close> at the names in \<open>S\<close>: the accounts and the old files are as before.\<close>

definition dir_change :: "string set \<Rightarrow> node_ref \<Rightarrow> 'w Fs \<Rightarrow> 'w Fs \<Rightarrow> bool" where
  "dir_change S r fs fs' \<longleftrightarrow> fs_wf fs' \<and> keeps_found S fs fs' \<and> fs_db fs' = fs_db fs \<and>
     (\<exists>ino ch uid gid m. node fs' r = RamDir ino ch uid gid m) \<and>
     (\<forall>c < length (fs_nodes fs). file_data (node fs' c) = file_data (node fs c))"

lemma dir_change_trans:
  assumes "dir_change S r a b" and "dir_change T r b c"
  shows "dir_change (S \<union> T) r a c"
proof -
  have "length (fs_nodes a) \<le> length (fs_nodes b)" using assms(1) by (simp add: dir_change_def keeps_found_def keeps_nodes_def)
  moreover have "keeps_found (S \<union> T) a c"
    using assms found_mono [of S a b "S \<union> T"] found_mono [of T b c "S \<union> T"] found_trans by (auto simp: dir_change_def)
  ultimately show ?thesis using assms by (auto simp: dir_change_def)
qed

lemma only_dir_change:
  assumes "only_dir r fs fs'" and "evolves fs fs'" and "r < length (fs_nodes fs)" and "node fs r = RamDir ino ch uid gid m"
    and "fs_mounts fs' = fs_mounts fs" and "fs_db fs' = fs_db fs"
    and "\<forall>name. name \<notin> S \<longrightarrow> dir_view fs' r name = dir_view fs r name"
  shows "dir_change S r fs fs'"
proof -
  have f: "fst (nview (node fs' c)) = fst (nview (node fs c))" if "c < length (fs_nodes fs)" for c
    using assms(1) that by (cases "c = r") (auto simp: only_dir_def)
  have "\<exists>ino ch uid gid m. node fs' r = RamDir ino ch uid gid m"
    using f [OF assms(3)] assms(4) by (cases "node fs' r") (auto simp: nview_def)
  moreover have "dir_view fs' c name = dir_view fs c name" if "c < length (fs_nodes fs)" "name \<notin> S" for c name
    using assms(1,7) that by (cases "c = r") (auto simp: only_dir_def dir_view_def)
  ultimately show ?thesis using assms(2,5,6) nview_file_data [OF f] by (auto simp: dir_change_def keeps_found_def evolves_def)
qed

lemma same_change:
  assumes "fs_same fs fs'" and "evolves fs fs'" and "r < length (fs_nodes fs)" and "node fs r = RamDir ino ch uid gid m"
  shows "dir_change {} r fs fs'" and "dir_view fs' r = dir_view fs r"
proof -
  note v = fs_same_nview [OF assms(1)]
  show d: "dir_view fs' r = dir_view fs r" using v [OF assms(3)] by (simp add: dir_view_def)
  have "only_dir r fs fs'" using v fs_same_length [OF assms(1)] assms(3) by (simp add: only_dir_def)
  then show "dir_change {} r fs fs'"
    using assms d fs_same_fields [OF assms(1)] by (intro only_dir_change) auto
qed

lemma create_change:
  assumes "fs_wf fs" and r: "r < length (fs_nodes fs)" and n: "node fs r = RamDir ino ch uid gid m"
    and "name \<notin> dom (dir_view fs r)" and "c = length (fs_nodes fs)"
  shows "\<exists>fs' i u g p. node_create_file r name fs = (Inr c, fs') \<and> dir_change {name} r fs fs' \<and>
     length (fs_nodes fs') = c + 1 \<and> dir_view fs' r = (dir_view fs r)(name \<mapsto> c) \<and> node fs' c = RamFile i [] u g p"
proof -
  obtain res fs' where eq: "node_create_file r name fs = (res, fs')" by fastforce
  note a = dir_add_added [where mk = ram_file_new, OF assms(1-3) new_nodes(1), of name]
  have ad: "ram_dir_add r name ram_file_new ch fs = (res, fs')" using eq n by (simp add: node_create_file_def)
  then have c: "res = Inr c" "length (fs_nodes fs') = c + 1" "dir_view fs' r = (dir_view fs r)(name \<mapsto> c)" "only_dir r fs fs'"
    and k: "\<exists>i u g p. node fs' c = RamFile i [] u g p" using a assms(4,5) by (auto simp: added_def)
  have "dir_change {name} r fs fs'"
    by (rule only_dir_change [OF c(4) _ r n])
      (use create_ok(1) [OF assms(1) r eq] create_fields [of r name fs] eq c(3) in auto)
  then show ?thesis using eq c k by blast
qed

lemma unlink_change:
  assumes "fs_wf fs" and r: "r < length (fs_nodes fs)" and n: "node fs r = RamDir ino ch uid gid m"
  shows "dir_change {name} r fs (snd (node_unlink r name fs))"
    and "dir_view (snd (node_unlink r name fs)) r = (dir_view fs r)(name := None)"
proof -
  obtain res fs' where eq: "node_unlink r name fs = (res, fs')" by fastforce
  have i: "hot_inv ch" using fs_wf_node [OF assms(1,2)] n by (simp add: refs_below_def)
  obtain x ch2 where x: "hot_remove (fs_busy fs) name ch = (x, ch2)" by fastforce
  have "hot_view ch2 = (hot_view ch)(name := None)" using hot.del_view [OF i, of "fs_busy fs" name] x by simp
  moreover have "fs' = set_node r (RamDir ino ch2 uid gid m) fs"
    using n x eq by (auto simp: node_unlink_def Let_def split: option.splits)
  ultimately have d: "only_dir r fs fs' \<and> dir_view fs' r = (dir_view fs r)(name := None)"
    using r n by (auto simp: only_dir_def dir_view_def nview_def nth_set_node)
  then show "dir_view (snd (node_unlink r name fs)) r = (dir_view fs r)(name := None)" using eq by simp
  have "dir_change {name} r fs fs'"
    by (rule only_dir_change [OF _ unlink_ok [OF assms(1,2) eq] r n])
      (use d create_fields [of r name fs] eq in auto)
  then show "dir_change {name} r fs (snd (node_unlink r name fs))" using eq by simp
qed

lemma fresh_data_change:
  assumes "dir_change S r fs fs'" and "r < length (fs_nodes fs)" and "length (fs_nodes fs) \<le> c" and "c < length (fs_nodes fs')"
    and "node fs' c = RamFile i d u g p"
  shows "dir_change S r fs (set_node c (RamFile i d' u g p) fs')"
proof -
  have "fs_wf (set_node c (RamFile i d' u g p) fs')"
    using assms(1) by (intro set_node_wf) (simp_all add: dir_change_def)
  then show ?thesis using assms by (auto simp: dir_change_def keeps_found_def keeps_nodes_def dir_view_def nth_set_node)
qed

lemma write_etc_file_ok:
  assumes "fs_wf fs" and l: "fst (vfs_lookup ''/etc'' fs) = Inr r" and n: "node fs r = RamDir ino ch uid gid m"
    and "name \<notin> dom (dir_view fs r)" and "length content < 2 ^ 63" and "c = length (fs_nodes fs)"
  shows "\<exists>fs'. write_etc_file dev name content fs = Inr fs' \<and> dir_change {name} r fs fs' \<and>
     length (fs_nodes fs') = c + 1 \<and> dir_view fs' r = (dir_view fs r)(name \<mapsto> c) \<and> file_data (node fs' c) = Some content"
proof -
  obtain fs1 where l1: "vfs_lookup ''/etc'' fs = (Inr r, fs1)" using l by (cases "vfs_lookup ''/etc'' fs") auto
  note k = resolve_ok [OF assms(1) l1]
  have len: "length (fs_nodes fs1) = c" using fs_same_length [OF k(2)] assms(6) by simp
  have r: "r < length (fs_nodes fs)" using k(3) [OF refl] len assms(6) by simp
  note s = same_change [OF k(2,1) r n]
  obtain ch1 where n1: "node fs1 r = RamDir ino ch1 uid gid m"
    using nview_ram_dir fs_same_nview [OF k(2) r] n by metis
  have "name \<notin> dom (dir_view fs1 r)" using s(2) assms(4) by simp
  from create_change [OF evolves_wf [OF k(1)] _ n1 this len [symmetric]] r len assms(6)
  obtain fs2 i u g p where c: "node_create_file r name fs1 = (Inr c, fs2)" "dir_change {name} r fs1 fs2"
    "length (fs_nodes fs2) = c + 1" "dir_view fs2 r = (dir_view fs1 r)(name \<mapsto> c)" "node fs2 c = RamFile i [] u g p"
    by auto
  let ?fs3 = "set_node c (RamFile i content u g p) fs2"
  have w: "write_etc_file dev name content fs = Inr ?fs3"
    using l1 c(1,5) assms(5) by (simp add: write_etc_file_def ram_write_def copy_at_def)
  have "dir_change ({} \<union> {name}) r fs fs2" by (rule dir_change_trans [OF s(1) c(2)])
  then have "dir_change {name} r fs ?fs3" using c(3,5) r assms(6) by (intro fresh_data_change) auto
  moreover have "dir_view ?fs3 r = (dir_view fs r)(name \<mapsto> c)"
    using c(3,4) s(2) r assms(6) by (simp add: dir_view_def nth_set_node)
  moreover have "file_data (node ?fs3 c) = Some content" using c(3) by (simp add: nth_set_node)
  ultimately show ?thesis using w c(3) by auto
qed

subsection \<open>The files follow the database\<close>

definition etc_holds :: "'w Fs \<Rightarrow> node_ref \<Rightarrow> string \<Rightarrow> bytes \<Rightarrow> bool" where
  "etc_holds fs r name content \<longleftrightarrow> (\<exists>c. dir_view fs r name = Some c \<and> file_data (node fs c) = Some content)"

lemma etc_pieces: "path_pieces ''/etc'' = {[], ''etc'', ''tc'', ''c''}"
  by (simp add: path_pieces_def atMost_Suc insert_commute)

lemma change_keeps:
  assumes "dir_change S r fs fs'" and "fs_wf fs" and "r < length (fs_nodes fs)" and "S \<inter> path_pieces ''/etc'' = {}"
  shows "fs_wf fs'" and "r < length (fs_nodes fs')" and "fst (vfs_lookup ''/etc'' fs) = Inr r \<Longrightarrow> fst (vfs_lookup ''/etc'' fs') = Inr r"
    and "name \<notin> S \<Longrightarrow> etc_holds fs r name content \<Longrightarrow> etc_holds fs' r name content"
proof -
  show wf: "fs_wf fs'" and "r < length (fs_nodes fs')"
    using assms(1,3) by (auto simp: dir_change_def keeps_found_def keeps_nodes_def)
  show "fst (vfs_lookup ''/etc'' fs) = Inr r \<Longrightarrow> fst (vfs_lookup ''/etc'' fs') = Inr r"
    using resolve_found [OF assms(2) wf] assms(1,4) by (auto simp: dir_change_def)
  show "etc_holds fs' r name content" if "name \<notin> S" and "etc_holds fs r name content"
    using that assms dir_view_below [OF assms(2,3)] by (fastforce simp: etc_holds_def dir_change_def keeps_found_def)
qed

lemma write_etc_files_ok:
  assumes "fs_wf fs" and "r < length (fs_nodes fs)" and "fst (vfs_lookup ''/etc'' fs) = Inr r"
    and "\<exists>ino ch uid gid m. node fs r = RamDir ino ch uid gid m"
    and "distinct (map fst files)" and "fst ` set files \<inter> path_pieces ''/etc'' = {}"
    and "\<forall>(name, content) \<in> set files. dir_view fs r name = None \<and> length content < 2 ^ 63"
  shows "\<exists>fs'. write_etc_files dev files fs = Inr fs' \<and> dir_change (fst ` set files) r fs fs' \<and>
     (\<forall>(name, content) \<in> set files. etc_holds fs' r name content)"
  using assms
proof (induction files arbitrary: fs)
  case Nil
  then show ?case by (auto simp: dir_change_def)
next
  case (Cons f files)
  obtain name content where f: "f = (name, content)" by (cases f)
  obtain ino ch uid gid m where n: "node fs r = RamDir ino ch uid gid m" using Cons.prems(4) by blast
  have fresh: "name \<notin> dom (dir_view fs r)" and small: "length content < 2 ^ 63" using Cons.prems(7) f by auto
  from write_etc_file_ok [OF Cons.prems(1,3) n fresh small refl]
  obtain fs1 where w: "write_etc_file dev name content fs = Inr fs1" "dir_change {name} r fs fs1"
    "dir_view fs1 r = (dir_view fs r)(name \<mapsto> length (fs_nodes fs))" "file_data (node fs1 (length (fs_nodes fs))) = Some content"
    by blast
  have off: "{name} \<inter> path_pieces ''/etc'' = {}" using Cons.prems(6) f by auto
  note k = change_keeps [OF w(2) Cons.prems(1,2) off]
  have nn: "name \<notin> fst ` set files" using Cons.prems(5) f by simp
  have held1: "etc_holds fs1 r name content" using w(3,4) by (simp add: etc_holds_def)
  have "\<exists>fs'. write_etc_files dev files fs1 = Inr fs' \<and> dir_change (fst ` set files) r fs1 fs' \<and>
     (\<forall>(name, content) \<in> set files. etc_holds fs' r name content)"
  proof (rule Cons.IH [OF k(1,2) k(3) [OF Cons.prems(3)]])
    show "\<exists>ino ch uid gid m. node fs1 r = RamDir ino ch uid gid m" using w(2) by (simp add: dir_change_def)
    show "\<forall>(nm, ct) \<in> set files. dir_view fs1 r nm = None \<and> length ct < 2 ^ 63"
    proof (clarify)
      fix nm ct assume in_files: "(nm, ct) \<in> set files"
      then have "nm \<noteq> name" using nn by force
      then show "dir_view fs1 r nm = None \<and> length ct < 2 ^ 63" using Cons.prems(7) w(3) in_files by auto
    qed
  qed (use Cons.prems(5,6) f in auto)
  then obtain fs' where r': "write_etc_files dev files fs1 = Inr fs'" "dir_change (fst ` set files) r fs1 fs'"
    "\<forall>(name, content) \<in> set files. etc_holds fs' r name content" by blast
  have "fst ` set files \<inter> path_pieces ''/etc'' = {}" using Cons.prems(6) by auto
  then have "etc_holds fs' r name content" using change_keeps(4) [OF r'(2) k(1,2) _ nn held1] by blast
  then have "\<forall>(name, content) \<in> set (f # files). etc_holds fs' r name content" using r'(3) f by simp
  moreover have "write_etc_files dev (f # files) fs = Inr fs'" using w(1) r'(1) f by simp
  moreover have "dir_change (fst ` set (f # files)) r fs fs'"
    using dir_change_trans [OF w(2) r'(2)] f by (simp add: insert_is_Un [symmetric])
  ultimately show ?case by blast
qed

definition etc_repeats :: "'w Fs \<Rightarrow> node_ref \<Rightarrow> bool" where
  "etc_repeats fs r \<longleftrightarrow> etc_holds fs r ''passwd'' (generate_passwd (fs_db fs)) \<and>
     etc_holds fs r ''group'' (generate_group (fs_db fs)) \<and> etc_holds fs r ''shadow'' (generate_shadow (fs_db fs))"

definition db_small :: "UserDb \<Rightarrow> bool" where
  "db_small db \<longleftrightarrow> length (generate_passwd db) < 2 ^ 63 \<and> length (generate_group db) < 2 ^ 63 \<and>
     length (generate_shadow db) < 2 ^ 63"

lemma refresh_ok:
  assumes "fs_wf fs" and l: "fst (vfs_lookup ''/etc'' fs) = Inr r" and n: "node fs r = RamDir ino ch uid gid m"
    and "db_small (fs_db fs)"
  shows "\<exists>fs'. refresh_etc_files dev fs = Inr fs' \<and> dir_change {''passwd'', ''group'', ''shadow''} r fs fs' \<and> etc_repeats fs' r"
proof -
  obtain fs1 where l1: "vfs_lookup ''/etc'' fs = (Inr r, fs1)" using l by (cases "vfs_lookup ''/etc'' fs") auto
  note k = resolve_ok [OF assms(1) l1]
  have r: "r < length (fs_nodes fs)" using k(3) [OF refl] fs_same_length [OF k(2)] by simp
  note c1 = same_change(1) [OF k(2,1) r n]
  have rm: "\<exists>s'. s' = snd (node_unlink r name s) \<and> dir_change (insert name S) r fs s' \<and>
      dir_view s' r = (dir_view s r)(name := None)" if "dir_change S r fs s" for s S name
  proof -
    have "fs_wf s" "r < length (fs_nodes s)" and "\<exists>ino ch uid gid m. node s r = RamDir ino ch uid gid m"
      using that r by (auto simp: dir_change_def keeps_found_def keeps_nodes_def)
    then have u: "dir_change {name} r s (snd (node_unlink r name s))"
      "dir_view (snd (node_unlink r name s)) r = (dir_view s r)(name := None)" using unlink_change by blast+
    show ?thesis using dir_change_trans [OF that u(1)] u(2) by simp
  qed
  obtain fs2 where u2: "fs2 = snd (node_unlink r ''passwd'' fs1)" "dir_change {''passwd''} r fs fs2"
    "dir_view fs2 r = (dir_view fs1 r)(''passwd'' := None)" using rm [OF c1] by blast
  obtain fs3 where u3: "fs3 = snd (node_unlink r ''group'' fs2)" "dir_change {''group'', ''passwd''} r fs fs3"
    "dir_view fs3 r = (dir_view fs2 r)(''group'' := None)" using rm [OF u2(2)] by blast
  obtain fs4 where u4: "fs4 = snd (node_unlink r ''shadow'' fs3)" "dir_change {''shadow'', ''group'', ''passwd''} r fs fs4"
    "dir_view fs4 r = (dir_view fs3 r)(''shadow'' := None)" using rm [OF u3(2)] by blast
  have "{''shadow'', ''group'', ''passwd''} \<inter> path_pieces ''/etc'' = {}" by (simp add: etc_pieces)
  note k4 = change_keeps [OF u4(2) assms(1) r this]
  have db: "fs_db fs4 = fs_db fs" using u4(2) by (simp add: dir_change_def)
  let ?files = "[(''passwd'', generate_passwd (fs_db fs4)), (''group'', generate_group (fs_db fs4)),
    (''shadow'', generate_shadow (fs_db fs4))]"
  have "\<exists>fs'. write_etc_files dev ?files fs4 = Inr fs' \<and> dir_change (fst ` set ?files) r fs4 fs' \<and>
     (\<forall>(name, content) \<in> set ?files. etc_holds fs' r name content)"
    using u2(3) u3(3) u4(2-3) assms(4) db
    by (intro write_etc_files_ok [OF k4(1,2) k4(3) [OF l]]) (auto simp: dir_change_def etc_pieces db_small_def)
  then obtain fs' where w: "write_etc_files dev ?files fs4 = Inr fs'" "dir_change (fst ` set ?files) r fs4 fs'"
    "\<forall>(name, content) \<in> set ?files. etc_holds fs' r name content" by blast
  have "dir_change ({''shadow'', ''group'', ''passwd''} \<union> fst ` set ?files) r fs fs'" by (rule dir_change_trans [OF u4(2) w(2)])
  then have "dir_change {''passwd'', ''group'', ''shadow''} r fs fs'" by (simp add: insert_commute)
  moreover have "refresh_etc_files dev fs = Inr fs'" using l1 w(1) by (simp add: refresh_etc_files_def u2(1) u3(1) u4(1) Let_def)
  moreover have "etc_repeats fs' r" using w(2,3) by (simp add: etc_repeats_def dir_change_def)
  ultimately show ?thesis by blast
qed

subsection \<open>Account operations\<close>

datatype account_op = Add string | Del string | Passwd string string

fun account_db :: "account_op \<Rightarrow> UserDb \<Rightarrow> UserDb" where
  "account_db (Add name) db = add_account name (next_uid (users db)) db"
| "account_db (Del name) db = remove_account name db"
| "account_db (Passwd name pw) db =
     (case set_hash name (hash_password pw) (shadow db) of Some sh \<Rightarrow> db\<lparr>shadow := sh\<rparr> | None \<Rightarrow> db)"

fun run_account :: "'w Devices \<Rightarrow> account_op \<Rightarrow> 'w Fs \<Rightarrow> (bool \<times> 'w Fs) rust" where
  "run_account dev (Add name) fs = map_sum id (\<lambda>(res, fs'). (\<not> isl res, fs')) (useradd dev name fs)"
| "run_account dev (Del name) fs = map_sum id (\<lambda>(res, fs'). (\<not> isl res, fs')) (userdel dev name fs)"
| "run_account dev (Passwd name pw) fs = map_sum id (\<lambda>(res, fs'). (\<not> isl res, fs')) (change_password dev name pw fs)"

definition etc_ready :: "'w Fs \<Rightarrow> node_ref \<Rightarrow> bool" where
  "etc_ready fs r \<longleftrightarrow> fs_wf fs \<and> fst (vfs_lookup ''/etc'' fs) = Inr r \<and> (\<exists>ino ch uid gid m. node fs r = RamDir ino ch uid gid m)"

lemma shape_ram_dir: "shape n = shape (RamDir ino ch uid gid m) \<Longrightarrow> \<exists>ch uid gid m. n = RamDir ino ch uid gid m"
  by (cases n) auto

lemma ready_below: "etc_ready fs r \<Longrightarrow> r < length (fs_nodes fs)"
  using resolve_ok(2,3) [of fs "''/etc''"] fs_same_length by (fastforce simp: etc_ready_def fst_def split: prod.splits)

lemma ready_later:
  assumes "etc_ready fs r" and "fs_wf fs'" and "keeps_found S fs fs'" and "S \<inter> path_pieces ''/etc'' = {}"
  shows "etc_ready fs' r"
proof -
  have "fst (vfs_lookup ''/etc'' fs') = Inr r"
    using assms by (intro resolve_found [OF _ assms(2,3)]) (auto simp: etc_ready_def)
  moreover have "shape (node fs' r) = shape (node fs r)"
    using assms(3) ready_below [OF assms(1)] by (simp add: keeps_found_def keeps_nodes_def)
  ultimately show ?thesis using assms(1,2) shape_ram_dir by (fastforce simp: etc_ready_def)
qed

lemma ready_on_db: "etc_ready fs r \<Longrightarrow> etc_ready (on_db f fs) r"
  by (rule ready_later [where S = "{}"])
    (auto simp: etc_ready_def on_db_def keeps_found_def keeps_nodes_def dir_view_def)

lemma ready_refresh:
  assumes "etc_ready fs r" and "db_small (fs_db fs)"
  shows "\<exists>fs'. refresh_etc_files dev fs = Inr fs' \<and> etc_ready fs' r \<and> fs_db fs' = fs_db fs \<and> etc_repeats fs' r"
proof -
  obtain ino ch uid gid m where n: "node fs r = RamDir ino ch uid gid m" using assms(1) by (auto simp: etc_ready_def)
  have "fs_wf fs" "fst (vfs_lookup ''/etc'' fs) = Inr r" using assms(1) by (simp_all add: etc_ready_def)
  from refresh_ok [OF this n assms(2), of dev] obtain fs' where f: "refresh_etc_files dev fs = Inr fs'"
    "dir_change {''passwd'', ''group'', ''shadow''} r fs fs'" "etc_repeats fs' r" by blast
  have "etc_ready fs' r"
    by (rule ready_later [OF assms(1), where S = "{''passwd'', ''group'', ''shadow''}"])
      (use f(2) in \<open>auto simp: dir_change_def etc_pieces\<close>)
  then show ?thesis using f by (auto simp: dir_change_def)
qed

lemma mkdir_found:
  assumes "fs_wf fs" and "h < length (fs_nodes fs)"
  shows "fs_wf (snd (node_mkdir h name fs))" and "keeps_found {} fs (snd (node_mkdir h name fs))"
proof -
  obtain res fs' where eq: "node_mkdir h name fs = (res, fs')" by fastforce
  have ev: "evolves fs fs'" using create_ok(2) [OF assms eq] by blast
  then show "fs_wf (snd (node_mkdir h name fs))" using eq by (simp add: evolves_def)
  have "dir_view fs' c nm = Some d" if "c < length (fs_nodes fs)" "dir_view fs c nm = Some d" for c nm d
  proof (cases "\<exists>ino ch uid gid m. node fs h = RamDir ino ch uid gid m")
    case True
    then obtain ino ch uid gid m where n: "node fs h = RamDir ino ch uid gid m" by blast
    have "added h name fs (ram_dir_add h name ram_dir_new ch fs)"
      using dir_add_added [where mk = ram_dir_new, OF assms n new_nodes(2)] by blast
    then have "added h name fs (res, fs')" using eq n by (simp add: node_mkdir_def)
    then show ?thesis using that by (cases "c = h") (auto simp: added_def only_dir_def dir_view_def Let_def split: if_splits)
  next
    case False
    then show ?thesis using eq that by (auto simp: node_mkdir_def split: Node.splits)
  qed
  then show "keeps_found {} fs (snd (node_mkdir h name fs))"
    using ev eq create_fields(5) [of h name fs] by (simp add: keeps_found_def evolves_def)
qed

lemma ready_home:
  assumes "etc_ready fs r"
  shows "\<exists>fs'. (case vfs_lookup ''/home'' fs of (Inl _, s) \<Rightarrow> s | (Inr home, s) \<Rightarrow> snd (node_mkdir home name s)) = fs' \<and>
     etc_ready fs' r \<and> fs_db fs' = fs_db fs"
proof -
  obtain res s where l: "vfs_lookup ''/home'' fs = (res, s)" by fastforce
  have wf: "fs_wf fs" using assms by (simp add: etc_ready_def)
  note k = resolve_ok [OF wf l]
  have s: "etc_ready s r" by (rule ready_later [OF assms evolves_wf [OF k(1)] found_same(1) [OF k(2)], of "{}"]) simp
  have db: "fs_db s = fs_db fs" using fs_same_fields [OF k(2)] by simp
  show ?thesis
  proof (cases res)
    case (Inr h)
    note m = mkdir_found [OF evolves_wf [OF k(1)] k(3) [OF Inr], of name]
    have "etc_ready (snd (node_mkdir h name s)) r" by (rule ready_later [OF s m]) simp
    then show ?thesis using l Inr db create_fields(6) [of h name s] by simp
  qed (use l s db in simp)
qed


subsection \<open>A password just set\<close>

lemma node_lookup_db [simp]: "fs_db (snd (node_lookup r name fs)) = fs_db fs"
  by (simp add: node_lookup_def Let_def split: option.splits prod.splits)

lemma walk_db: "fs_db (snd (walk_components names r fs)) = fs_db fs"
proof (induction names r fs rule: walk_components.induct)
  case (2 c rest r fs)
  obtain v fs1 where l: "node_lookup r c fs = (v, fs1)" by fastforce
  then have "fs_db fs1 = fs_db fs" using node_lookup_db [of r c fs] by simp
  then show ?case using 2 l by (cases v) auto
qed simp

lemma vfs_lookup_db: "vfs_lookup path fs = (res, fs') \<Longrightarrow> fs_db fs' = fs_db fs"
  using walk_db by (fastforce simp: vfs_lookup_def resolve_def walk_def split: option.splits dest: arg_cong [where f = snd])

lemma flush_db: "fs_db (handle_flush h fs) = fs_db fs"
  by (cases h) auto

lemma write_etc_file_db: "write_etc_file dev name content fs = Inr fs' \<Longrightarrow> fs_db fs' = fs_db fs"
proof -
  assume w: "write_etc_file dev name content fs = Inr fs'"
  obtain res fs1 where l: "vfs_lookup ''/etc'' fs = (res, fs1)" by fastforce
  note d1 = vfs_lookup_db [OF l]
  show ?thesis
  proof (cases res)
    case (Inr r)
    obtain res2 fs2 where c: "node_create_file r name fs1 = (res2, fs2)" by fastforce
    have d2: "fs_db fs2 = fs_db fs" using create_fields(2) [of r name fs1] c d1 by simp
    have "fs' = fs2 \<or> (\<exists>h u h1 fs3. handle_write dev content h fs2 = Inr (u, h1, fs3) \<and> fs' = handle_flush h1 fs3)"
      using w l Inr c by (auto simp: write_etc_file_def split: sum.splits)
    then show ?thesis using d2 by (auto simp: flush_db world_only_def dest!: handle_write_world)
  qed (use w l d1 in \<open>simp add: write_etc_file_def\<close>)
qed

lemma write_etc_files_db: "write_etc_files dev files fs = Inr fs' \<Longrightarrow> fs_db fs' = fs_db fs"
  by (induction dev files fs rule: write_etc_files.induct) (auto split: sum.splits dest: write_etc_file_db)

lemma refresh_db: "refresh_etc_files dev fs = Inr fs' \<Longrightarrow> fs_db fs' = fs_db fs"
  unfolding refresh_etc_files_def Let_def
  by (auto simp: create_fields simp del: write_etc_files.simps split: prod.splits sum.splits
      dest!: write_etc_files_db vfs_lookup_db)

lemma set_hash_in: "set_hash name h sh = Some sh' \<Longrightarrow> authenticate_in sh' name pw = verify_password pw h"
  by (induction sh arbitrary: sh') (auto split: if_splits)

text \<open>After a successful change of a password, authenticating with that very password fails: the hash is
  made with the salt in decimal and checked with the salt in hexadecimal. Shown for passwords shorter than 32 bytes.\<close>

theorem changed_password_is_refused:
  assumes "change_password dev name pw fs = Inr (Inr (), fs')" and "length pw < 32"
  shows "\<not> authenticate name pw (fs_db fs')"
proof -
  obtain sh where sh: "set_hash name (hash_password pw) (shadow (fs_db fs)) = Some sh"
    and r: "refresh_etc_files dev (on_db (\<lambda>db. db\<lparr>shadow := sh\<rparr>) fs) = Inr fs'"
    using assms(1) by (auto simp: change_password_def split: option.splits sum.splits)
  have "shadow (fs_db fs') = sh" using refresh_db [OF r] by (simp add: on_db_def)
  then show ?thesis using set_hash_in [OF sh] no_hash_verifies [OF assms(2)] by (simp add: authenticate_def)
qed

subsection \<open>A small system\<close>

definition fs_etc_example :: "unit Fs" where
  "fs_etc_example = (fs_example 0 (pc_new pmm_example))
     \<lparr>fs_nodes := [RamDir 1 (hot_insert False ''etc'' 1 hot_new) 0 0 0x1ED, RamDir 2 hot_new 0 0 0x1ED]\<rparr>"

lemma fs_etc_ready: "etc_ready fs_etc_example 1"
proof -
  have "hot_inv (hot_insert False k v hot_new)" "hot_view (hot_insert False k v hot_new) = [k \<mapsto> v]" for k and v :: node_ref
    by (simp_all add: hot.ins_inv hot.ins_view hot_new_ok)
  then have "fs_wf fs_etc_example" by (simp add: fs_wf_def fs_etc_example_def fs_example_def refs_below_def hot_new_ok)
  moreover have "fst (vfs_lookup ''/etc'' fs_etc_example) = Inr 1"
    by (simp add: vfs_lookup_def resolve_def best_mount_def fs_etc_example_def fs_example_def starts_with_def walk_def
        node_lookup_def hot_get_def hot_get_routed_def hot_insert_def hot_insert_routed_def hot_new_def)
  ultimately show ?thesis by (simp add: etc_ready_def fs_etc_example_def)
qed


theorem changed_password_is_refused_witness:
  "\<exists>fs'. change_password devices_example ''a'' ''pw'' (on_db (\<lambda>db. db\<lparr>shadow := [\<lparr>sh_username = ''a'', sh_hash = ''!''\<rparr>]\<rparr>)
       (fs_etc_example\<lparr>fs_mounts := []\<rparr>)) = Inr (Inr (), fs') \<and> \<not> authenticate ''a'' ''pw'' (fs_db fs')"
proof -
  let ?fs = "on_db (\<lambda>db. db\<lparr>shadow := [\<lparr>sh_username = ''a'', sh_hash = ''!''\<rparr>]\<rparr>) (fs_etc_example\<lparr>fs_mounts := []\<rparr>)"
  have "\<exists>fs'. change_password devices_example ''a'' ''pw'' ?fs = Inr (Inr (), fs')"
    by (simp add: change_password_def on_db_def refresh_etc_files_def vfs_lookup_def resolve_def best_mount_def)
  then show ?thesis using changed_password_is_refused [of devices_example "''a''" "''pw''" ?fs] by auto
qed

end
