(* ===== verification/Elf.thy ===== *)
theory Elf
  imports Vfs
begin

section \<open>Loading ELF programs and kernel modules\<close>

text \<open>
  \<^verbatim>\<open>elf.rs\<close>: parsing an executable, copying its segments into user memory, loading the dynamic
  linker, and relocating a kernel module. Headers are read from the bytes of the file at their
  offsets. The code reads them through raw pointers, so a read outside the file is a fault of its
  own, \<open>OutsideRead\<close>, beside the panics of checked code. Lengths and offsets are \<^verbatim>\<open>usize\<close> values
  kept as \<^typ>\<open>nat\<close>, with the wrap-around of unchecked additions written out.
\<close>

datatype fault = Panicked panic | OutsideRead

type_synonym 'a run = "fault + 'a"

definition uadd :: "nat \<Rightarrow> nat \<Rightarrow> nat" where
  "uadd a b = (a + b) mod 2 ^ 64"

definition checked_add :: "nat \<Rightarrow> nat \<Rightarrow> nat option" where
  "checked_add a b = (if a + b < 2 ^ 64 then Some (a + b) else None)"

definition checked_mul :: "nat \<Rightarrow> nat \<Rightarrow> nat option" where
  "checked_mul a b = (if a * b < 2 ^ 64 then Some (a * b) else None)"

definition slice :: "bytes \<Rightarrow> nat \<Rightarrow> nat \<Rightarrow> bytes run" where
  "slice d start end_pos = (if start \<le> end_pos \<and> end_pos \<le> length d
     then Inr (take (end_pos - start) (drop start d)) else Inl (Panicked SliceOutOfRange))"

subsection \<open>Headers\<close>

abbreviation (input) ELFMAG :: bytes where "ELFMAG \<equiv> [0x7f, 0x45, 0x4c, 0x46]"

abbreviation (input) ET_REL :: u16 where "ET_REL \<equiv> 1"

abbreviation (input) ET_EXEC :: u16 where "ET_EXEC \<equiv> 2"

abbreviation (input) ET_DYN :: u16 where "ET_DYN \<equiv> 3"

abbreviation (input) EM_X86_64 :: u16 where "EM_X86_64 \<equiv> 62"

abbreviation (input) PT_LOAD :: u32 where "PT_LOAD \<equiv> 1"

abbreviation (input) PT_INTERP :: u32 where "PT_INTERP \<equiv> 3"

abbreviation (input) PT_PHDR :: u32 where "PT_PHDR \<equiv> 6"

abbreviation (input) PF_X :: u32 where "PF_X \<equiv> 1"

abbreviation (input) PF_W :: u32 where "PF_W \<equiv> 2"

abbreviation (input) EHDR_SIZE :: nat where "EHDR_SIZE \<equiv> 64"

abbreviation (input) PHDR_SIZE :: nat where "PHDR_SIZE \<equiv> 56"

record Elf64Ehdr =
  e_ident :: bytes
  e_type :: u16
  e_machine :: u16
  e_version :: u32
  e_entry :: u64
  e_phoff :: u64
  e_shoff :: u64
  e_flags :: u32
  e_ehsize :: u16
  e_phentsize :: u16
  e_phnum :: u16
  e_shentsize :: u16
  e_shnum :: u16
  e_shstrndx :: u16

record Elf64Phdr =
  p_type :: u32
  p_flags :: u32
  p_offset :: u64
  p_vaddr :: u64
  p_paddr :: u64
  p_filesz :: u64
  p_memsz :: u64
  p_align :: u64

text \<open>A little-endian field at an offset, and the structures as the compiler lays them out.\<close>

definition le_at :: "nat \<Rightarrow> bytes \<Rightarrow> nat \<Rightarrow> 'a::len word" where
  "le_at n d off = from_le (take n (drop off d))"

definition read_ehdr :: "bytes \<Rightarrow> Elf64Ehdr run" where
  "read_ehdr d = (if EHDR_SIZE \<le> length d then Inr
     \<lparr>e_ident = take 16 d, e_type = le_at 2 d 16, e_machine = le_at 2 d 18, e_version = le_at 4 d 20,
      e_entry = le_at 8 d 24, e_phoff = le_at 8 d 32, e_shoff = le_at 8 d 40, e_flags = le_at 4 d 48,
      e_ehsize = le_at 2 d 52, e_phentsize = le_at 2 d 54, e_phnum = le_at 2 d 56,
      e_shentsize = le_at 2 d 58, e_shnum = le_at 2 d 60, e_shstrndx = le_at 2 d 62\<rparr>
     else Inl OutsideRead)"

definition phdr_bytes :: "bytes \<Rightarrow> nat \<Rightarrow> Elf64Phdr" where
  "phdr_bytes d off =
     \<lparr>p_type = le_at 4 d off, p_flags = le_at 4 d (off + 4), p_offset = le_at 8 d (off + 8),
      p_vaddr = le_at 8 d (off + 16), p_paddr = le_at 8 d (off + 24), p_filesz = le_at 8 d (off + 32),
      p_memsz = le_at 8 d (off + 40), p_align = le_at 8 d (off + 48)\<rparr>"

definition read_phdr :: "bytes \<Rightarrow> nat \<Rightarrow> Elf64Phdr run" where
  "read_phdr d off = (if off + PHDR_SIZE \<le> length d then Inr (phdr_bytes d off) else Inl OutsideRead)"

datatype ElfError = NotElf | BadArch | NotExecutable | BadPhdrs | SegmentOutOfBounds | NeedsDynLinker | Truncated

record LoadedSegment =
  seg_vaddr :: u64
  seg_memsz :: u64
  seg_data :: bytes
  seg_flags :: u32

record ElfImage =
  entry :: u64
  segments :: "LoadedSegment list"
  interp :: "string option"
  phdr_vaddr :: "u64 option"
  phnum :: u16

subsection \<open>Parsing an executable\<close>

type_synonym found = "LoadedSegment list \<times> string option \<times> u64 option"

definition bytes_str :: "bytes \<Rightarrow> string" where
  "bytes_str bs = map (\<lambda>b. char_of (unat b)) bs"

definition interp_path :: "bytes \<Rightarrow> Elf64Phdr \<Rightarrow> string option \<Rightarrow> string option run" where
  "interp_path d ph old =
     (let start = unat (p_offset ph);
          end_pos = min (start + unat (p_filesz ph)) (2 ^ 64 - 1)
      in if end_pos \<le> length d
         then case slice d start end_pos of
                Inl f \<Rightarrow> Inl f
              | Inr raw \<Rightarrow>
                  (let path = takeWhile (\<lambda>b. b \<noteq> 0) raw
                   in Inr (if valid_utf8 path then Some (bytes_str path) else old))
         else Inr old)"

definition load_phdr :: "bytes \<Rightarrow> Elf64Phdr \<Rightarrow> (ElfError + LoadedSegment) run" where
  "load_phdr d ph =
     (let file_start = unat (p_offset ph)
      in case checked_add file_start (unat (p_filesz ph)) of
           None \<Rightarrow> Inr (Inl SegmentOutOfBounds)
         | Some file_end \<Rightarrow>
             if length d < file_end then Inr (Inl SegmentOutOfBounds)
             else if p_memsz ph < p_filesz ph then Inr (Inl SegmentOutOfBounds)
             else case slice d file_start file_end of
                    Inl f \<Rightarrow> Inl f
                  | Inr seg \<Rightarrow> Inr (Inr \<lparr>seg_vaddr = p_vaddr ph, seg_memsz = p_memsz ph, seg_data = seg,
                                         seg_flags = p_flags ph\<rparr>))"

fun parse_phdrs :: "bytes \<Rightarrow> nat \<Rightarrow> nat list \<Rightarrow> found \<Rightarrow> (ElfError + found) run" where
  "parse_phdrs d start [] acc = Inr (Inr acc)"
| "parse_phdrs d start (i # is) (segs, ip, pv) =
     (case read_phdr d (uadd start (i * PHDR_SIZE)) of
        Inl f \<Rightarrow> Inl f
      | Inr ph \<Rightarrow>
          if p_type ph = PT_INTERP
          then (case interp_path d ph ip of
                  Inl f \<Rightarrow> Inl f | Inr ip1 \<Rightarrow> parse_phdrs d start is (segs, ip1, pv))
          else if p_type ph = PT_PHDR then parse_phdrs d start is (segs, ip, Some (p_vaddr ph))
          else if p_type ph = PT_LOAD
          then (case load_phdr d ph of
                  Inl f \<Rightarrow> Inl f
                | Inr (Inl e) \<Rightarrow> Inr (Inl e)
                | Inr (Inr seg) \<Rightarrow> parse_phdrs d start is (segs @ [seg], ip, pv))
          else parse_phdrs d start is (segs, ip, pv))"

definition parse :: "bytes \<Rightarrow> (ElfError + ElfImage) run" where
  "parse d =
     (if length d < EHDR_SIZE then Inr (Inl Truncated)
      else case read_ehdr d of
        Inl f \<Rightarrow> Inl f
      | Inr eh \<Rightarrow>
          if take 4 (e_ident eh) \<noteq> ELFMAG then Inr (Inl NotElf)
          else if e_ident eh ! 4 \<noteq> 2 then Inr (Inl NotElf)
          else if e_ident eh ! 5 \<noteq> 1 then Inr (Inl BadArch)
          else if e_ident eh ! 6 \<noteq> 1 then Inr (Inl NotElf)
          else if e_machine eh \<noteq> EM_X86_64 then Inr (Inl BadArch)
          else if e_type eh \<noteq> ET_EXEC \<and> e_type eh \<noteq> ET_DYN then Inr (Inl NotExecutable)
          else if unat (e_phentsize eh) \<noteq> PHDR_SIZE then Inr (Inl BadPhdrs)
          else let phdrs_start = unat (e_phoff eh)
          in case checked_mul (unat (e_phnum eh)) PHDR_SIZE of
               None \<Rightarrow> Inr (Inl BadPhdrs)
             | Some sz \<Rightarrow>
                 (case checked_add phdrs_start sz of
                    None \<Rightarrow> Inr (Inl BadPhdrs)
                  | Some phdrs_end \<Rightarrow>
                      if length d < phdrs_end then Inr (Inl BadPhdrs)
                      else case parse_phdrs d phdrs_start [0..<unat (e_phnum eh)] ([], None, None) of
                             Inl f \<Rightarrow> Inl f
                           | Inr (Inl e) \<Rightarrow> Inr (Inl e)
                           | Inr (Inr (segs, ip, pv)) \<Rightarrow>
                               Inr (Inr \<lparr>entry = e_entry eh, segments = segs, interp = ip, phdr_vaddr = pv,
                                        phnum = e_phnum eh\<rparr>)))"

text \<open>The parser for the dynamic linker, without the overflow checks.\<close>

fun dyn_phdrs :: "bytes \<Rightarrow> nat \<Rightarrow> nat list \<Rightarrow> LoadedSegment list \<Rightarrow> LoadedSegment list option run" where
  "dyn_phdrs d start [] segs = Inr (Some segs)"
| "dyn_phdrs d start (i # is) segs =
     (case read_phdr d (uadd start (i * PHDR_SIZE)) of
        Inl f \<Rightarrow> Inl f
      | Inr ph \<Rightarrow>
          if p_type ph \<noteq> PT_LOAD then dyn_phdrs d start is segs
          else let fs = unat (p_offset ph); fe = uadd fs (unat (p_filesz ph))
          in if length d < fe then Inr None
             else case slice d fs fe of
                    Inl f \<Rightarrow> Inl f
                  | Inr seg \<Rightarrow> dyn_phdrs d start is (segs @ [\<lparr>seg_vaddr = p_vaddr ph, seg_memsz = p_memsz ph,
                                                            seg_data = seg, seg_flags = p_flags ph\<rparr>]))"

definition parse_dyn_so :: "bytes \<Rightarrow> ElfImage option run" where
  "parse_dyn_so d =
     (if length d < EHDR_SIZE then Inr None
      else case read_ehdr d of
        Inl f \<Rightarrow> Inl f
      | Inr eh \<Rightarrow>
          if take 4 (e_ident eh) \<noteq> ELFMAG then Inr None
          else if e_ident eh ! 4 \<noteq> 2 then Inr None
          else if e_machine eh \<noteq> EM_X86_64 then Inr None
          else let ph_start = unat (e_phoff eh);
                   ph_end = uadd ph_start (unat (e_phnum eh) * PHDR_SIZE)
          in if length d < ph_end then Inr None
             else case dyn_phdrs d ph_start [0..<unat (e_phnum eh)] [] of
                    Inl f \<Rightarrow> Inl f
                  | Inr None \<Rightarrow> Inr None
                  | Inr (Some segs) \<Rightarrow>
                      Inr (Some \<lparr>entry = e_entry eh, segments = segs, interp = None, phdr_vaddr = None,
                                phnum = e_phnum eh\<rparr>))"

subsection \<open>Placing segments in user memory\<close>

text \<open>User memory as the loader writes it, through virtual addresses, beside the state of the page tables.
  Mapping a range (\<^verbatim>\<open>map_user_range\<close>) is an argument; it answers whether it succeeded.\<close>

type_synonym 'm space = "'m \<times> (u64 \<Rightarrow> u8)"

type_synonym 'm map_range = "u64 \<Rightarrow> u64 \<Rightarrow> bool \<Rightarrow> bool \<Rightarrow> 'm space \<Rightarrow> bool \<times> 'm space"

definition store_bytes :: "u64 \<Rightarrow> bytes \<Rightarrow> (u64 \<Rightarrow> u8) \<Rightarrow> u64 \<Rightarrow> u8" where
  "store_bytes v bs mm a = (let o' = unat (a - v) in if o' < length bs then bs ! o' else mm a)"

definition zero_bytes :: "u64 \<Rightarrow> nat \<Rightarrow> (u64 \<Rightarrow> u8) \<Rightarrow> u64 \<Rightarrow> u8" where
  "zero_bytes v n mm a = (if unat (a - v) < n then 0 else mm a)"

definition page_start :: "u64 \<Rightarrow> u64" where
  "page_start v = v AND NOT 0xFFF"

definition mapped_size :: "u64 \<Rightarrow> u64 \<Rightarrow> u64" where
  "mapped_size vaddr memsz = (let page_offset = vaddr - page_start vaddr in page_start (page_offset + memsz + 0x1000 - 1))"

definition load_segment :: "'m map_range \<Rightarrow> u64 \<Rightarrow> LoadedSegment \<Rightarrow> 'm space \<Rightarrow> bool \<times> 'm space" where
  "load_segment map_user bias seg sp =
     (let vaddr = bias + seg_vaddr seg;
          aligned = page_start vaddr;
          total_size = mapped_size vaddr (seg_memsz seg);
          writable = seg_flags seg AND PF_W \<noteq> 0;
          executable = seg_flags seg AND PF_X \<noteq> 0
      in case map_user aligned total_size writable executable sp of
           (False, sp1) \<Rightarrow> (False, sp1)
         | (True, (m, mm)) \<Rightarrow>
             (let mm1 = store_bytes vaddr (seg_data seg) mm;
                  bss_len = unat (seg_memsz seg - of_nat (length (seg_data seg)))
              in (True, (m, zero_bytes (vaddr + of_nat (length (seg_data seg))) bss_len mm1))))"

fun load_segments :: "'m map_range \<Rightarrow> u64 \<Rightarrow> LoadedSegment list \<Rightarrow> 'm space \<Rightarrow> bool \<times> 'm space" where
  "load_segments map_user bias [] sp = (True, sp)"
| "load_segments map_user bias (seg # segs) sp =
     (case load_segment map_user bias seg sp of
        (False, sp1) \<Rightarrow> (False, sp1)
      | (True, sp1) \<Rightarrow> load_segments map_user bias segs sp1)"

abbreviation (input) LDSO_LOAD_BIAS :: u64 where "LDSO_LOAD_BIAS \<equiv> 0x00007F0000000000"

definition load_interp ::
  "'w Devices \<Rightarrow> 'm map_range \<Rightarrow> string \<Rightarrow> 'w Fs \<times> 'm space \<Rightarrow> (u64 option \<times> 'w Fs \<times> 'm space) run" where
  "load_interp dev map_user path st =
     (let (fs, sp) = st
      in case vfs_lookup path fs of
           (Inl _, fs1) \<Rightarrow> Inr (None, fs1, sp)
         | (Inr r, fs1) \<Rightarrow>
             (case node_open r fs1 (node fs1 r) of
                Inl _ \<Rightarrow> Inr (None, fs1, sp)
              | Inr fh \<Rightarrow>
                  (case handle_read dev (replicate (8 * 1024 * 1024) 0) fh fs1 of
                     Inl p \<Rightarrow> Inl (Panicked p)
                   | Inr (Inl _, _, _, fs2) \<Rightarrow> Inr (None, fs2, sp)
                   | Inr (Inr n, contents, _, fs2) \<Rightarrow>
                       (case parse_dyn_so (take n contents) of
                          Inl f \<Rightarrow> Inl f
                        | Inr None \<Rightarrow> Inr (None, fs2, sp)
                        | Inr (Some ldso) \<Rightarrow>
                            (case load_segments map_user LDSO_LOAD_BIAS (segments ldso) sp of
                               (False, sp1) \<Rightarrow> Inr (None, fs2, sp1)
                             | (True, sp1) \<Rightarrow> Inr (Some (LDSO_LOAD_BIAS + entry ldso), fs2, sp1))))))"

definition load_image ::
  "'w Devices \<Rightarrow> 'm map_range \<Rightarrow> ElfImage \<Rightarrow> 'w Fs \<times> 'm space \<Rightarrow> ((ElfError + u64) \<times> 'w Fs \<times> 'm space) run" where
  "load_image dev map_user img st =
     (let (fs, sp) = st
      in case load_segments map_user 0 (segments img) sp of
           (False, sp1) \<Rightarrow> Inr (Inl SegmentOutOfBounds, fs, sp1)
         | (True, sp1) \<Rightarrow>
             (case interp img of
                None \<Rightarrow> Inr (Inr (entry img), fs, sp1)
              | Some path \<Rightarrow>
                  (case load_interp dev map_user path (fs, sp1) of
                     Inl f \<Rightarrow> Inl f
                   | Inr (Some e, st1) \<Rightarrow> Inr (Inr e, st1)
                   | Inr (None, st1) \<Rightarrow> Inr (Inr (entry img), st1))))"

subsection \<open>Relocating a kernel module\<close>

record Elf64Shdr =
  sh_name :: u32
  sh_type :: u32
  sh_flags :: u64
  sh_addr :: u64
  sh_offset :: u64
  sh_size :: u64
  sh_link :: u32
  sh_info :: u32
  sh_addralign :: u64
  sh_entsize :: u64

record Elf64Sym =
  st_name :: u32
  st_info :: u8
  st_other :: u8
  st_shndx :: u16
  st_value :: u64
  st_symsize :: u64

record Elf64Rela =
  r_offset :: u64
  r_info :: u64
  r_addend :: u64

definition sym_idx :: "Elf64Rela \<Rightarrow> nat" where
  "sym_idx rela = unat (drop_bit 32 (r_info rela))"

definition rel_type :: "Elf64Rela \<Rightarrow> u32" where
  "rel_type rela = ucast (r_info rela AND 0xFFFFFFFF)"

datatype RelocError = NotRelocatable | BadSectionTable | MissingSymbol string | Overflow32 | UnsupportedReloc u32 | BadStrtab

abbreviation (input) SHDR_SIZE :: nat where "SHDR_SIZE \<equiv> 64"

abbreviation (input) SYM_SIZE :: nat where "SYM_SIZE \<equiv> 24"

abbreviation (input) RELA_SIZE :: nat where "RELA_SIZE \<equiv> 24"

definition shdr_at :: "bytes \<Rightarrow> nat \<Rightarrow> nat \<Rightarrow> (RelocError + Elf64Shdr) run" where
  "shdr_at d sh_off idx =
     (let off = uadd sh_off (idx * SHDR_SIZE)
      in if length d < uadd off SHDR_SIZE then Inr (Inl BadSectionTable)
      else if length d < off + SHDR_SIZE then Inl OutsideRead
      else Inr (Inr \<lparr>sh_name = le_at 4 d off, sh_type = le_at 4 d (off + 4), sh_flags = le_at 8 d (off + 8),
        sh_addr = le_at 8 d (off + 16), sh_offset = le_at 8 d (off + 24), sh_size = le_at 8 d (off + 32),
        sh_link = le_at 4 d (off + 40), sh_info = le_at 4 d (off + 44), sh_addralign = le_at 8 d (off + 48),
        sh_entsize = le_at 8 d (off + 56)\<rparr>))"

fun first_symtab :: "bytes \<Rightarrow> nat \<Rightarrow> nat list \<Rightarrow> (RelocError + Elf64Shdr) run" where
  "first_symtab d sh_off [] = Inr (Inl BadSectionTable)"
| "first_symtab d sh_off (i # is) =
     (case shdr_at d sh_off i of
        Inl f \<Rightarrow> Inl f
      | Inr (Inl e) \<Rightarrow> Inr (Inl e)
      | Inr (Inr sh) \<Rightarrow> if sh_type sh = 2 then Inr (Inr sh) else first_symtab d sh_off is)"

definition find_symtab :: "bytes \<Rightarrow> nat \<Rightarrow> nat \<Rightarrow> (RelocError + Elf64Shdr \<times> Elf64Shdr) run" where
  "find_symtab d sh_off sh_count =
     (case first_symtab d sh_off [0..<sh_count] of
        Inl f \<Rightarrow> Inl f
      | Inr (Inl e) \<Rightarrow> Inr (Inl e)
      | Inr (Inr symtab) \<Rightarrow>
          (case shdr_at d sh_off (unat (sh_link symtab)) of
             Inl f \<Rightarrow> Inl f
           | Inr (Inl _) \<Rightarrow> Inr (Inl BadStrtab)
           | Inr (Inr strtab) \<Rightarrow> Inr (Inr (symtab, strtab))))"

fun read_sym_loop :: "bytes \<Rightarrow> nat \<Rightarrow> nat list \<Rightarrow> Elf64Sym list run" where
  "read_sym_loop d off [] = Inr []"
| "read_sym_loop d off (i # is) =
     (let p = uadd off (i * SYM_SIZE)
      in if length d < uadd p SYM_SIZE then Inr []
      else if length d < p + SYM_SIZE then Inl OutsideRead
      else case read_sym_loop d off is of
             Inl f \<Rightarrow> Inl f
           | Inr rest \<Rightarrow> Inr (\<lparr>st_name = le_at 4 d p, st_info = le_at 1 d (p + 4), st_other = le_at 1 d (p + 5),
               st_shndx = le_at 2 d (p + 6), st_value = le_at 8 d (p + 8), st_symsize = le_at 8 d (p + 16)\<rparr> # rest))"

text \<open>\<^verbatim>\<open>Vec::with_capacity\<close> panics on a capacity of more than \<^verbatim>\<open>isize::MAX\<close> bytes.\<close>

definition read_symbols :: "bytes \<Rightarrow> Elf64Shdr \<Rightarrow> Elf64Sym list run" where
  "read_symbols d symtab =
     (let cnt = unat (sh_size symtab) div SYM_SIZE
      in if 2 ^ 63 \<le> cnt * SYM_SIZE then Inl (Panicked ArithmeticOverflow)
      else read_sym_loop d (unat (sh_offset symtab)) [0..<cnt])"

definition read_str :: "bytes \<Rightarrow> nat \<Rightarrow> string" where
  "read_str strtab off =
     (if length strtab \<le> off then []
      else let s = takeWhile (\<lambda>b. b \<noteq> 0) (drop off strtab)
           in if valid_utf8 s then bytes_str s else [])"

fun find_symbol :: "bytes \<Rightarrow> Elf64Sym list \<Rightarrow> string \<Rightarrow> u64 list \<Rightarrow> u64 option" where
  "find_symbol strtab [] name addrs = None"
| "find_symbol strtab (s # ss') name addrs =
     (if read_str strtab (unat (st_name s)) = name \<and> unat (st_shndx s) < length addrs
      then Some (addrs ! unat (st_shndx s) + st_value s)
      else find_symbol strtab ss' name addrs)"

text \<open>The functions modules may call. Their addresses are the argument \<open>addr_of\<close>.\<close>

definition kernel_exports :: "(string \<Rightarrow> u64) \<Rightarrow> (string \<times> u64) list" where
  "kernel_exports addr_of = map (\<lambda>n. (n, addr_of n))
     [''scheduler_uptime_ms'', ''scheduler_current_pid'', ''scheduler_send_signal'', ''vfs_write_file'',
      ''vfs_read_file'', ''entropy_fill'', ''entropy_stir'']"

definition resolve_kernel_symbol :: "(string \<Rightarrow> u64) \<Rightarrow> string \<Rightarrow> u64 option" where
  "resolve_kernel_symbol addr_of name = map_option snd (List.find (\<lambda>e. fst e = name) (kernel_exports addr_of))"

text \<open>A store into the module, \<^verbatim>\<open>buf[off..off + n].copy_from_slice\<close>, after the unchecked comparison.\<close>

definition patch :: "bytes \<Rightarrow> nat \<Rightarrow> bytes \<Rightarrow> (RelocError + bytes) run" where
  "patch img off v =
     (let end_pos = uadd off (length v)
      in if length img < end_pos then Inr (Inr img)
      else if end_pos < off then Inl (Panicked SliceOutOfRange)
      else Inr (Inr (copy_at off v img)))"

definition apply_reloc :: "bytes \<Rightarrow> nat \<Rightarrow> u32 \<Rightarrow> u64 \<Rightarrow> u64 \<Rightarrow> u64 \<Rightarrow> (RelocError + bytes) run" where
  "apply_reloc img off rt symb pc addend =
     (if rt = 0 then Inr (Inr img)
      else if rt = 1 then patch img off (to_le 8 (symb + addend))
      else if rt = 2 \<or> rt = 4 then
        (let val = symb + addend - pc
         in if 2 ^ 31 - 1 < sint val \<or> sint val < - (2 ^ 31) then Inr (Inl Overflow32)
            else patch img off (to_le 4 (ucast val :: u32)))
      else if rt = 10 then
        (let val = symb + addend
         in if 0xFFFFFFFF < val then Inr (Inl Overflow32) else patch img off (to_le 4 (ucast val :: u32)))
      else if rt = 11 then
        (let val = symb + addend
         in if 2 ^ 31 - 1 < sint val \<or> sint val < - (2 ^ 31) then Inr (Inl Overflow32)
            else patch img off (to_le 4 (ucast val :: u32)))
      else Inr (Inl (UnsupportedReloc rt)))"

text \<open>Laying out the sections and copying their data.\<close>

definition copy_section :: "bytes \<Rightarrow> nat \<Rightarrow> nat \<Rightarrow> nat \<Rightarrow> bytes \<Rightarrow> bytes run" where
  "copy_section d off sz buf_off img =
     (if uadd off sz \<le> length d \<and> uadd buf_off sz \<le> length img
      then if uadd buf_off sz < buf_off \<or> uadd off sz < off then Inl (Panicked SliceOutOfRange)
           else Inr (copy_at buf_off (take sz (drop off d)) img)
      else Inr img)"

fun place_sections ::
  "bytes \<Rightarrow> nat \<Rightarrow> u64 \<Rightarrow> nat list \<Rightarrow> u64 list \<times> u64 \<times> bytes \<Rightarrow> (RelocError + u64 list \<times> bytes) run" where
  "place_sections d sh_off load_addr [] (addrs, cursor, img) = Inr (Inr (addrs, img))"
| "place_sections d sh_off load_addr (i # is) (addrs, cursor, img) =
     (case shdr_at d sh_off i of
        Inl f \<Rightarrow> Inl f
      | Inr (Inl e) \<Rightarrow> Inr (Inl e)
      | Inr (Inr sh) \<Rightarrow>
          if sh_type sh = 8 \<or> sh_type sh = 0 \<or> sh_size sh = 0
          then place_sections d sh_off load_addr is (addrs @ [cursor], cursor, img)
          else let align = max (sh_addralign sh) 1;
                   cur = (cursor + align - 1) AND NOT (align - 1)
          in case copy_section d (unat (sh_offset sh)) (unat (sh_size sh)) (unat (cur - load_addr)) img of
               Inl f \<Rightarrow> Inl f
             | Inr img1 \<Rightarrow>
                 place_sections d sh_off load_addr is (addrs @ [cur], cur + sh_size sh, img1))"

definition read_rela :: "bytes \<Rightarrow> nat \<Rightarrow> Elf64Rela run" where
  "read_rela d p = (if length d < p + RELA_SIZE then Inl OutsideRead
     else Inr \<lparr>r_offset = le_at 8 d p, r_info = le_at 8 d (p + 8), r_addend = le_at 8 d (p + 16)\<rparr>)"

definition symbol_value ::
  "(string \<Rightarrow> u64) \<Rightarrow> bytes \<Rightarrow> u64 list \<Rightarrow> Elf64Sym \<Rightarrow> (RelocError + u64) option" where
  "symbol_value addr_of strtab addrs symb =
     (if st_shndx symb = 0
      then let name = read_str strtab (unat (st_name symb))
           in Some (case resolve_kernel_symbol addr_of name of Some a \<Rightarrow> Inr a | None \<Rightarrow> Inl (MissingSymbol name))
      else if unat (st_shndx symb) < length addrs
      then Some (Inr (addrs ! unat (st_shndx symb) + st_value symb))
      else None)"

fun apply_relas ::
  "(string \<Rightarrow> u64) \<Rightarrow> bytes \<Rightarrow> bytes \<Rightarrow> Elf64Sym list \<Rightarrow> u64 list \<Rightarrow> u64 \<Rightarrow> u64 \<Rightarrow> nat \<Rightarrow> nat list \<Rightarrow> bytes \<Rightarrow>
   (RelocError + bytes) run" where
  "apply_relas addr_of d strtab syms addrs load_addr target rela_off [] img = Inr (Inr img)"
| "apply_relas addr_of d strtab syms addrs load_addr target rela_off (r # rs) img =
     (case read_rela d (uadd rela_off (r * RELA_SIZE)) of
        Inl f \<Rightarrow> Inl f
      | Inr rela \<Rightarrow>
          (case (if sym_idx rela < length syms then symbol_value addr_of strtab addrs (syms ! sym_idx rela) else None) of
             None \<Rightarrow> apply_relas addr_of d strtab syms addrs load_addr target rela_off rs img
           | Some (Inl e) \<Rightarrow> Inr (Inl e)
           | Some (Inr sym_val) \<Rightarrow>
               (let patch_va = target + r_offset rela
                in case apply_reloc img (unat (patch_va - load_addr)) (rel_type rela) sym_val patch_va (r_addend rela) of
                     Inl f \<Rightarrow> Inl f
                   | Inr (Inl e) \<Rightarrow> Inr (Inl e)
                   | Inr (Inr img1) \<Rightarrow>
                       apply_relas addr_of d strtab syms addrs load_addr target rela_off rs img1)))"

fun relocate_sections ::
  "(string \<Rightarrow> u64) \<Rightarrow> bytes \<Rightarrow> bytes \<Rightarrow> Elf64Sym list \<Rightarrow> u64 list \<Rightarrow> u64 \<Rightarrow> nat \<Rightarrow> nat list \<Rightarrow> bytes \<Rightarrow>
   (RelocError + bytes) run" where
  "relocate_sections addr_of d strtab syms addrs load_addr sh_off [] img = Inr (Inr img)"
| "relocate_sections addr_of d strtab syms addrs load_addr sh_off (i # is) img =
     (case shdr_at d sh_off i of
        Inl f \<Rightarrow> Inl f
      | Inr (Inl e) \<Rightarrow> Inr (Inl e)
      | Inr (Inr sh) \<Rightarrow>
          if sh_type sh \<noteq> 4 \<or> length addrs \<le> unat (sh_info sh)
          then relocate_sections addr_of d strtab syms addrs load_addr sh_off is img
          else case apply_relas addr_of d strtab syms addrs load_addr (addrs ! unat (sh_info sh)) (unat (sh_offset sh))
                      [0..<unat (sh_size sh) div RELA_SIZE] img of
                 Inl f \<Rightarrow> Inl f
               | Inr (Inl e) \<Rightarrow> Inr (Inl e)
               | Inr (Inr img1) \<Rightarrow>
                   relocate_sections addr_of d strtab syms addrs load_addr sh_off is img1)"

definition relocate_module ::
  "(string \<Rightarrow> u64) \<Rightarrow> bytes \<Rightarrow> u64 \<Rightarrow> bytes \<Rightarrow> (RelocError + u64 \<times> bytes) run" where
  "relocate_module addr_of d load_addr img =
     (if length d < EHDR_SIZE then Inr (Inl NotRelocatable)
      else case read_ehdr d of
        Inl f \<Rightarrow> Inl f
      | Inr eh \<Rightarrow>
          if take 4 (e_ident eh) \<noteq> ELFMAG \<or> e_type eh \<noteq> ET_REL then Inr (Inl NotRelocatable)
          else let sh_off = unat (e_shoff eh); sh_count = unat (e_shnum eh)
          in if length d < uadd sh_off (sh_count * SHDR_SIZE) then Inr (Inl BadSectionTable)
          else case place_sections d sh_off load_addr [0..<sh_count] ([], load_addr, img) of
            Inl f \<Rightarrow> Inl f
          | Inr (Inl e) \<Rightarrow> Inr (Inl e)
          | Inr (Inr (addrs, img1)) \<Rightarrow>
              (case find_symtab d sh_off sh_count of
                 Inl f \<Rightarrow> Inl f
               | Inr (Inl e) \<Rightarrow> Inr (Inl e)
               | Inr (Inr (symtab, strtab_sh)) \<Rightarrow>
                   (case read_symbols d symtab of
                      Inl f \<Rightarrow> Inl f
                    | Inr syms \<Rightarrow>
                        (let strtab_off = unat (sh_offset strtab_sh);
                             strtab_end = uadd strtab_off (unat (sh_size strtab_sh))
                         in case (if strtab_end \<le> length d then slice d strtab_off strtab_end else Inr []) of
                              Inl f \<Rightarrow> Inl f
                            | Inr strtab \<Rightarrow>
                                (case relocate_sections addr_of d strtab syms addrs load_addr sh_off [0..<sh_count] img1 of
                                   Inl f \<Rightarrow> Inl f
                                 | Inr (Inl e) \<Rightarrow> Inr (Inl e)
                                 | Inr (Inr img2) \<Rightarrow>
                                     Inr (Inr (case find_symbol strtab syms ''module_init'' addrs of
                                                 Some a \<Rightarrow> a | None \<Rightarrow> load_addr, img2)))))))"

end
