(* ===== verification/Elf_Props.thy ===== *)
theory Elf_Props
  imports Elf Vfs_Props
begin

section \<open>The ELF loader\<close>

text \<open>
  Parsing never leaves the file and returns exactly the loadable segments; loading puts each of them
  into memory with the rest of the segment zeroed; a relocation writes the value its type asks for,
  or reports that it does not fit. The parser for the dynamic linker and the module relocator lack
  the checks: two lemmas show inputs on which they panic or read outside the file.
\<close>

subsection \<open>Parsing\<close>

definition phdrs :: "bytes \<Rightarrow> Elf64Ehdr \<Rightarrow> Elf64Phdr list" where
  "phdrs d eh = map (\<lambda>i. phdr_bytes d (unat (e_phoff eh) + i * 56)) [0..<unat (e_phnum eh)]"

definition loadable :: "Elf64Phdr \<Rightarrow> bool" where
  "loadable ph \<longleftrightarrow> p_type ph = PT_LOAD"

definition segment_of :: "bytes \<Rightarrow> Elf64Phdr \<Rightarrow> LoadedSegment" where
  "segment_of d ph = \<lparr>seg_vaddr = p_vaddr ph, seg_memsz = p_memsz ph,
     seg_data = take (unat (p_filesz ph)) (drop (unat (p_offset ph)) d), seg_flags = p_flags ph\<rparr>"

definition load_ok :: "bytes \<Rightarrow> Elf64Phdr \<Rightarrow> bool" where
  "load_ok d ph \<longleftrightarrow> unat (p_offset ph) + unat (p_filesz ph) \<le> length d \<and> p_filesz ph \<le> p_memsz ph"

lemma load_phdr_result:
  "length d < 2 ^ 63 \<Longrightarrow> load_phdr d ph = Inr (if load_ok d ph then Inr (segment_of d ph) else Inl SegmentOutOfBounds)"
  by (auto simp: load_phdr_def load_ok_def segment_of_def checked_add_def slice_def not_le Let_def)

lemma interp_path_result: "\<exists>ip. interp_path d ph old = Inr ip"
proof -
  have "unat (p_offset ph) \<le> 2 ^ 64 - 1" using unsigned_less [of "p_offset ph", where ?'a = nat] by simp
  then show ?thesis by (auto simp: interp_path_def slice_def Let_def)
qed

lemma parse_phdrs_result:
  assumes "length d < 2 ^ 63" and "\<forall>i \<in> set is. start + i * 56 + 56 \<le> length d"
  shows "\<exists>r. parse_phdrs d start is acc = Inr r \<and>
     (\<forall>segs ip pv. r = Inr (segs, ip, pv) \<longrightarrow>
        (let hs = filter loadable (map (\<lambda>i. phdr_bytes d (start + i * 56)) is)
         in segs = fst acc @ map (segment_of d) hs \<and> (\<forall>ph \<in> set hs. load_ok d ph)))"
  using assms(2)
proof (induction "is" arbitrary: acc)
  case (Cons i "is")
  obtain segs ip pv where acc: "acc = (segs, ip, pv)" by (cases acc)
  let ?ph = "phdr_bytes d (start + i * 56)"
  have "start + i * 56 + 56 \<le> length d" using Cons.prems by simp
  then have rd: "read_phdr d (uadd start (i * 56)) = Inr ?ph"
    using assms(1) by (simp add: read_phdr_def uadd_def)
  obtain ip1 where ip1: "interp_path d ?ph ip = Inr ip1" using interp_path_result by blast
  have step: "\<And>a. \<exists>r. parse_phdrs d start is a = Inr r \<and> (\<forall>segs ip pv. r = Inr (segs, ip, pv) \<longrightarrow>
        (let hs = filter loadable (map (\<lambda>i. phdr_bytes d (start + i * 56)) is)
         in segs = fst a @ map (segment_of d) hs \<and> (\<forall>ph \<in> set hs. load_ok d ph)))"
    using Cons by simp
  show ?case
  proof (cases "loadable ?ph")
    case True
    then have t: "p_type ?ph = 1" by (simp add: loadable_def)
    show ?thesis
    proof (cases "load_ok d ?ph")
      case ok: True
      show ?thesis using step [of "(segs @ [segment_of d ?ph], ip, pv)"] rd t ok True
        by (auto simp: acc load_phdr_result [OF assms(1)] Let_def)
    next
      case False
      then show ?thesis using rd t by (simp add: acc load_phdr_result [OF assms(1)])
    qed
  next
    case False
    then have t: "p_type ?ph \<noteq> 1" by (simp add: loadable_def)
    show ?thesis
      using step [of "(segs, ip1, pv)"] step [of "(segs, ip, Some (p_vaddr ?ph))"] step [of "(segs, ip, pv)"] rd t ip1 False
      by (simp add: acc)
  qed
qed (auto simp: Let_def)

text \<open>What the file says about itself, for a file that parses.\<close>

definition elf_file :: "bytes \<Rightarrow> Elf64Ehdr \<Rightarrow> bool" where
  "elf_file d eh \<longleftrightarrow> read_ehdr d = Inr eh \<and> take 4 (e_ident eh) = ELFMAG \<and> e_machine eh = EM_X86_64 \<and>
     e_type eh \<in> {ET_EXEC, ET_DYN} \<and> unat (e_phoff eh) + unat (e_phnum eh) * 56 \<le> length d"

lemma parse_result:
  assumes "length d < 2 ^ 63"
  shows "\<exists>r. parse d = Inr r \<and> (\<forall>img. r = Inr img \<longrightarrow> (\<exists>eh. elf_file d eh \<and> entry img = e_entry eh \<and>
     segments img = map (segment_of d) (filter loadable (phdrs d eh)) \<and>
     (\<forall>ph \<in> set (filter loadable (phdrs d eh)). load_ok d ph)))"
proof (cases "length d < 64")
  case True
  then show ?thesis by (simp add: parse_def)
next
  case False
  then obtain eh where eh: "read_ehdr d = Inr eh" by (simp add: read_ehdr_def)
  let ?start = "unat (e_phoff eh)" and ?n = "unat (e_phnum eh)"
  show ?thesis
  proof (cases "?start + ?n * 56 \<le> length d")
    case fits: True
    have "?start + i * 56 + 56 \<le> length d" if "i < ?n" for i
    proof -
      have "i * 56 + 56 \<le> ?n * 56" using that by (metis Suc_leI add.commute mult_Suc mult_le_mono1)
      then show ?thesis using fits by linarith
    qed
    then have "\<forall>i \<in> set [0..<?n]. ?start + i * 56 + 56 \<le> length d" by simp
    from parse_phdrs_result [OF assms this, of "([], None, None)"]
    obtain r where r: "parse_phdrs d ?start [0..<?n] ([], None, None) = Inr r"
      "\<And>segs ip pv. r = Inr (segs, ip, pv) \<Longrightarrow> segs = map (segment_of d) (filter loadable (phdrs d eh)) \<and>
         (\<forall>ph \<in> set (filter loadable (phdrs d eh)). load_ok d ph)"
      by (auto simp: phdrs_def Let_def)
    show ?thesis
    proof (cases r)
      case (Inl e)
      then show ?thesis using False eh r(1) by (auto simp: parse_def Let_def split: option.splits)
    next
      case (Inr a)
      obtain segs ip pv where a: "a = (segs, ip, pv)" by (cases a)
      have "checked_mul ?n 56 = Some (?n * 56)" "checked_add ?start (?n * 56) = Some (?start + ?n * 56)"
        using fits assms by (auto simp: checked_mul_def checked_add_def)
      then show ?thesis using False eh fits r(1) r(2) [OF Inr [unfolded a]] Inr a
        by (auto simp: parse_def elf_file_def Let_def)
    qed
  next
    case False
    then show ?thesis using eh \<open>\<not> length d < 64\<close>
      by (auto simp: parse_def checked_mul_def checked_add_def Let_def)
  qed
qed

text \<open>C16: parsing returns for every file, without a panic and without a read outside the file; a parsed image has
  exactly the loadable segments of the program headers, in order, each with file data inside the file and no longer
  than its size in memory.\<close>

theorem elf_parse_exact:
  assumes "length d < 2 ^ 63"
  shows "\<exists>r. parse d = Inr r \<and> (\<forall>img. r = Inr img \<longrightarrow> (\<exists>eh. elf_file d eh \<and> entry img = e_entry eh \<and>
     segments img = map (segment_of d) (filter loadable (phdrs d eh)) \<and>
     (\<forall>ph \<in> set (filter loadable (phdrs d eh)). load_ok d ph)))"
  using parse_result [OF assms] .

subsection \<open>Loading\<close>

definition seg_bytes :: "u64 \<Rightarrow> LoadedSegment \<Rightarrow> u64 set" where
  "seg_bytes bias s = {a. unat (a - (bias + seg_vaddr s)) < unat (seg_memsz s)}"

definition seg_pages :: "u64 \<Rightarrow> LoadedSegment \<Rightarrow> u64 set" where
  "seg_pages bias s =
     (let v = bias + seg_vaddr s
      in {a. unat (a - page_start v) < unat (mapped_size v (seg_memsz s))})"

text \<open>What is relied on of \<^verbatim>\<open>map_user_range\<close>: it changes no user byte outside the range it maps.\<close>

definition map_local :: "'m map_range \<Rightarrow> bool" where
  "map_local map_user \<longleftrightarrow> (\<forall>v n w x sp m mm. map_user v n w x sp = (True, (m, mm)) \<longrightarrow>
     (\<forall>a. \<not> unat (a - v) < unat n \<longrightarrow> mm a = snd sp a))"

definition seg_value :: "LoadedSegment \<Rightarrow> nat \<Rightarrow> u8" where
  "seg_value s i = (if i < length (seg_data s) then seg_data s ! i else 0)"

text \<open>A segment is in memory when every byte of it is.\<close>

definition in_memory :: "u64 \<Rightarrow> LoadedSegment \<Rightarrow> (u64 \<Rightarrow> u8) \<Rightarrow> bool" where
  "in_memory bias s mm \<longleftrightarrow> (\<forall>a \<in> seg_bytes bias s. mm a = seg_value s (unat (a - (bias + seg_vaddr s))))"

lemma load_segment_in_memory:
  assumes "load_segment map_user bias s sp = (True, (m, mm))" and "length (seg_data s) \<le> unat (seg_memsz s)"
  shows "in_memory bias s mm"
proof -
  let ?v = "bias + seg_vaddr s" and ?n = "length (seg_data s)"
  have n64: "unat (of_nat ?n :: u64) = ?n"
    using assms(2) unsigned_less [of "seg_memsz s", where ?'a = nat] by (simp only: unat_of_nat) (simp add: take_bit_eq_mod)
  have bss: "unat (seg_memsz s - of_nat ?n) = unat (seg_memsz s) - ?n"
    using assms(2) n64 by (simp add: unat_sub word_le_nat_alt)
  have off: "unat (a - (?v + of_nat ?n)) = unat (a - ?v) - ?n" if "?n \<le> unat (a - ?v)" for a
    using that n64 by (simp add: unat_sub word_le_nat_alt flip: diff_diff_eq)
  obtain m0 mm0 where mm: "mm = zero_bytes (?v + of_nat ?n) (unat (seg_memsz s - of_nat ?n)) (store_bytes ?v (seg_data s) mm0)"
    using assms(1) by (auto simp: load_segment_def Let_def split: prod.splits bool.splits)
  have "mm a = seg_value s (unat (a - ?v))" if "unat (a - ?v) < unat (seg_memsz s)" for a
  proof (cases "unat (a - ?v) < ?n")
    case False
    then have "unat (a - (?v + of_nat ?n)) < unat (seg_memsz s - of_nat ?n)" using off [of a] that bss by simp
    then show ?thesis using False by (simp add: mm zero_bytes_def seg_value_def)
  next
    case True
    have "\<not> unat (a - (?v + of_nat ?n)) < unat (seg_memsz s - of_nat ?n)"
    proof -
      have eq: "a - (?v + of_nat ?n) = (a - ?v) - of_nat ?n" by simp
      have u: "unat ((a - ?v) - of_nat ?n) = 2 ^ 64 + unat (a - ?v) - ?n"
        using True n64 unat_sub_if' [of "a - ?v" "of_nat ?n"] by simp
      have "unat (seg_memsz s) < 2 ^ 64" using unsigned_less [of "seg_memsz s", where ?'a = nat] by simp
      then show ?thesis unfolding eq u bss by linarith
    qed
    then show ?thesis using True by (simp add: mm zero_bytes_def store_bytes_def seg_value_def)
  qed
  then show ?thesis by (simp add: in_memory_def seg_bytes_def)
qed

lemma load_segment_elsewhere:
  assumes "load_segment map_user bias s sp = (True, (m, mm))" and "length (seg_data s) \<le> unat (seg_memsz s)"
    and "map_local map_user" and "a \<notin> seg_pages bias s" and "a \<notin> seg_bytes bias s"
  shows "mm a = snd sp a"
proof -
  let ?v = "bias + seg_vaddr s" and ?n = "length (seg_data s)"
  have out: "\<not> unat (a - ?v) < unat (seg_memsz s)" using assms(5) by (simp add: seg_bytes_def)
  have n64: "unat (of_nat ?n :: u64) = ?n"
    using assms(2) unsigned_less [of "seg_memsz s", where ?'a = nat] by (simp only: unat_of_nat) (simp add: take_bit_eq_mod)
  have bss: "unat (seg_memsz s - of_nat ?n) = unat (seg_memsz s) - ?n"
    using assms(2) n64 by (simp add: unat_sub word_le_nat_alt)
  have off: "unat (a - (?v + of_nat ?n)) = unat (a - ?v) - ?n"
    using out assms(2) n64 by (simp add: unat_sub word_le_nat_alt flip: diff_diff_eq)
  let ?t = "mapped_size ?v (seg_memsz s)"
  obtain ok m0 mm0 where mp: "map_user (page_start ?v) ?t (seg_flags s AND PF_W \<noteq> 0) (seg_flags s AND PF_X \<noteq> 0) sp = (ok, (m0, mm0))"
    by (metis prod.exhaust)
  then have ok: "ok" and mm: "mm = zero_bytes (?v + of_nat ?n) (unat (seg_memsz s - of_nat ?n)) (store_bytes ?v (seg_data s) mm0)"
    using assms(1) by (auto simp: load_segment_def Let_def split: bool.splits)
  have "\<not> unat (a - page_start ?v) < unat ?t" using assms(4) by (simp add: seg_pages_def Let_def)
  then have "mm0 a = snd sp a" using mp [simplified ok] assms(3) unfolding map_local_def by blast
  moreover have "\<not> unat (a - (?v + of_nat ?n)) < unat (seg_memsz s - of_nat ?n)" using out off bss by linarith
  then have "mm a = mm0 a" using out assms(2) by (simp add: mm zero_bytes_def store_bytes_def)
  ultimately show ?thesis by simp
qed

text \<open>Segments that can be placed one after the other: none touches the bytes of an earlier one.\<close>

definition apart :: "u64 \<Rightarrow> LoadedSegment list \<Rightarrow> bool" where
  "apart bias segs \<longleftrightarrow> sorted_wrt (\<lambda>s t. seg_bytes bias s \<inter> (seg_pages bias t \<union> seg_bytes bias t) = {}) segs"

lemma load_segments_in_memory:
  assumes "load_segments map_user bias segs sp = (True, (m, mm))" and "map_local map_user" and "apart bias (done @ segs)"
    and "\<forall>s \<in> set segs. length (seg_data s) \<le> unat (seg_memsz s)" and "\<forall>s \<in> set done. in_memory bias s (snd sp)"
  shows "\<forall>s \<in> set (done @ segs). in_memory bias s mm"
  using assms
proof (induction segs arbitrary: "done" sp)
  case (Cons s segs)
  obtain sp1 where l: "load_segment map_user bias s sp = (True, sp1)" and r: "load_segments map_user bias segs sp1 = (True, (m, mm))"
    using Cons.prems(1) by (auto split: prod.splits bool.splits)
  obtain m1 mm1 where sp1: "sp1 = (m1, mm1)" by (cases sp1)
  have len: "length (seg_data s) \<le> unat (seg_memsz s)" using Cons.prems(4) by simp
  have "in_memory bias t mm1" if "t \<in> set done" for t
  proof -
    have "seg_bytes bias t \<inter> (seg_pages bias s \<union> seg_bytes bias s) = {}"
      using Cons.prems(3) that by (simp add: apart_def sorted_wrt_append)
    then have "mm1 a = snd sp a" if "a \<in> seg_bytes bias t" for a
      using load_segment_elsewhere [OF l [unfolded sp1] len Cons.prems(2)] that by blast
    then show ?thesis using Cons.prems(5) that by (simp add: in_memory_def)
  qed
  then have "\<forall>t \<in> set (done @ [s]). in_memory bias t (snd sp1)"
    using load_segment_in_memory [OF l [unfolded sp1] len] sp1 by auto
  then show ?case using Cons.IH [OF r Cons.prems(2), of "done @ [s]"] Cons.prems(3,4) by simp
qed simp


subsection \<open>Relocations\<close>

definition le_field :: "nat \<Rightarrow> bytes \<Rightarrow> nat \<Rightarrow> 'a::len word" where
  "le_field n img off = from_le (take n (drop off img))"

lemma patch_result:
  assumes "length img < 2 ^ 63" and "off + length v \<le> length img"
  shows "patch img off v = Inr (Inr (copy_at off v img))" and "take (length v) (drop off (copy_at off v img)) = v"
  using assms by (auto simp: patch_def uadd_def copy_at_def)

lemma sint_low:
  fixes val :: u64
  assumes "- (2 ^ 31) \<le> sint val" and "sint val \<le> 2 ^ 31 - 1"
  shows "sint (ucast val :: u32) = sint val"
proof -
  have "sint (ucast val :: u32) = signed_take_bit 31 (uint val)" by (simp add: signed_ucast_eq)
  also have "\<dots> = signed_take_bit 31 (sint val)"
    by (simp add: sint_uint)
  also have "\<dots> = sint val" using assms by (intro signed_take_bit_int_eq_self) simp_all
  finally show ?thesis .
qed



subsection \<open>Missing checks\<close>

text \<open>The parser for the dynamic linker adds offset and size without a check: a segment at the end of the address
  range wraps around the comparison, and slicing the file panics.\<close>

lemma dyn_offset_wraps:
  assumes "read_phdr d start = Inr ph" and "start < 2 ^ 64" and "p_type ph = PT_LOAD" and "p_offset ph = - 8"
    and "p_filesz ph = 16" and "8 \<le> length d"
  shows "dyn_phdrs d start (0 # is) segs = Inl (Panicked SliceOutOfRange)"
  using assms by (simp add: uadd_def slice_def)

text \<open>A relocation just below the module wraps around the comparison with the end, and the store panics.\<close>

lemma relocation_before_module_panics:
  "4 \<le> length img \<Longrightarrow> apply_reloc img (2 ^ 64 - 4) 1 s pc a = Inl (Panicked SliceOutOfRange)"
  by (simp add: apply_reloc_def patch_def uadd_def)

subsection \<open>A small program\<close>

definition elf_example :: bytes where
  "elf_example = [0x7f, 0x45, 0x4c, 0x46, 2, 1, 1] @ replicate 9 0 @ [2, 0, 62, 0, 1, 0, 0, 0] @
     [0, 0, 0x40, 0, 0, 0, 0, 0] @ [64, 0, 0, 0, 0, 0, 0, 0] @ replicate 12 0 @ [64, 0, 56, 0, 1, 0] @ replicate 6 0 @
     [1, 0, 0, 0, 5, 0, 0, 0] @ [120, 0, 0, 0, 0, 0, 0, 0] @ [0, 0, 0x40, 0, 0, 0, 0, 0] @ replicate 8 0 @
     [2, 0, 0, 0, 0, 0, 0, 0] @ [4, 0, 0, 0, 0, 0, 0, 0] @ [0, 0x10, 0, 0, 0, 0, 0, 0] @ [0xAA, 0xBB]"

definition image_example :: ElfImage where
  "image_example = \<lparr>entry = 0x400000, segments = [\<lparr>seg_vaddr = 0x400000, seg_memsz = 4, seg_data = [0xAA, 0xBB], seg_flags = 5\<rparr>],
     interp = None, phdr_vaddr = None, phnum = 1\<rparr>"

lemma replicate_eval: "replicate 6 x = [x, x, x, x, x, x]" "replicate 8 x = [x, x, x, x, x, x, x, x]"
  "replicate 9 x = [x, x, x, x, x, x, x, x, x]" "replicate 12 x = [x, x, x, x, x, x, x, x, x, x, x, x]"
  by (simp_all add: numeral_eq_Suc)

lemmas elf_eval = le_at_def from_le_def from_be_def replicate_eval

lemma parse_example: "parse elf_example = Inr (Inr image_example)"
proof -
  have rd: "read_ehdr elf_example = Inr \<lparr>e_ident = [0x7f, 0x45, 0x4c, 0x46, 2, 1, 1] @ replicate 9 0, e_type = 2, e_machine = 62,
      e_version = 1, e_entry = 0x400000, e_phoff = 64, e_shoff = 0, e_flags = 0, e_ehsize = 64, e_phentsize = 56,
      e_phnum = 1, e_shentsize = 0, e_shnum = 0, e_shstrndx = 0\<rparr>"
    by (simp add: read_ehdr_def elf_example_def elf_eval)
  have ph: "phdr_bytes elf_example 64 = \<lparr>p_type = 1, p_flags = 5, p_offset = 120, p_vaddr = 0x400000, p_paddr = 0, p_filesz = 2,
      p_memsz = 4, p_align = 0x1000\<rparr>"
    by (simp add: phdr_bytes_def elf_example_def elf_eval)
  have len: "length elf_example = 122" and dat: "take 2 (drop 120 elf_example) = [0xAA, 0xBB]"
    by (simp_all add: elf_example_def replicate_eval)
  have "load_phdr elf_example (phdr_bytes elf_example 64) =
      Inr (Inr \<lparr>seg_vaddr = 0x400000, seg_memsz = 4, seg_data = [0xAA, 0xBB], seg_flags = 5\<rparr>)"
    using len dat by (simp add: load_phdr_result load_ok_def segment_of_def ph)
  then show ?thesis using rd ph len
    by (simp add: parse_def read_phdr_def uadd_def checked_mul_def checked_add_def image_example_def)
qed

theorem elf_parse_exact_witness:
  "parse elf_example = Inr (Inr image_example) \<and> (\<exists>eh. elf_file elf_example eh \<and>
     segments image_example = map (segment_of elf_example) (filter loadable (phdrs elf_example eh)))"
  using elf_parse_exact [of elf_example] parse_example by (auto simp: elf_example_def)


end
