(* ===== verification/Job_Control.thy ===== *)
theory Job_Control
  imports Scheduler_Inv
begin

section \<open>Foreground and background jobs\<close>

text \<open>
  The rest of \<^verbatim>\<open>job_control.rs\<close>, over the scheduler's state: the foreground group with the priority
  bonus for its members and for the processes they habitually wake, and the signals that stop and
  continue a job. The group tables themselves are in the theory Job_Groups.
\<close>

abbreviation (input) FG_CAUSAL_BONUS :: int where "FG_CAUSAL_BONUS \<equiv> - 8"

abbreviation (input) FG_DIRECT_BONUS :: int where "FG_DIRECT_BONUS \<equiv> - 15"

definition adjust_nice :: "u32 \<Rightarrow> int \<Rightarrow> 'w Sched \<Rightarrow> 'w Sched" where
  "adjust_nice pid nice_delta s = set_nice_override (ucast pid) nice_delta s"

definition successors_of :: "u32 \<Rightarrow> 'w Sched \<Rightarrow> u32 list" where
  "successors_of pid s = map ucast (predict_successors (ucast pid) (s_graph s))"

definition withdraw_bonus :: "u32 \<Rightarrow> 'w Sched \<Rightarrow> 'w Sched" where
  "withdraw_bonus old_fg s =
     fold (\<lambda>pid s1. fold (\<lambda>q s2. adjust_nice q 0 s2) (successors_of pid s1) (adjust_nice pid 0 s1))
       (group_members old_fg (s_jobs s)) s"

definition causal_set :: "u32 list \<Rightarrow> 'w Sched \<Rightarrow> u32 list" where
  "causal_set members s =
     fold (\<lambda>pid acc. fold (\<lambda>q acc1. if q \<in> set members then acc1 else bs_insert q acc1) (successors_of pid s) acc)
       members []"

definition tcsetpgrp :: "u32 \<Rightarrow> 'w Sched \<Rightarrow> 'w Sched" where
  "tcsetpgrp pgid s =
     (let old_fg = fg_pgid (s_jobs s);
          s1 = s\<lparr>s_jobs := (s_jobs s)\<lparr>fg_pgid := pgid\<rparr>\<rparr>;
          s2 = (if old_fg \<noteq> 0 \<and> old_fg \<noteq> pgid then withdraw_bonus old_fg s1 else s1)
      in if pgid = 0 then s2
      else let members = group_members pgid (s_jobs s2);
               s3 = fold (\<lambda>pid. adjust_nice pid FG_DIRECT_BONUS) members s2
           in fold (\<lambda>pid. adjust_nice pid FG_CAUSAL_BONUS) (causal_set members s3) s3)"

definition tcgetpgrp :: "'w Sched \<Rightarrow> u32" where
  "tcgetpgrp s = fg_pgid (s_jobs s)"

definition signal_group :: "u32 \<Rightarrow> u8 \<Rightarrow> 'w Sched \<Rightarrow> 'w Sched" where
  "signal_group pgid signum s = fold (\<lambda>pid. send_signal (ucast pid) signum) (group_members pgid (s_jobs s)) s"

definition stop_job :: "u32 \<Rightarrow> 'w Sched \<Rightarrow> 'w Sched" where
  "stop_job pgid s =
     (let s1 = signal_group pgid 20 s in if fg_pgid (s_jobs s1) = pgid then tcsetpgrp 0 s1 else s1)"

definition continue_job_bg :: "u32 \<Rightarrow> 'w Sched \<Rightarrow> 'w Sched" where
  "continue_job_bg pgid s = signal_group pgid 18 s"

definition continue_job_fg :: "u32 \<Rightarrow> 'w Sched \<Rightarrow> 'w Sched" where
  "continue_job_fg pgid s = tcsetpgrp pgid (signal_group pgid 18 s)"

subsection \<open>The bonus of the foreground group\<close>

text \<open>The second state differs from the first in nice adjustments of tasks only: that of \<open>q\<close> is what \<open>f\<close> gives it, if it gives one.\<close>

definition nices_set :: "(Pid \<Rightarrow> int option) \<Rightarrow> 'w Sched \<Rightarrow> 'w Sched \<Rightarrow> bool" where
  "nices_set f s s' \<longleftrightarrow> (\<exists>ts. s' = s\<lparr>s_tasks := ts\<rparr>) \<and>
     (\<forall>q. get_task q s' = map_option (\<lambda>t. case f q of Some n \<Rightarrow> set_nice n t | None \<Rightarrow> t) (get_task q s))"

lemma nices_refl: "nices_set (\<lambda>_. None) s s"
  by (auto simp: nices_set_def option.map_ident intro!: exI [of _ "s_tasks s"])

lemma nices_trans:
  assumes "nices_set f a b" and "nices_set g b c"
    and h: "\<And>q. h q = (case g q of Some n \<Rightarrow> Some n | None \<Rightarrow> f q)"
  shows "nices_set h a c"
proof -
  have "\<exists>ts. c = a\<lparr>s_tasks := ts\<rparr>" using assms by (auto simp: nices_set_def)
  moreover have "get_task q c = map_option (\<lambda>t. case h q of Some n \<Rightarrow> set_nice n t | None \<Rightarrow> t) (get_task q a)" for q
    using assms(1,2) by (cases "get_task q a") (auto simp: h nices_set_def set_nice_def split: option.splits)
  ultimately show ?thesis by (simp add: nices_set_def)
qed

lemma adjust_nices: "nices_set (\<lambda>q. if q = ucast p then Some n else None) s (adjust_nice p n s)"
proof -
  have "\<exists>ts. mod_task (ucast p) (set_nice n) s = s\<lparr>s_tasks := ts\<rparr>" unfolding mod_task_def by blast
  then show ?thesis by (simp add: nices_set_def adjust_nice_def set_nice_override_def option.map_ident)
qed

lemma nices_parts:
  assumes "nices_set f s s'"
  shows "s_graph s' = s_graph s" and "s_jobs s' = s_jobs s"
  using assms by (auto simp: nices_set_def)

lemma adjust_all: "nices_set (\<lambda>q. if q \<in> ucast ` set ps then Some n else None) s (fold (\<lambda>p. adjust_nice p n) ps s)"
proof (induction ps arbitrary: s)
  case Nil
  then show ?case by (simp add: nices_refl)
next
  case (Cons p ps)
  have "nices_set (\<lambda>q. if q \<in> ucast ` set (p # ps) then Some n else None) s (fold (\<lambda>p. adjust_nice p n) ps (adjust_nice p n s))"
    by (rule nices_trans [OF adjust_nices Cons.IH]) auto
  then show ?case by simp
qed

definition reach :: "u32 list \<Rightarrow> 'w Sched \<Rightarrow> u32 set" where
  "reach ps s = (\<Union>p \<in> set ps. set (successors_of p s))"

lemma successors_same: "nices_set f s s' \<Longrightarrow> successors_of p s' = successors_of p s"
  by (simp add: successors_of_def nices_parts)

lemma withdraw_all:
  "nices_set (\<lambda>q. if q \<in> ucast ` (set ps \<union> reach ps s) then Some 0 else None) s
     (fold (\<lambda>pid s1. fold (\<lambda>q s2. adjust_nice q 0 s2) (successors_of pid s1) (adjust_nice pid 0 s1)) ps s)"
proof (induction ps arbitrary: s)
  case Nil
  then show ?case by (simp add: nices_refl reach_def)
next
  case (Cons p ps)
  let ?s1 = "adjust_nice p 0 s" and ?s2 = "fold (\<lambda>q s2. adjust_nice q 0 s2) (successors_of p s) (adjust_nice p 0 s)"
  have n2: "nices_set (\<lambda>q. if q \<in> ucast ` (insert p (set (successors_of p s))) then Some 0 else None) s ?s2"
    by (rule nices_trans [OF adjust_nices adjust_all]) auto
  have e: "successors_of p ?s1 = successors_of p s" "reach ps ?s2 = reach ps s"
    using successors_same [OF adjust_nices] successors_same [OF n2] by (simp_all add: reach_def)
  have "nices_set (\<lambda>q. if q \<in> ucast ` (set (p # ps) \<union> reach (p # ps) s) then Some 0 else None) s
      (fold (\<lambda>pid s1. fold (\<lambda>q s2. adjust_nice q 0 s2) (successors_of pid s1) (adjust_nice pid 0 s1)) ps ?s2)"
    by (rule nices_trans [OF n2 Cons.IH [of ?s2]]) (unfold e(2), auto simp: reach_def)
  then show ?case by (simp add: e)
qed

lemma set_causal_set: "set (causal_set members s) = reach members s - set members"
proof -
  have inner: "set (fold (\<lambda>q acc. if q \<in> M then acc else bs_insert q acc) qs acc) = set acc \<union> (set qs - M)"
    for M and qs acc :: "u32 list"
    by (induction qs arbitrary: acc) auto
  have "set (fold (\<lambda>pid acc. fold (\<lambda>q acc1. if q \<in> M then acc1 else bs_insert q acc1) (successors_of pid s) acc) ps acc) =
      set acc \<union> (reach ps s - M)" for M ps acc
    by (induction ps arbitrary: acc) (auto simp: inner reach_def)
  then show ?thesis by (simp add: causal_set_def)
qed

text \<open>C39: bringing a group to the foreground gives its members the direct bonus, the processes they habitually
  wake the causal bonus, takes the bonus from the previous foreground group and the processes it wakes, and leaves
  every other adjustment, and everything else of the scheduler, alone.\<close>

theorem foreground_bonus:
  "tcgetpgrp (tcsetpgrp pgid s) = pgid \<and>
   (let old_fg = tcgetpgrp s;
        members = (if pgid = 0 then [] else group_members pgid (s_jobs s));
        old = (if old_fg \<noteq> 0 \<and> old_fg \<noteq> pgid then group_members old_fg (s_jobs s) else [])
    in nices_set (\<lambda>q. if q \<in> ucast ` (reach members s - set members) then Some FG_CAUSAL_BONUS
                      else if q \<in> ucast ` set members then Some FG_DIRECT_BONUS
                      else if q \<in> ucast ` (set old \<union> reach old s) then Some 0 else None)
         (s\<lparr>s_jobs := (s_jobs s)\<lparr>fg_pgid := pgid\<rparr>\<rparr>) (tcsetpgrp pgid s))"
proof -
  let ?s1 = "s\<lparr>s_jobs := (s_jobs s)\<lparr>fg_pgid := pgid\<rparr>\<rparr>" and ?old_fg = "fg_pgid (s_jobs s)"
  define old where "old = (if ?old_fg \<noteq> 0 \<and> ?old_fg \<noteq> pgid then group_members ?old_fg (s_jobs s) else [])"
  define s2 where "s2 = (if ?old_fg \<noteq> 0 \<and> ?old_fg \<noteq> pgid then withdraw_bonus ?old_fg ?s1 else ?s1)"
  have gm: "group_members g (s_jobs ?s1) = group_members g (s_jobs s)" for g by (simp add: group_members_def)
  have rs: "reach ps ?s1 = reach ps s" for ps by (simp add: reach_def successors_of_def)
  have n2: "nices_set (\<lambda>q. if q \<in> ucast ` (set old \<union> reach old s) then Some 0 else None) ?s1 s2"
  proof -
    have "s2 = fold (\<lambda>pid s1. fold (\<lambda>q s2. adjust_nice q 0 s2) (successors_of pid s1) (adjust_nice pid 0 s1)) old ?s1"
      unfolding s2_def old_def withdraw_bonus_def gm by simp
    then show ?thesis using withdraw_all [of old ?s1] by (simp only: rs)
  qed
  show ?thesis
  proof (cases "pgid = 0")
    case True
    then have "tcsetpgrp pgid s = s2" by (simp add: tcsetpgrp_def s2_def Let_def)
    then show ?thesis using n2 True nices_parts(2) [OF n2] by (simp add: tcgetpgrp_def old_def reach_def)
  next
    case False
    define members where "members = group_members pgid (s_jobs s)"
    let ?s3 = "fold (\<lambda>pid. adjust_nice pid FG_DIRECT_BONUS) members s2"
    have m2: "group_members pgid (s_jobs s2) = members" using nices_parts(2) [OF n2] by (simp add: members_def group_members_def)
    have n3: "nices_set (\<lambda>q. if q \<in> ucast ` set members then Some FG_DIRECT_BONUS
        else if q \<in> ucast ` (set old \<union> reach old s) then Some 0 else None) ?s1 ?s3"
      by (rule nices_trans [OF n2 adjust_all [of members FG_DIRECT_BONUS s2]]) auto
    have c: "set (causal_set members ?s3) = reach members s - set members"
      using successors_same [OF n3] rs [of members] by (simp add: set_causal_set reach_def)
    have r: "tcsetpgrp pgid s = fold (\<lambda>pid. adjust_nice pid FG_CAUSAL_BONUS) (causal_set members ?s3) ?s3"
      using False m2 by (simp add: tcsetpgrp_def s2_def [symmetric] Let_def)
    have n4: "nices_set (\<lambda>q. if q \<in> ucast ` (reach members s - set members) then Some FG_CAUSAL_BONUS
        else if q \<in> ucast ` set members then Some FG_DIRECT_BONUS
        else if q \<in> ucast ` (set old \<union> reach old s) then Some 0 else None) ?s1 (tcsetpgrp pgid s)"
      unfolding r by (rule nices_trans [OF n3 adjust_all]) (simp add: c)
    show ?thesis using n4 nices_parts(2) [OF n4] False unfolding tcgetpgrp_def Let_def old_def members_def by simp
  qed
qed

subsection \<open>The scheduler's invariant\<close>

lemma sched_inv_fold:
  assumes "\<And>x s. sched_inv s \<Longrightarrow> sched_inv (f x s)" and "sched_inv s"
  shows "sched_inv (fold f xs s)"
  using assms(2) by (induction xs arbitrary: s) (simp_all add: assms(1))

lemma sched_inv_adjust [kinv]: "sched_inv s \<Longrightarrow> sched_inv (adjust_nice p n s)"
  by (auto simp: adjust_nice_def set_nice_override_def intro: kinv)

lemma sched_inv_tcsetpgrp [kinv]:
  assumes "sched_inv s"
  shows "sched_inv (tcsetpgrp pgid s)"
proof -
  have "sched_inv (s\<lparr>s_jobs := j\<rparr>)" for j using assms by (simp add: sched_inv_def get_task_def)
  then show ?thesis
    by (auto simp: tcsetpgrp_def withdraw_bonus_def Let_def intro!: sched_inv_fold sched_inv_adjust)
qed

lemma sched_inv_signal_group [kinv]: "sched_inv s \<Longrightarrow> sched_inv (signal_group pgid n s)"
  by (auto simp: signal_group_def intro!: sched_inv_fold kinv)

lemma sched_inv_jobs [kinv]:
  "sched_inv s \<Longrightarrow> sched_inv (stop_job pgid s)"
  "sched_inv s \<Longrightarrow> sched_inv (continue_job_bg pgid s)"
  "sched_inv s \<Longrightarrow> sched_inv (continue_job_fg pgid s)"
  by (auto simp: stop_job_def continue_job_bg_def continue_job_fg_def Let_def intro!: kinv)

end
