(* ===== verification/Net_Wire.thy ===== *)
theory Net_Wire
  imports Format "HOL-Library.Char_ord"
begin

section \<open>Packet formats of the network stack\<close>

text \<open>
  The wire formats of \<^verbatim>\<open>net.rs\<close>: Ethernet, ARP, IPv4, ICMP, UDP, TCP headers, DNS replies and DHCP
  messages, with the Internet checksum. Addresses are byte lists of the length of Rust's arrays.
  A read at a fixed offset follows a length check in the code; a read or slice at a computed
  position is checked in the model, and its failure is a panic.
\<close>

definition idx :: "bytes \<Rightarrow> nat \<Rightarrow> u8 rust" where
  "idx d i = (if i < length d then Inr (d ! i) else Inl IndexOutOfBounds)"

definition range_of :: "bytes \<Rightarrow> nat \<Rightarrow> nat \<Rightarrow> bytes rust" where
  "range_of d a b = (if a \<le> b \<and> b \<le> length d then Inr (take (b - a) (drop a d)) else Inl SliceOutOfRange)"

definition field :: "nat \<Rightarrow> bytes \<Rightarrow> nat \<Rightarrow> bytes" where
  "field n d off = take n (drop off d)"

definition be16_at :: "bytes \<Rightarrow> nat \<Rightarrow> u16" where
  "be16_at d off = from_be (field 2 d off)"

definition be32_at :: "bytes \<Rightarrow> nat \<Rightarrow> u32" where
  "be32_at d off = from_be (field 4 d off)"

text \<open>The two assignments that fill in a checksum.\<close>

definition put16 :: "nat \<Rightarrow> u16 \<Rightarrow> bytes \<Rightarrow> bytes" where
  "put16 i v d = d[i := ucast (drop_bit 8 v), Suc i := ucast (v AND 0xFF)]"

subsection \<open>Ethernet and ARP\<close>

abbreviation (input) ETHERTYPE_ARP :: u16 where "ETHERTYPE_ARP \<equiv> 0x0806"

abbreviation (input) ETHERTYPE_IPV4 :: u16 where "ETHERTYPE_IPV4 \<equiv> 0x0800"

abbreviation (input) BROADCAST_MAC :: bytes where "BROADCAST_MAC \<equiv> [0xFF, 0xFF, 0xFF, 0xFF, 0xFF, 0xFF]"

record EthFrame =
  dst_mac :: bytes
  src_mac :: bytes
  ethertype :: u16
  eth_payload :: bytes

definition eth_parse :: "bytes \<Rightarrow> EthFrame option" where
  "eth_parse raw =
     (if length raw < 14 then None
      else Some \<lparr>dst_mac = field 6 raw 0, src_mac = field 6 raw 6, ethertype = be16_at raw 12,
                 eth_payload = drop 14 raw\<rparr>)"

definition eth_build :: "bytes \<Rightarrow> bytes \<Rightarrow> u16 \<Rightarrow> bytes \<Rightarrow> bytes" where
  "eth_build dst src et payload = dst @ src @ to_be 2 et @ payload"

abbreviation (input) ARP_REQUEST :: u16 where "ARP_REQUEST \<equiv> 1"

abbreviation (input) ARP_REPLY :: u16 where "ARP_REPLY \<equiv> 2"

record ArpPacket =
  arp_op :: u16
  sha :: bytes
  spa :: bytes
  tha :: bytes
  tpa :: bytes

definition arp_parse :: "bytes \<Rightarrow> ArpPacket option" where
  "arp_parse raw =
     (if length raw < 28 then None
      else if field 2 raw 0 \<noteq> [0, 1] then None
      else if field 2 raw 2 \<noteq> [0x08, 0x00] then None
      else Some \<lparr>arp_op = be16_at raw 6, sha = field 6 raw 8, spa = field 4 raw 14, tha = field 6 raw 18,
                 tpa = field 4 raw 24\<rparr>)"

definition build_reply :: "bytes \<Rightarrow> bytes \<Rightarrow> bytes \<Rightarrow> bytes \<Rightarrow> bytes" where
  "build_reply our_mac our_ip req_mac req_ip =
     [0, 1] @ [0x08, 0x00] @ [6, 4] @ to_be 2 ARP_REPLY @ our_mac @ our_ip @ req_mac @ req_ip"

definition build_request :: "bytes \<Rightarrow> bytes \<Rightarrow> bytes \<Rightarrow> bytes" where
  "build_request our_mac our_ip target_ip =
     [0, 1] @ [0x08, 0x00] @ [6, 4] @ to_be 2 ARP_REQUEST @ our_mac @ our_ip @ BROADCAST_MAC @ target_ip"

subsection \<open>IPv4 and the Internet checksum\<close>

abbreviation (input) IP_PROTO_ICMP :: u8 where "IP_PROTO_ICMP \<equiv> 1"

abbreviation (input) IP_PROTO_UDP :: u8 where "IP_PROTO_UDP \<equiv> 17"

abbreviation (input) IP_PROTO_TCP :: u8 where "IP_PROTO_TCP \<equiv> 6"

record Ipv4Header =
  ihl :: u8
  tos :: u8
  total_len :: u16
  ip_id :: u16
  flags_frag :: u16
  ttl :: u8
  proto :: u8
  ip_checksum :: u16
  ip_src :: bytes
  ip_dst :: bytes

definition ipv4_parse :: "bytes \<Rightarrow> Ipv4Header option" where
  "ipv4_parse raw =
     (if length raw < 20 then None
      else if drop_bit 4 (raw ! 0) \<noteq> 4 then None
      else Some \<lparr>ihl = raw ! 0 AND 0xF, tos = raw ! 1, total_len = be16_at raw 2, ip_id = be16_at raw 4,
                 flags_frag = be16_at raw 6, ttl = raw ! 8, proto = raw ! 9, ip_checksum = be16_at raw 10,
                 ip_src = field 4 raw 12, ip_dst = field 4 raw 16\<rparr>)"

definition ip_header_len :: "Ipv4Header \<Rightarrow> nat" where
  "ip_header_len h = unat (ihl h) * 4"

text \<open>The chunks of two bytes, the last one padded, and their sum with the carries added back in.\<close>

fun words :: "bytes \<Rightarrow> u16 list" where
  "words [] = []"
| "words [b] = [push_bit 8 (ucast b)]"
| "words (a # b # d) = from_be [a, b] # words d"

function fold_carry :: "u32 \<Rightarrow> u32" where
  "fold_carry s = (if drop_bit 16 s \<noteq> 0 then fold_carry ((s AND 0xFFFF) + drop_bit 16 s) else s)"
  by pat_completeness auto

lemma unat_halves:
  "unat (drop_bit 16 (s::u32)) = unat s div 65536" "unat (s AND 0xFFFF) = unat s mod 65536"
proof -
  have "unat (drop_bit 16 s) = drop_bit 16 (unat s)" by (rule unat_drop_bit_eq)
  then show "unat (drop_bit 16 s) = unat s div 65536" by (simp add: drop_bit_eq_div)
  have "s AND 0xFFFF = take_bit 16 s" by (simp add: take_bit_eq_mask mask_eq_exp_minus_1)
  moreover have "unat (take_bit 16 s) = take_bit 16 (unat s)" by (rule unsigned_take_bit_eq)
  ultimately show "unat (s AND 0xFFFF) = unat s mod 65536" by (simp add: take_bit_eq_mod)
qed

lemma carry_unat: "unat ((s AND 0xFFFF) + drop_bit 16 s :: u32) = unat s mod 65536 + unat s div 65536"
proof -
  have "unat s < 2 ^ 32" using unsigned_less [of s, where ?'a = nat] by simp
  then have "unat s mod 65536 + unat s div 65536 < 2 ^ 32" by simp
  then show ?thesis by (simp add: unat_word_ariths unat_halves)
qed

lemma drop_bit_16_zero: "drop_bit 16 (s::u32) = 0 \<longleftrightarrow> unat s < 65536"
proof -
  have "drop_bit 16 s = 0 \<longleftrightarrow> unat (drop_bit 16 s) = 0" by (simp only: unat_eq_0)
  then show ?thesis by (simp only: unat_halves div_eq_0_iff) simp
qed

termination fold_carry
proof (relation "measure unat")
  fix s :: u32
  assume "drop_bit 16 s \<noteq> 0"
  then have "65536 \<le> unat s" by (simp add: drop_bit_16_zero)
  then have "unat s mod 65536 + unat s div 65536 < unat s"
    using div_mult_mod_eq [of "unat s" 65536] div_le_mono [of 65536 "unat s" 65536] by linarith
  then show "((s AND 0xFFFF) + drop_bit 16 s, s) \<in> measure unat" by (simp only: in_measure carry_unat)
qed simp

declare fold_carry.simps [simp del]

definition ipv4_checksum :: "bytes \<Rightarrow> u16" where
  "ipv4_checksum header = NOT (ucast (fold_carry (fold (\<lambda>w sum. sum + ucast w) (words header) 0)))"

definition ipv4_build :: "u8 \<Rightarrow> bytes \<Rightarrow> bytes \<Rightarrow> nat \<Rightarrow> bytes" where
  "ipv4_build p src dst payload_len =
     (let total = 20 + payload_len;
          h = [0x45, 0] @ to_be 2 (of_nat total :: u16) @ [0, 1] @ [0x40, 0] @ [64, p] @ [0, 0] @ src @ dst
      in put16 10 (ipv4_checksum h) h)"

definition build_icmp_echo_reply :: "u16 \<Rightarrow> u16 \<Rightarrow> bytes \<Rightarrow> bytes" where
  "build_icmp_echo_reply ident seq d =
     (let pkt = [0, 0] @ [0, 0] @ to_be 2 ident @ to_be 2 seq @ d in put16 2 (ipv4_checksum pkt) pkt)"

definition build_icmp_echo_request :: "u16 \<Rightarrow> u16 \<Rightarrow> bytes \<Rightarrow> bytes" where
  "build_icmp_echo_request ident seq d =
     (let pkt = [8, 0] @ [0, 0] @ to_be 2 ident @ to_be 2 seq @ d in put16 2 (ipv4_checksum pkt) pkt)"

subsection \<open>UDP and TCP\<close>

record UdpDatagram =
  udp_src_port :: u16
  udp_dst_port :: u16
  udp_payload :: bytes

definition udp_parse :: "bytes \<Rightarrow> UdpDatagram option rust" where
  "udp_parse raw =
     (if length raw < 8 then Inr None
      else let n = unat (be16_at raw 4)
      in if n < 8 \<or> length raw < n then Inr None
      else case range_of raw 8 n of
             Inl p \<Rightarrow> Inl p
           | Inr d \<Rightarrow> Inr (Some \<lparr>udp_src_port = be16_at raw 0, udp_dst_port = be16_at raw 2, udp_payload = d\<rparr>))"

definition udp_build :: "u16 \<Rightarrow> u16 \<Rightarrow> bytes \<Rightarrow> bytes" where
  "udp_build src dst payload =
     to_be 2 src @ to_be 2 dst @ to_be 2 (of_nat (8 + length payload) :: u16) @ [0, 0] @ payload"

abbreviation (input) FIN :: u8 where "FIN \<equiv> 0x01"

abbreviation (input) SYN :: u8 where "SYN \<equiv> 0x02"

abbreviation (input) RST :: u8 where "RST \<equiv> 0x04"

abbreviation (input) PSH :: u8 where "PSH \<equiv> 0x08"

abbreviation (input) ACK :: u8 where "ACK \<equiv> 0x10"

record TcpHeader =
  src_port :: u16
  dst_port :: u16
  th_seq :: u32
  th_ack :: u32
  data_off :: u8
  th_flags :: u8
  window :: u16
  th_checksum :: u16
  urgent_ptr :: u16

definition tcp_parse :: "bytes \<Rightarrow> TcpHeader option" where
  "tcp_parse raw =
     (if length raw < 20 then None
      else Some \<lparr>src_port = be16_at raw 0, dst_port = be16_at raw 2, th_seq = be32_at raw 4, th_ack = be32_at raw 8,
                 data_off = drop_bit 4 (raw ! 12), th_flags = raw ! 13, window = be16_at raw 14,
                 th_checksum = be16_at raw 16, urgent_ptr = be16_at raw 18\<rparr>)"

definition tcp_header_len :: "TcpHeader \<Rightarrow> nat" where
  "tcp_header_len h = unat (data_off h) * 4"

definition tcp_checksum :: "bytes \<Rightarrow> bytes \<Rightarrow> bytes \<Rightarrow> u16" where
  "tcp_checksum src_ip dst_ip tcp_seg =
     ipv4_checksum (src_ip @ dst_ip @ [0, IP_PROTO_TCP] @ to_be 2 (of_nat (length tcp_seg) :: u16) @ tcp_seg)"

definition tcp_build :: "u16 \<Rightarrow> u16 \<Rightarrow> u32 \<Rightarrow> u32 \<Rightarrow> u8 \<Rightarrow> u16 \<Rightarrow> bytes \<Rightarrow> bytes \<Rightarrow> bytes \<Rightarrow> bytes" where
  "tcp_build sport dport seq ack flags wnd src_ip dst_ip payload =
     (let seg = to_be 2 sport @ to_be 2 dport @ to_be 4 seq @ to_be 4 ack @ [0x50, flags] @ to_be 2 wnd @ [0, 0] @
            [0, 0] @ payload
      in put16 16 (tcp_checksum src_ip dst_ip seg) seg)"

subsection \<open>DNS replies\<close>

text \<open>Skipping a name: in the question, where a compression pointer ends it, and in an answer.\<close>

function skip_qname :: "bytes \<Rightarrow> nat \<Rightarrow> nat rust" where
  "skip_qname d pos =
     (if pos < length d
      then case idx d pos of
             Inl p \<Rightarrow> Inl p
           | Inr b \<Rightarrow> if b = 0 then Inr (pos + 1) else if 0xC0 \<le> b then Inr (pos + 2)
                      else skip_qname d (pos + 1 + unat b)
      else Inr pos)"
  by pat_completeness auto
termination
  by (relation "measure (\<lambda>(d, pos). length d - pos)") auto

function skip_name :: "bytes \<Rightarrow> nat \<Rightarrow> nat rust" where
  "skip_name d pos =
     (if pos < length d
      then case idx d pos of
             Inl p \<Rightarrow> Inl p
           | Inr b \<Rightarrow> if b = 0 then Inr (pos + 1) else skip_name d (pos + 1 + unat b)
      else Inr pos)"
  by pat_completeness auto
termination
  by (relation "measure (\<lambda>(d, pos). length d - pos)") auto

declare skip_qname.simps [simp del] skip_name.simps [simp del]

fun dns_answers :: "bytes \<Rightarrow> nat \<Rightarrow> nat \<Rightarrow> (bytes \<times> u32) option rust" where
  "dns_answers d 0 pos = Inr None"
| "dns_answers d (Suc n) pos =
     (if length d < pos + 12 then Inr None
      else case idx d pos of
        Inl p \<Rightarrow> Inl p
      | Inr b \<Rightarrow>
          (case (if 0xC0 \<le> b then Inr (pos + 2) else skip_name d pos) of
             Inl p \<Rightarrow> Inl p
           | Inr pos1 \<Rightarrow>
               if length d < pos1 + 10 then Inr None
               else (case range_of d pos1 (pos1 + 10) of
                       Inl p \<Rightarrow> Inl p
                     | Inr rr \<Rightarrow>
                         (let rtype = be16_at rr 0; ttl' = be32_at rr 4; rdlength = unat (be16_at rr 8); pos2 = pos1 + 10
                          in if rtype = 1 \<and> rdlength = 4 \<and> pos2 + 4 \<le> length d
                             then (case range_of d pos2 (pos2 + 4) of
                                     Inl p \<Rightarrow> Inl p | Inr a \<Rightarrow> Inr (Some (a, ttl')))
                             else dns_answers d n (pos2 + rdlength)))))"

definition parse_dns_reply :: "bytes \<Rightarrow> (bytes \<times> u32) option rust" where
  "parse_dns_reply d =
     (if length d < 12 then Inr None
      else if be16_at d 2 AND 0x8000 = 0 then Inr None
      else let ancount = be16_at d 6
      in if ancount = 0 then Inr None
      else case skip_qname d 12 of
             Inl p \<Rightarrow> Inl p
           | Inr pos \<Rightarrow> dns_answers d (unat ancount) (pos + 4))"

text \<open>The labels of a name, or nothing when one is too long.\<close>

fun dns_labels :: "string list \<Rightarrow> bytes option" where
  "dns_labels [] = Some [0]"
| "dns_labels (l # ls) =
     (if 63 < length l then None
      else map_option (\<lambda>rest. of_nat (length l) # str_bytes l @ rest) (dns_labels ls))"

definition dns_question :: "u16 \<Rightarrow> string \<Rightarrow> bytes option" where
  "dns_question txid hostname =
     map_option (\<lambda>labels. to_be 2 txid @ [0x01, 0x00, 0x00, 0x01, 0x00, 0x00, 0x00, 0x00, 0x00, 0x00] @ labels @
         [0x00, 0x01] @ [0x00, 0x01])
       (dns_labels (split_char (CHR ''.'') hostname))"

subsection \<open>DHCP messages\<close>

abbreviation (input) DHCP_DISCOVER :: u8 where "DHCP_DISCOVER \<equiv> 1"

abbreviation (input) DHCP_OFFER :: u8 where "DHCP_OFFER \<equiv> 2"

abbreviation (input) DHCP_REQUEST :: u8 where "DHCP_REQUEST \<equiv> 3"

abbreviation (input) DHCP_ACK :: u8 where "DHCP_ACK \<equiv> 5"

record DhcpOffer =
  your_ip :: bytes
  server_ip :: bytes
  subnet :: bytes
  dhcp_gateway :: bytes
  dhcp_dns :: bytes
  lease :: u32

definition build_dhcp_msg :: "u8 \<Rightarrow> bytes \<Rightarrow> bytes option \<Rightarrow> bytes" where
  "build_dhcp_msg msg_type our_mac requested_ip =
     (let pkt = [1, 1, 6, 0] @ to_be 4 (0x4E4F4445 :: u32) @ [0, 0] @ [0x80, 0x00] @ replicate 4 0 @ replicate 4 0 @
            replicate 4 0 @ replicate 4 0 @ our_mac @ replicate 10 0 @ replicate 64 0 @ replicate 128 0 @
            [99, 130, 83, 99] @ [53, 1, msg_type] @
            (case requested_ip of Some ip \<Rightarrow> [50, 4] @ ip | None \<Rightarrow> []) @ [55, 4, 1, 3, 6, 51] @ [255]
      in pkt @ replicate (300 - length pkt) 0)"

text \<open>One option of a reply, and the loop over the options, with the message type beside the offer.\<close>

definition dhcp_option :: "u8 \<Rightarrow> bytes \<Rightarrow> u8 \<times> DhcpOffer \<Rightarrow> u8 \<times> DhcpOffer" where
  "dhcp_option opt val acc =
     (let (msg_type, off) = acc
      in if opt = 53 then (if val \<noteq> [] then (val ! 0, off) else acc)
      else if opt = 1 then (if 4 \<le> length val then (msg_type, off\<lparr>subnet := take 4 val\<rparr>) else acc)
      else if opt = 3 then (if 4 \<le> length val then (msg_type, off\<lparr>dhcp_gateway := take 4 val\<rparr>) else acc)
      else if opt = 6 then (if 4 \<le> length val then (msg_type, off\<lparr>dhcp_dns := take 4 val\<rparr>) else acc)
      else if opt = 51 then (if 4 \<le> length val then (msg_type, off\<lparr>lease := from_be (take 4 val)\<rparr>) else acc)
      else acc)"

function dhcp_options :: "bytes \<Rightarrow> nat \<Rightarrow> u8 \<times> DhcpOffer \<Rightarrow> (u8 \<times> DhcpOffer) rust" where
  "dhcp_options d pos acc =
     (if pos < length d
      then case idx d pos of
             Inl p \<Rightarrow> Inl p
           | Inr opt \<Rightarrow>
               if opt = 255 then Inr acc
               else if opt = 0 then dhcp_options d (pos + 1) acc
               else if length d \<le> pos + 1 then Inr acc
               else (case idx d (pos + 1) of
                       Inl p \<Rightarrow> Inl p
                     | Inr n \<Rightarrow>
                         (case range_of d (pos + 2) (min (pos + 2 + unat n) (length d)) of
                            Inl p \<Rightarrow> Inl p
                          | Inr val \<Rightarrow> dhcp_options d (pos + 2 + unat n) (dhcp_option opt val acc)))
      else Inr acc)"
  by pat_completeness auto
termination
  by (relation "measure (\<lambda>(d, pos, acc). length d - pos)") auto

declare dhcp_options.simps [simp del]

definition parse_dhcp_options :: "bytes \<Rightarrow> DhcpOffer option rust" where
  "parse_dhcp_options d =
     (if length d < 240 then Inr None
      else if field 4 d 236 \<noteq> [99, 130, 83, 99] then Inr None
      else case dhcp_options d 240 (0, \<lparr>your_ip = field 4 d 16, server_ip = field 4 d 20, subnet = [255, 255, 255, 0],
                                       dhcp_gateway = replicate 4 0, dhcp_dns = replicate 4 0, lease = 86400\<rparr>) of
             Inl p \<Rightarrow> Inl p
           | Inr (msg_type, off) \<Rightarrow> Inr (if msg_type = DHCP_OFFER \<or> msg_type = DHCP_ACK then Some off else None))"

subsection \<open>Addresses as text\<close>

text \<open>\<^verbatim>\<open>str::parse::<u8>\<close>: digits after an optional plus sign, of value below 256.\<close>

fun dec_value :: "nat \<Rightarrow> string \<Rightarrow> nat option" where
  "dec_value v [] = Some v"
| "dec_value v (c # cs) =
     (if CHR ''0'' \<le> c \<and> c \<le> CHR ''9'' then dec_value (10 * v + (of_char c - 48)) cs else None)"

definition parse_u8 :: "string \<Rightarrow> u8 option" where
  "parse_u8 s =
     (let ds = (case s of [] \<Rightarrow> [] | c # cs \<Rightarrow> if c = CHR ''+'' then cs else s)
      in if ds = [] then None
      else case dec_value 0 ds of None \<Rightarrow> None | Some v \<Rightarrow> if v < 256 then Some (of_nat v) else None)"

definition parse_ipv4 :: "string \<Rightarrow> bytes option" where
  "parse_ipv4 s =
     (let parts = split_char (CHR ''.'') s
      in if length parts \<noteq> 4 then None
      else if \<exists>p \<in> set parts. parse_u8 p = None then None
      else Some (map (\<lambda>p. the (parse_u8 p)) parts))"

definition format_ipv4 :: "bytes \<Rightarrow> string" where
  "format_ipv4 ip = join_with ''.'' (map (\<lambda>b. show_dec (uint b)) ip)"

end
