(* ===== verification/Net.thy ===== *)
theory Net
  imports Net_Wire Causal Frame_Bytes "HOL-Library.List_Lexorder" "HOL-Library.Product_Lexorder"
begin

section \<open>The network stack\<close>

text \<open>
  The operations of \<^verbatim>\<open>net.rs\<close> and of \<^verbatim>\<open>causal_deferral.rs\<close> on one state: the ARP and DNS caches, routes,
  the TCP sockets and listeners, and the frames handed to the network card. The card itself and the
  clock are the environment: each poll of the card is an event with the time and the frames it
  delivers. The anomaly scores of processes, floating-point numbers of another module, enter through
  the two comparisons the code makes.

  The card and the socket table are behind spin locks. Taking a lock that the caller already holds
  never returns; the outcome of such a call is \<open>None\<close>, and functions that can be called with one of
  the locks held have the set of held locks as an argument.
\<close>

datatype lock = NicLock | SocketsLock

record NetHooks =
  h_defer :: "u64 \<Rightarrow> bool"
  h_anomalous :: "u64 \<Rightarrow> bool"
  h_graph :: CausalGraph

record RouteEntry =
  destination :: bytes
  netmask :: bytes
  gateway :: bytes
  iface :: string

datatype TcpState = Closed | Listen | SynSent | SynReceived | Established | Accepted | FinWait1 | FinWait2 |
  CloseWait | Closing | LastAck | TimeWait

text \<open>Local port, remote address, remote port, in the order of the derived comparison.\<close>

type_synonym TcpSocketKey = "u16 \<times> bytes \<times> u16"

record TcpSocket =
  sk_state :: TcpState
  snd_nxt :: u32
  snd_una :: u32
  rcv_nxt :: u32
  snd_wnd :: u16
  rcv_buf :: bytes
  cwnd :: u32
  ssthresh :: u32
  last_send_ms :: u64
  rto_ms :: u64
  retransmit_buf :: bytes
  owner_pid :: u64
  ai_cwnd_mul :: u16

abbreviation (input) MSS :: u32 where "MSS \<equiv> 1460"

abbreviation (input) RTO_INITIAL_MS :: u64 where "RTO_INITIAL_MS \<equiv> 1000"

abbreviation (input) RTO_MAX_MS :: u64 where "RTO_MAX_MS \<equiv> 60000"

abbreviation (input) ISS :: u32 where "ISS \<equiv> 0xDEAD0000"

definition new_syn_received :: "u32 \<Rightarrow> TcpSocket" where
  "new_syn_received irs =
     \<lparr>sk_state = SynReceived, snd_nxt = ISS + 1, snd_una = ISS, rcv_nxt = irs + 1, snd_wnd = 65535, rcv_buf = [],
      cwnd = MSS, ssthresh = 65535, last_send_ms = 0, rto_ms = RTO_INITIAL_MS, retransmit_buf = [], owner_pid = 0,
      ai_cwnd_mul = 100\<rparr>"

record DnsCacheEntry =
  dns_ip :: bytes
  expires :: u64

record DeferredTcpEvent =
  ev_mac :: bytes
  ev_iph :: Ipv4Header
  ev_raw :: bytes

record Net =
  n_now :: u64
  n_nic :: bool
  n_sent :: "bytes list"
  our_ip :: bytes
  our_mac :: bytes
  wifi_ip :: bytes
  wifi_mac :: bytes
  arp_cache :: "(bytes, bytes \<times> u64) btree"
  ping_pending :: bool
  ping_reply_time :: u64
  ping_id :: u16
  ping_seq :: u16
  dns_server :: bytes
  hosts :: "(string, bytes) btree"
  dns_cache :: "(string, DnsCacheEntry) btree"
  dns_reply :: "bytes option"
  dns_pending :: bool
  dhcp_reply :: "DhcpOffer option"
  dhcp_pending :: bool
  routes :: "RouteEntry list"
  rx_packets :: u64
  rx_bytes :: u64
  sockets :: "(TcpSocketKey, TcpSocket) btree"
  listeners :: "(u16, TcpSocketKey list) btree"
  next_eph :: u16
  deferred :: "DeferredTcpEvent list"

type_synonym event = "u64 \<times> bytes list"

definition net_init :: "u64 \<Rightarrow> Net" where
  "net_init t =
     \<lparr>n_now = t, n_nic = False, n_sent = [], our_ip = [10, 0, 2, 15], our_mac = [0x52, 0x54, 0x00, 0x12, 0x34, 0x56],
      wifi_ip = replicate 4 0, wifi_mac = replicate 6 0, arp_cache = [], ping_pending = False, ping_reply_time = 0,
      ping_id = 0, ping_seq = 0, dns_server = [10, 0, 2, 3], hosts = [], dns_cache = [], dns_reply = None,
      dns_pending = False, dhcp_reply = None, dhcp_pending = False, routes = [], rx_packets = 0, rx_bytes = 0,
      sockets = [], listeners = [], next_eph = 49152, deferred = []\<rparr>"

subsection \<open>The card\<close>

definition transmit :: "lock set \<Rightarrow> bytes \<Rightarrow> Net \<Rightarrow> Net outcome" where
  "transmit lks frame n =
     (if NicLock \<in> lks then None else ret (if n_nic n then n\<lparr>n_sent := n_sent n @ [frame]\<rparr> else n))"

definition init_nic :: "bytes \<Rightarrow> Net \<Rightarrow> Net" where
  "init_nic mac n = n\<lparr>our_mac := mac, n_nic := True\<rparr>"

subsection \<open>Caches and configuration\<close>

definition arp_cache_insert :: "bytes \<Rightarrow> bytes \<Rightarrow> Net \<Rightarrow> Net" where
  "arp_cache_insert ip mac n = n\<lparr>arp_cache := bt_insert ip (mac, n_now n) (arp_cache n)\<rparr>"

definition arp_cache_lookup :: "bytes \<Rightarrow> Net \<Rightarrow> bytes option" where
  "arp_cache_lookup ip n = map_option fst (bt_get (arp_cache n) ip)"

definition arp_request :: "lock set \<Rightarrow> bytes \<Rightarrow> Net \<Rightarrow> Net outcome" where
  "arp_request lks target_ip n =
     transmit lks (eth_build BROADCAST_MAC (our_mac n) ETHERTYPE_ARP (build_request (our_mac n) (our_ip n) target_ip)) n"

definition dns_cache_insert :: "string \<Rightarrow> bytes \<Rightarrow> u32 \<Rightarrow> Net \<Rightarrow> Net" where
  "dns_cache_insert name ip ttl_secs n =
     (let ttl' = (if ttl_secs = 0 then 60 else ttl_secs)
      in n\<lparr>dns_cache := bt_insert name \<lparr>dns_ip = ip, expires = n_now n + ucast ttl' * 1000\<rparr> (dns_cache n)\<rparr>)"

definition dns_cache_lookup :: "string \<Rightarrow> Net \<Rightarrow> bytes option \<times> Net" where
  "dns_cache_lookup name n =
     (case bt_get (dns_cache n) name of
        Some e \<Rightarrow> if n_now n < expires e then (Some (dns_ip e), n)
                  else (None, n\<lparr>dns_cache := bt_remove name (dns_cache n)\<rparr>)
      | None \<Rightarrow> (None, n))"

definition dns_cache_flush :: "Net \<Rightarrow> Net" where
  "dns_cache_flush n = n\<lparr>dns_cache := []\<rparr>"

definition dns_cache_entries :: "Net \<Rightarrow> (string \<times> bytes \<times> u64) list" where
  "dns_cache_entries n =
     map (\<lambda>(name, e). (name, dns_ip e, (expires e - n_now n) div 1000)) (filter (\<lambda>(_, e). n_now n < expires e) (dns_cache n))"

definition init_hosts :: "Net \<Rightarrow> Net" where
  "init_hosts n = n\<lparr>hosts := bt_insert ''gateway'' [10, 0, 2, 2] (bt_insert ''localhost'' [127, 0, 0, 1] (hosts n))\<rparr>"

definition init_routes :: "Net \<Rightarrow> Net" where
  "init_routes n = n\<lparr>routes := routes n @
     [\<lparr>destination = [0, 0, 0, 0], netmask = [0, 0, 0, 0], gateway = [10, 0, 2, 2], iface = ''eth0''\<rparr>,
      \<lparr>destination = [10, 0, 2, 0], netmask = [255, 255, 255, 0], gateway = [0, 0, 0, 0], iface = ''eth0''\<rparr>]\<rparr>"

definition configure_static_ip :: "bytes \<Rightarrow> bytes \<Rightarrow> bytes \<Rightarrow> Net \<Rightarrow> Net" where
  "configure_static_ip ip msk gw n =
     n\<lparr>our_ip := ip,
       routes := [\<lparr>destination = [0, 0, 0, 0], netmask = [0, 0, 0, 0], gateway = gw, iface = ''eth0''\<rparr>,
                  \<lparr>destination = map2 (AND) ip msk, netmask = msk, gateway = [0, 0, 0, 0], iface = ''eth0''\<rparr>]\<rparr>"

subsection \<open>TCP: received segments\<close>

definition tcp_frame :: "bytes \<Rightarrow> Net \<Rightarrow> bytes \<Rightarrow> bytes \<Rightarrow> bytes" where
  "tcp_frame mac n remote_ip seg =
     eth_build mac (our_mac n) ETHERTYPE_IPV4 (ipv4_build IP_PROTO_TCP (our_ip n) remote_ip (length seg) @ seg)"

definition sat_add :: "u32 \<Rightarrow> u32 \<Rightarrow> u32" where
  "sat_add a b = (if unat a + unat b < 2 ^ 32 then a + b else - 1)"

definition sat_mul :: "u32 \<Rightarrow> u32 \<Rightarrow> u32" where
  "sat_mul a b = (if unat a * unat b < 2 ^ 32 then a * b else - 1)"

text \<open>Reno growth of the congestion window for acknowledged bytes, capped by the receiver's window.\<close>

definition grow_cwnd :: "u32 \<Rightarrow> TcpSocket \<Rightarrow> u32" where
  "grow_cwnd acked sock =
     (let grown = (if cwnd sock < ssthresh sock then sat_add (cwnd sock) acked
                   else sat_add (cwnd sock) (max (sat_mul MSS acked div max (cwnd sock) 1) 1));
          cap = max (ucast (snd_wnd sock)) MSS
      in if cap < grown then cap else grown)"

definition cwnd_mul :: "NetHooks \<Rightarrow> u64 \<Rightarrow> u16" where
  "cwnd_mul h pid =
     (let fanout = causal_fanout pid (h_graph h)
      in if h_anomalous h pid then 70 else if 4 \<le> fanout then 150 else if 2 \<le> fanout then 120 else 100)"

definition on_ack :: "NetHooks \<Rightarrow> TcpHeader \<Rightarrow> TcpSocket \<Rightarrow> TcpSocket" where
  "on_ack h tcph sock =
     (if th_flags tcph AND ACK \<noteq> 0
      then let acked = th_ack tcph - snd_una sock
           in if 0 < acked \<and> acked \<le> 65536
              then let s1 = sock\<lparr>snd_una := th_ack tcph, cwnd := grow_cwnd acked sock\<rparr>
                   in if 0 < owner_pid s1 then s1\<lparr>ai_cwnd_mul := cwnd_mul h (owner_pid s1)\<rparr> else s1
              else sock
      else sock)"

definition make_reply :: "TcpHeader \<Rightarrow> bytes \<Rightarrow> bytes \<Rightarrow> Net \<Rightarrow> TcpSocket \<Rightarrow> u8 \<Rightarrow> bytes \<Rightarrow> bytes" where
  "make_reply tcph remote_mac remote_ip n sock tx_flags tx_data =
     tcp_frame remote_mac n remote_ip
       (tcp_build (dst_port tcph) (src_port tcph) (snd_nxt sock) (rcv_nxt sock) tx_flags 65535 (our_ip n) remote_ip tx_data)"

text \<open>The socket after the segment, and whether a reply with the ACK flag is sent from it.\<close>

definition established_step :: "NetHooks \<Rightarrow> TcpHeader \<Rightarrow> bytes \<Rightarrow> TcpSocket \<Rightarrow> TcpSocket \<times> bool" where
  "established_step h tcph d sock =
     (let s1 = on_ack h tcph (sock\<lparr>snd_wnd := window tcph\<rparr>);
          fin = th_flags tcph AND FIN \<noteq> 0
      in if d \<noteq> [] \<and> th_seq tcph = rcv_nxt s1
         then let s2 = s1\<lparr>rcv_buf := rcv_buf s1 @ d, rcv_nxt := rcv_nxt s1 + of_nat (length d)\<rparr>
              in (if fin then s2\<lparr>rcv_nxt := rcv_nxt s2 + 1, sk_state := CloseWait\<rparr> else s2, True)
         else if fin then (s1\<lparr>rcv_nxt := rcv_nxt s1 + 1, sk_state := CloseWait\<rparr>, True)
         else (s1, False))"

definition fin_step :: "TcpHeader \<Rightarrow> TcpSocket \<Rightarrow> TcpSocket \<times> bool" where
  "fin_step tcph sock =
     (if th_flags tcph AND FIN \<noteq> 0 then (sock\<lparr>rcv_nxt := rcv_nxt sock + 1, sk_state := TimeWait\<rparr>, True)
      else (sock, False))"

definition socket_step :: "NetHooks \<Rightarrow> TcpHeader \<Rightarrow> bytes \<Rightarrow> TcpSocket \<Rightarrow> TcpSocket \<times> bool" where
  "socket_step h tcph d sock =
     (case sk_state sock of
        SynSent \<Rightarrow>
          if th_flags tcph AND (SYN OR ACK) = (SYN OR ACK) \<and> th_ack tcph = snd_nxt sock
          then (sock\<lparr>rcv_nxt := th_seq tcph + 1, snd_una := snd_nxt sock, snd_wnd := window tcph, sk_state := Established\<rparr>,
                True)
          else (sock, False)
      | SynReceived \<Rightarrow>
          if th_flags tcph AND ACK \<noteq> 0 \<and> th_ack tcph = snd_nxt sock
          then (sock\<lparr>sk_state := Established, snd_una := snd_nxt sock, snd_wnd := window tcph\<rparr>, False)
          else (sock, False)
      | Established \<Rightarrow> established_step h tcph d sock
      | LastAck \<Rightarrow> (if th_flags tcph AND ACK \<noteq> 0 then sock\<lparr>sk_state := Closed\<rparr> else sock, False)
      | FinWait1 \<Rightarrow>
          fin_step tcph (if th_flags tcph AND ACK \<noteq> 0 then sock\<lparr>sk_state := FinWait2\<rparr> else sock)
      | FinWait2 \<Rightarrow> fin_step tcph sock
      | _ \<Rightarrow> (sock, False))"

text \<open>A connection that a handshake completes joins the backlog of its port.\<close>

definition tcp_state_machine ::
  "NetHooks \<Rightarrow> TcpSocketKey \<Rightarrow> TcpHeader \<Rightarrow> bytes \<Rightarrow> bytes \<Rightarrow> TcpSocket \<Rightarrow> Net \<Rightarrow> bytes option \<times> Net" where
  "tcp_state_machine h key tcph d remote_mac sock n =
     (let (s1, answer) = socket_step h tcph d sock;
          n1 = n\<lparr>sockets := bt_insert key s1 (sockets n)\<rparr>;
          n2 = (if sk_state sock = SynReceived \<and> sk_state s1 = Established
                then n1\<lparr>listeners := bt_modify (dst_port tcph) (\<lambda>backlog. backlog @ [key]) (listeners n1)\<rparr> else n1)
      in (if answer then Some (make_reply tcph remote_mac (fst (snd key)) n s1 ACK []) else None, n2))"

definition handle_tcp_segment :: "NetHooks \<Rightarrow> bytes \<Rightarrow> Ipv4Header \<Rightarrow> bytes \<Rightarrow> Net \<Rightarrow> (bytes option \<times> Net) rust" where
  "handle_tcp_segment h mac iph tcp_raw n =
     (case tcp_parse tcp_raw of
        None \<Rightarrow> Inr (None, n)
      | Some tcph \<Rightarrow>
          (let key = (dst_port tcph, ip_src iph, src_port tcph);
               flags = th_flags tcph
           in case range_of tcp_raw (min (tcp_header_len tcph) (length tcp_raw)) (length tcp_raw) of
                Inl p \<Rightarrow> Inl p
              | Inr d \<Rightarrow>
                  if flags AND RST \<noteq> 0 then Inr (None, n\<lparr>sockets := bt_remove key (sockets n)\<rparr>)
                  else case bt_get (sockets n) key of
                    Some sock \<Rightarrow>
                      if owner_pid sock \<noteq> 0 \<and> h_defer h (owner_pid sock)
                      then Inr (None, n\<lparr>deferred := deferred n @ [\<lparr>ev_mac = mac, ev_iph = iph, ev_raw = tcp_raw\<rparr>]\<rparr>)
                      else Inr (tcp_state_machine h key tcph d mac sock n)
                  | None \<Rightarrow>
                      if flags AND SYN \<noteq> 0 \<and> flags AND ACK = 0 \<and> bt_get (listeners n) (dst_port tcph) \<noteq> None
                      then let sock = new_syn_received (th_seq tcph);
                               seg = tcp_build (dst_port tcph) (src_port tcph) ISS (rcv_nxt sock) (SYN OR ACK)
                                       (snd_wnd sock) (our_ip n) (ip_src iph) []
                           in Inr (Some (tcp_frame mac n (ip_src iph) seg), n\<lparr>sockets := bt_insert key sock (sockets n)\<rparr>)
                      else if flags AND SYN \<noteq> 0
                      then let rst = tcp_build (dst_port tcph) (src_port tcph) 0 (th_seq tcph + 1) (RST OR ACK) 0
                                       (our_ip n) (ip_src iph) []
                           in Inr (Some (tcp_frame mac n (ip_src iph) rst), n)
                      else Inr (None, n)))"

subsection \<open>Received frames\<close>

definition handle_udp :: "bytes \<Rightarrow> Net \<Rightarrow> (bytes option \<times> Net) rust" where
  "handle_udp payload n =
     (case udp_parse payload of
        Inl p \<Rightarrow> Inl p
      | Inr None \<Rightarrow> Inr (None, n)
      | Inr (Some udp) \<Rightarrow>
          (case (if udp_src_port udp = 53 \<and> dns_pending n then parse_dns_reply (udp_payload udp) else Inr None) of
             Inl p \<Rightarrow> Inl p
           | Inr dns \<Rightarrow>
               (let n1 = (case dns of Some (ip, _) \<Rightarrow> n\<lparr>dns_reply := Some ip\<rparr> | None \<Rightarrow> n)
                in case (if udp_src_port udp = 67 \<and> udp_dst_port udp = 68 \<and> dhcp_pending n1
                         then parse_dhcp_options (udp_payload udp) else Inr None) of
                     Inl p \<Rightarrow> Inl p
                   | Inr (Some offer) \<Rightarrow> Inr (None, n1\<lparr>dhcp_reply := Some offer\<rparr>)
                   | Inr None \<Rightarrow> Inr (None, n1))))"

definition handle_icmp :: "bytes \<Rightarrow> Ipv4Header \<Rightarrow> bytes \<Rightarrow> Net \<Rightarrow> (bytes option \<times> Net) rust" where
  "handle_icmp mac iph ip_payload n =
     (if length ip_payload < 8 then Inr (None, n)
      else let icmp_type = ip_payload ! 0; ident = be16_at ip_payload 4; sq = be16_at ip_payload 6
      in if icmp_type = 0 \<and> ping_pending n
         then Inr (None, if ident = ping_id n \<and> sq = ping_seq n then n\<lparr>ping_reply_time := n_now n\<rparr> else n)
      else if icmp_type \<noteq> 8 then Inr (None, n)
      else case range_of ip_payload 8 (length ip_payload) of
             Inl p \<Rightarrow> Inl p
           | Inr d \<Rightarrow>
               (let reply = build_icmp_echo_reply ident sq d
                in Inr (Some (eth_build mac (our_mac n) ETHERTYPE_IPV4
                          (ipv4_build IP_PROTO_ICMP (our_ip n) (ip_src iph) (length reply) @ reply)), n)))"

definition handle_arp :: "bytes \<Rightarrow> bytes \<Rightarrow> Net \<Rightarrow> bytes option \<times> Net" where
  "handle_arp mac payload n =
     (case arp_parse payload of
        None \<Rightarrow> (None, n)
      | Some arp \<Rightarrow>
          (let n1 = arp_cache_insert (spa arp) (sha arp) n
           in if arp_op arp = ARP_REPLY then (None, n1)
           else if arp_op arp \<noteq> ARP_REQUEST then (None, n1)
           else if tpa arp \<noteq> our_ip n1 \<and> tpa arp \<noteq> wifi_ip n1 then (None, n1)
           else let reply_mac = (if tpa arp = wifi_ip n1 \<and> wifi_ip n1 \<noteq> [0, 0, 0, 0] then wifi_mac n1 else our_mac n1)
           in (Some (eth_build mac reply_mac ETHERTYPE_ARP (build_reply reply_mac (tpa arp) mac (spa arp))), n1)))"

definition handle_ipv4 :: "NetHooks \<Rightarrow> bytes \<Rightarrow> bytes \<Rightarrow> Net \<Rightarrow> (bytes option \<times> Net) rust" where
  "handle_ipv4 h mac payload n =
     (case ipv4_parse payload of
        None \<Rightarrow> Inr (None, n)
      | Some iph \<Rightarrow>
          if ip_dst iph \<noteq> our_ip n \<and> ip_dst iph \<noteq> wifi_ip n \<and> ip_dst iph \<noteq> [255, 255, 255, 255] then Inr (None, n)
          else let n1 = arp_cache_insert (ip_src iph) mac n;
                   n2 = n1\<lparr>rx_packets := rx_packets n1 + 1, rx_bytes := rx_bytes n1 + of_nat (length payload)\<rparr>
          in case range_of payload (ip_header_len iph) (unat (total_len iph)) of
               Inl _ \<Rightarrow> Inr (None, n2)
             | Inr ip_payload \<Rightarrow>
                 if proto iph = IP_PROTO_ICMP then handle_icmp mac iph ip_payload n2
                 else if proto iph = IP_PROTO_UDP then handle_udp ip_payload n2
                 else if proto iph = IP_PROTO_TCP then handle_tcp_segment h mac iph ip_payload n2
                 else Inr (None, n2))"

definition handle_frame :: "NetHooks \<Rightarrow> bytes \<Rightarrow> Net \<Rightarrow> (bytes option \<times> Net) rust" where
  "handle_frame h raw n =
     (case eth_parse raw of
        None \<Rightarrow> Inr (None, n)
      | Some eth \<Rightarrow>
          if ethertype eth = ETHERTYPE_ARP then Inr (handle_arp (src_mac eth) (eth_payload eth) n)
          else if ethertype eth = ETHERTYPE_IPV4 then handle_ipv4 h (src_mac eth) (eth_payload eth) n
          else Inr (None, n))"

fun handle_frames :: "NetHooks \<Rightarrow> bytes list \<Rightarrow> Net \<Rightarrow> (bytes list \<times> Net) rust" where
  "handle_frames h [] n = Inr ([], n)"
| "handle_frames h (f # fs) n =
     (case handle_frame h f n of
        Inl p \<Rightarrow> Inl p
      | Inr (r, n1) \<Rightarrow>
          (case handle_frames h fs n1 of
             Inl p \<Rightarrow> Inl p
           | Inr (rs, n2) \<Rightarrow> Inr (case r of Some x \<Rightarrow> x # rs | None \<Rightarrow> rs, n2)))"

subsection \<open>Retransmission and polling\<close>

definition rto_expired :: "u64 \<Rightarrow> TcpSocket \<Rightarrow> bool" where
  "rto_expired now sock \<longleftrightarrow>
     (sk_state sock = Established \<or> sk_state sock = Accepted) \<and> retransmit_buf sock \<noteq> [] \<and>
     snd_una sock \<noteq> snd_nxt sock - of_nat (length (retransmit_buf sock)) \<and> last_send_ms sock \<noteq> 0 \<and>
     rto_ms sock \<le> saturating_sub now (last_send_ms sock)"

definition back_off :: "u64 \<Rightarrow> TcpSocket \<Rightarrow> TcpSocket" where
  "back_off now sock =
     sock\<lparr>ssthresh := max (cwnd sock div 2) MSS, cwnd := MSS, rto_ms := min (rto_ms sock * 2) RTO_MAX_MS,
          last_send_ms := now\<rparr>"

text \<open>Looking for the hardware address of an address before asking for it: the answer, or whom to ask.\<close>

definition arp_target :: "bytes \<Rightarrow> Net \<Rightarrow> bytes" where
  "arp_target ip n =
     (case List.find (\<lambda>r. destination r = [0, 0, 0, 0]) (routes n) of
        Some r \<Rightarrow> if take 3 ip = take 3 (our_ip n) then ip else gateway r
      | None \<Rightarrow> ip)"

definition arp_cached :: "bytes \<Rightarrow> Net \<Rightarrow> bytes option" where
  "arp_cached ip n =
     (case arp_cache_lookup ip n of Some mac \<Rightarrow> Some mac | None \<Rightarrow> arp_cache_lookup (arp_target ip n) n)"

text \<open>The second loop of \<^verbatim>\<open>poll_retransmit\<close>. When the address is not cached it asks and then polls the card,
  which is locked by the only caller.\<close>

fun retransmit_all :: "lock set \<Rightarrow> (TcpSocketKey \<times> bytes) list \<Rightarrow> Net \<Rightarrow> Net outcome" where
  "retransmit_all lks [] n = ret n"
| "retransmit_all lks ((key, d) # rest) n =
     (case bt_get (sockets n) key of
        None \<Rightarrow> retransmit_all lks rest n
      | Some sock \<Rightarrow>
          (let (local_port, remote_ip, remote_port) = key;
               seg = tcp_build local_port remote_port (snd_una sock) (rcv_nxt sock) (PSH OR ACK) 65535 (our_ip n) remote_ip d
           in case arp_cached remote_ip n of
                Some mac \<Rightarrow> obind (transmit lks (tcp_frame mac n remote_ip seg) n) (retransmit_all lks rest)
              | None \<Rightarrow> obind (arp_request lks (arp_target remote_ip n) n) (\<lambda>_. None)))"

definition poll_retransmit :: "lock set \<Rightarrow> Net \<Rightarrow> Net outcome" where
  "poll_retransmit lks n =
     (if SocketsLock \<in> lks then None
      else let due = filter (\<lambda>(_, sock). rto_expired (n_now n) sock) (sockets n);
               n1 = n\<lparr>sockets := map (\<lambda>(key, sock). (key, if rto_expired (n_now n) sock then back_off (n_now n) sock else sock))
                                  (sockets n)\<rparr>
           in retransmit_all lks (map (\<lambda>(key, sock). (key, retransmit_buf sock)) due) n1)"

definition poll :: "NetHooks \<Rightarrow> lock set \<Rightarrow> event \<Rightarrow> Net \<Rightarrow> Net outcome" where
  "poll h lks ev n0 =
     (let n = n0\<lparr>n_now := fst ev\<rparr>
      in if NicLock \<in> lks then None
      else if \<not> n_nic n then ret n
      else case handle_frames h (snd ev) n of
             Inl p \<Rightarrow> Some (Inl p)
           | Inr (replies, n1) \<Rightarrow>
               poll_retransmit (insert NicLock lks) (n1\<lparr>n_sent := n_sent n1 @ replies\<rparr>))"

definition next_event :: "Net \<Rightarrow> event list \<Rightarrow> event \<times> event list" where
  "next_event n evs = (case evs of [] \<Rightarrow> ((n_now n, []), []) | e # es \<Rightarrow> (e, es))"

fun arp_wait :: "NetHooks \<Rightarrow> lock set \<Rightarrow> bytes \<Rightarrow> nat \<Rightarrow> event list \<Rightarrow> Net \<Rightarrow> (bytes option \<times> event list \<times> Net) outcome" where
  "arp_wait h lks target 0 evs n = ret (None, evs, n)"
| "arp_wait h lks target (Suc k) evs n =
     (let (ev, evs1) = next_event n evs
      in obind (poll h lks ev n) (\<lambda>n1.
           case arp_cache_lookup target n1 of
             Some mac \<Rightarrow> ret (Some mac, evs1, n1)
           | None \<Rightarrow> arp_wait h lks target k evs1 n1))"

definition arp_resolve_for_ip ::
  "NetHooks \<Rightarrow> lock set \<Rightarrow> bytes \<Rightarrow> event list \<Rightarrow> Net \<Rightarrow> (bytes option \<times> event list \<times> Net) outcome" where
  "arp_resolve_for_ip h lks ip evs n =
     (case arp_cached ip n of
        Some mac \<Rightarrow> ret (Some mac, evs, n)
      | None \<Rightarrow> obind (arp_request lks (arp_target ip n) n) (arp_wait h lks (arp_target ip n) 3000 evs))"

subsection \<open>The socket interface\<close>

definition listen :: "u16 \<Rightarrow> Net \<Rightarrow> Net" where
  "listen port n =
     (if bt_get (listeners n) port = None then n\<lparr>listeners := bt_insert port [] (listeners n)\<rparr> else n)"

definition accept :: "u16 \<Rightarrow> Net \<Rightarrow> TcpSocketKey option \<times> Net" where
  "accept port n =
     (case bt_get (listeners n) port of
        Some (key # rest) \<Rightarrow>
          (Some key, n\<lparr>listeners := bt_insert port rest (listeners n),
                       sockets := bt_modify key (\<lambda>sock. sock\<lparr>sk_state := Accepted\<rparr>) (sockets n)\<rparr>)
      | _ \<Rightarrow> (None, n))"

definition allowed :: "TcpSocket \<Rightarrow> nat" where
  "allowed sock =
     (let ai_cwnd = ucast ((ucast (cwnd sock) :: u64) * ucast (ai_cwnd_mul sock) div 100) :: u32
      in max (min (unat ai_cwnd) (unat (snd_wnd sock))) (unat MSS))"

definition send_segment ::
  "NetHooks \<Rightarrow> TcpSocketKey \<Rightarrow> bytes \<Rightarrow> event list \<Rightarrow> Net \<Rightarrow> (event list \<times> Net) outcome" where
  "send_segment h key seg evs n =
     obind (arp_resolve_for_ip h {SocketsLock} (fst (snd key)) evs n) (\<lambda>(mac, evs1, n1).
       obind (transmit {SocketsLock} (tcp_frame (case mac of Some m \<Rightarrow> m | None \<Rightarrow> BROADCAST_MAC) n (fst (snd key)) seg) n1)
         (\<lambda>n2. ret (evs1, n2)))"

definition send :: "NetHooks \<Rightarrow> TcpSocketKey \<Rightarrow> bytes \<Rightarrow> event list \<Rightarrow> Net \<Rightarrow> (nat \<times> event list \<times> Net) outcome" where
  "send h key d evs n =
     (case bt_get (sockets n) key of
        None \<Rightarrow> ret (0, evs, n)
      | Some sock \<Rightarrow>
          if sk_state sock \<noteq> Established \<and> sk_state sock \<noteq> Accepted then ret (0, evs, n)
          else let send_data = take (allowed sock) d;
                   seg = tcp_build (fst key) (snd (snd key)) (snd_nxt sock) (rcv_nxt sock) (PSH OR ACK) 65535 (our_ip n)
                           (fst (snd key)) send_data;
                   sock1 = sock\<lparr>snd_nxt := snd_nxt sock + of_nat (length send_data)\<rparr>
          in obind (send_segment h key seg evs n) (\<lambda>(evs1, n1).
               ret (length send_data, evs1, n1\<lparr>sockets :=
                 bt_insert key (sock1\<lparr>retransmit_buf := send_data, last_send_ms := n_now n1\<rparr>) (sockets n1)\<rparr>)))"

definition rx_buf_len :: "TcpSocketKey \<Rightarrow> Net \<Rightarrow> nat" where
  "rx_buf_len key n = (case bt_get (sockets n) key of Some s \<Rightarrow> length (rcv_buf s) | None \<Rightarrow> 0)"

text \<open>Reading into a buffer of \<open>max_len\<close> bytes: the bytes read.\<close>

definition recv :: "TcpSocketKey \<Rightarrow> nat \<Rightarrow> Net \<Rightarrow> bytes \<times> Net" where
  "recv key max_len n =
     (case bt_get (sockets n) key of
        Some sock \<Rightarrow>
          (let k = min max_len (length (rcv_buf sock))
           in (take k (rcv_buf sock), n\<lparr>sockets := bt_insert key (sock\<lparr>rcv_buf := drop k (rcv_buf sock)\<rparr>) (sockets n)\<rparr>))
      | None \<Rightarrow> ([], n))"

definition recv_vec :: "TcpSocketKey \<Rightarrow> Net \<Rightarrow> bytes \<times> Net" where
  "recv_vec key n =
     (case bt_get (sockets n) key of
        Some sock \<Rightarrow> (rcv_buf sock, n\<lparr>sockets := bt_insert key (sock\<lparr>rcv_buf := []\<rparr>) (sockets n)\<rparr>)
      | None \<Rightarrow> ([], n))"

definition has_data :: "TcpSocketKey \<Rightarrow> Net \<Rightarrow> bool" where
  "has_data key n \<longleftrightarrow> (case bt_get (sockets n) key of Some s \<Rightarrow> rcv_buf s \<noteq> [] | None \<Rightarrow> False)"

definition established_for :: "u16 \<Rightarrow> Net \<Rightarrow> TcpSocketKey list" where
  "established_for port n = map fst (filter (\<lambda>(k, s). fst k = port \<and> sk_state s = Established) (sockets n))"

definition tcp_close :: "NetHooks \<Rightarrow> TcpSocketKey \<Rightarrow> event list \<Rightarrow> Net \<Rightarrow> (event list \<times> Net) outcome" where
  "tcp_close h key evs n =
     (case bt_get (sockets n) key of
        None \<Rightarrow> ret (evs, n)
      | Some sock \<Rightarrow>
          (case (if sk_state sock = Established then Some FinWait1
                 else if sk_state sock = CloseWait then Some LastAck else None) of
             None \<Rightarrow> ret (evs, n)
           | Some new_state \<Rightarrow>
               (let seg = tcp_build (fst key) (snd (snd key)) (snd_nxt sock) (rcv_nxt sock) (FIN OR ACK) 65535 (our_ip n)
                            (fst (snd key)) [];
                    n1 = n\<lparr>sockets := bt_insert key (sock\<lparr>snd_nxt := snd_nxt sock + 1, sk_state := new_state\<rparr>) (sockets n)\<rparr>
                in send_segment h key seg evs n1)))"

subsection \<open>Clients that wait\<close>

text \<open>A loop that waits polls the card with the next event; while there is none, it has not returned.\<close>

fun connect_wait :: "NetHooks \<Rightarrow> TcpSocketKey \<Rightarrow> u64 \<Rightarrow> event list \<Rightarrow> Net \<Rightarrow> ((string + u16) \<times> event list \<times> Net) outcome" where
  "connect_wait h key deadline evs n =
     (if \<exists>s \<in> set_option (bt_get (sockets n) key). sk_state s = Established then ret (Inr (fst key), evs, n)
      else if deadline \<le> n_now n
      then ret (Inl ''TCP connect: timeout'', evs, n\<lparr>sockets := bt_remove key (sockets n)\<rparr>)
      else case evs of [] \<Rightarrow> None | e # es \<Rightarrow> obind (poll h {} e n) (connect_wait h key deadline es))"

definition connect ::
  "NetHooks \<Rightarrow> u64 \<Rightarrow> bytes \<Rightarrow> u16 \<Rightarrow> u64 \<Rightarrow> event list \<Rightarrow> Net \<Rightarrow> ((string + u16) \<times> event list \<times> Net) outcome" where
  "connect h pid remote_ip remote_port timeout_ms evs n =
     (let local_port = next_eph n;
          n1 = n\<lparr>next_eph := (if 65534 \<le> local_port then 49152 else local_port + 1)\<rparr>;
          key = (local_port, remote_ip, remote_port)
      in obind (arp_resolve_for_ip h {} remote_ip evs n1) (\<lambda>(found, evs1, n2).
           case found of
             None \<Rightarrow> ret (Inl (''TCP connect: ARP failed '' @ [CHR 0xE2, CHR 0x80, CHR 0x94] @ '' no MAC for destination''), evs1, n2)
           | Some mac \<Rightarrow>
               (let iss = ucast (n_now n2) XOR 0x13572468;
                    sock = \<lparr>sk_state = SynSent, snd_nxt = iss + 1, snd_una = iss, rcv_nxt = 0, snd_wnd = 65535, rcv_buf = [],
                            cwnd = MSS, ssthresh = 65535, last_send_ms = 0, rto_ms = RTO_INITIAL_MS, retransmit_buf = [],
                            owner_pid = pid, ai_cwnd_mul = 100\<rparr>;
                    n3 = n2\<lparr>sockets := bt_insert key sock (sockets n2)\<rparr>;
                    syn = tcp_build local_port remote_port iss 0 SYN 65535 (our_ip n) remote_ip []
                in obind (transmit {} (tcp_frame mac n remote_ip syn) n3) (\<lambda>n4.
                     connect_wait h key (n_now n4 + timeout_ms) evs1 n4))))"

fun ping_wait :: "NetHooks \<Rightarrow> u64 \<Rightarrow> u64 \<Rightarrow> event list \<Rightarrow> Net \<Rightarrow> (u64 option \<times> event list \<times> Net) outcome" where
  "ping_wait h send_time deadline evs n =
     (if \<not> n_now n < deadline then ret (None, evs, n\<lparr>ping_pending := False\<rparr>)
      else case evs of
             [] \<Rightarrow> None
           | e # es \<Rightarrow> obind (poll h {} e n) (\<lambda>n1.
               if 0 < ping_reply_time n1
               then ret (Some (saturating_sub (ping_reply_time n1) send_time), es, n1\<lparr>ping_pending := False\<rparr>)
               else ping_wait h send_time deadline es n1))"

definition ping :: "NetHooks \<Rightarrow> bytes \<Rightarrow> u16 \<Rightarrow> u16 \<Rightarrow> u64 \<Rightarrow> event list \<Rightarrow> Net \<Rightarrow> (u64 option \<times> event list \<times> Net) outcome" where
  "ping h dst_ip ident sq timeout_ms evs n =
     (let n1 = n\<lparr>ping_id := ident, ping_seq := sq, ping_reply_time := 0, ping_pending := True\<rparr>;
          icmp = build_icmp_echo_request ident sq (str_bytes ''NodeAI ping'');
          packet = ipv4_build IP_PROTO_ICMP (our_ip n) dst_ip (length icmp) @ icmp;
          mac = (if take 3 dst_ip = take 3 (our_ip n)
                 then (case arp_cache_lookup dst_ip n1 of Some m \<Rightarrow> m | None \<Rightarrow> BROADCAST_MAC)
                 else (case arp_cache_lookup [10, 0, 2, 2] n1 of Some m \<Rightarrow> m | None \<Rightarrow> BROADCAST_MAC));
          send_time = n_now n1
      in obind (transmit {} (eth_build mac (our_mac n) ETHERTYPE_IPV4 packet) n1)
           (ping_wait h send_time (send_time + timeout_ms) evs))"

fun dns_wait :: "NetHooks \<Rightarrow> u64 \<Rightarrow> event list \<Rightarrow> Net \<Rightarrow> (bytes option \<times> event list \<times> Net) outcome" where
  "dns_wait h deadline evs n =
     (if \<not> n_now n < deadline then ret (None, evs, n\<lparr>dns_pending := False\<rparr>)
      else case evs of
             [] \<Rightarrow> None
           | e # es \<Rightarrow> obind (poll h {} e n) (\<lambda>n1.
               case dns_reply n1 of
                 Some ip \<Rightarrow> ret (Some ip, es, n1\<lparr>dns_pending := False\<rparr>)
               | None \<Rightarrow> dns_wait h deadline es n1))"

definition dns_query :: "NetHooks \<Rightarrow> string \<Rightarrow> event list \<Rightarrow> Net \<Rightarrow> (bytes option \<times> event list \<times> Net) outcome" where
  "dns_query h hostname evs n =
     (case dns_question (ucast (n_now n AND 0xFFFF)) hostname of
        None \<Rightarrow> ret (None, evs, n)
      | Some dns \<Rightarrow>
          (let udp = udp_build 12345 53 dns;
               pkt = ipv4_build IP_PROTO_UDP (our_ip n) (dns_server n) (length udp) @ udp
           in obind (case arp_cache_lookup (dns_server n) n of
                       Some mac \<Rightarrow> ret (Some mac, evs, n)
                     | None \<Rightarrow> obind (arp_request {} (dns_server n) n) (arp_wait h {} (dns_server n) 5000 evs))
                (\<lambda>(found, evs1, n1).
                   let mac = (case found of Some m \<Rightarrow> m | None \<Rightarrow> BROADCAST_MAC);
                       n2 = n1\<lparr>dns_reply := None, dns_pending := True\<rparr>
                   in obind (transmit {} (eth_build mac (our_mac n) ETHERTYPE_IPV4 pkt) n2) (\<lambda>n3.
                        dns_wait h (n_now n3 + 3000) evs1 n3))))"

definition resolve_host :: "NetHooks \<Rightarrow> string \<Rightarrow> event list \<Rightarrow> Net \<Rightarrow> (bytes option \<times> event list \<times> Net) outcome" where
  "resolve_host h hostname evs n =
     (case parse_ipv4 hostname of
        Some ip \<Rightarrow> ret (Some ip, evs, n)
      | None \<Rightarrow>
          (case bt_get (hosts n) hostname of
             Some ip \<Rightarrow> ret (Some ip, evs, n)
           | None \<Rightarrow>
               (case dns_cache_lookup hostname n of
                  (Some ip, n1) \<Rightarrow> ret (Some ip, evs, n1)
                | (None, n1) \<Rightarrow>
                    obind (dns_query h hostname evs n1) (\<lambda>(found, evs1, n2).
                      case found of
                        Some ip \<Rightarrow> ret (Some ip, evs1, dns_cache_insert hostname ip 300 n2)
                      | None \<Rightarrow> ret (None, evs1, n2)))))"

fun dhcp_wait :: "NetHooks \<Rightarrow> u64 \<Rightarrow> event list \<Rightarrow> Net \<Rightarrow> (DhcpOffer option \<times> event list \<times> Net) outcome" where
  "dhcp_wait h deadline [] n = None"
| "dhcp_wait h deadline (e # es) n =
     obind (poll h {} e n) (\<lambda>n1.
       case dhcp_reply n1 of
         Some off \<Rightarrow> ret (Some off, es, n1\<lparr>dhcp_reply := None\<rparr>)
       | None \<Rightarrow> if deadline \<le> n_now n1 then ret (None, es, n1\<lparr>dhcp_pending := False\<rparr>) else dhcp_wait h deadline es n1)"

definition dhcp_frame :: "u8 \<Rightarrow> bytes \<Rightarrow> bytes option \<Rightarrow> bytes" where
  "dhcp_frame msg_type mac requested =
     (let udp = udp_build 68 67 (build_dhcp_msg msg_type mac requested)
      in eth_build BROADCAST_MAC mac ETHERTYPE_IPV4
           (ipv4_build IP_PROTO_UDP [0, 0, 0, 0] [255, 255, 255, 255] (length udp) @ udp))"

definition dhcp_request :: "NetHooks \<Rightarrow> event list \<Rightarrow> Net \<Rightarrow> (bool \<times> event list \<times> Net) outcome" where
  "dhcp_request h evs n =
     obind (transmit {} (dhcp_frame DHCP_DISCOVER (our_mac n) None) (n\<lparr>dhcp_reply := None, dhcp_pending := True\<rparr>)) (\<lambda>n1.
     obind (dhcp_wait h (n_now n1 + 5000) evs n1) (\<lambda>(offer, evs1, n2).
       case offer of
         None \<Rightarrow> ret (False, evs1, n2)
       | Some off \<Rightarrow>
           obind (transmit {} (dhcp_frame DHCP_REQUEST (our_mac n) (Some (your_ip off))) (n2\<lparr>dhcp_reply := None\<rparr>)) (\<lambda>n3.
           obind (dhcp_wait h (n_now n3 + 5000) evs1 n3) (\<lambda>(ack, evs2, n4).
             case ack of
               None \<Rightarrow> ret (False, evs2, n4)
             | Some a \<Rightarrow>
                 (let n5 = configure_static_ip (your_ip a) (subnet a) (dhcp_gateway a) (n4\<lparr>dhcp_pending := False\<rparr>)
                  in ret (True, evs2, if dhcp_dns a \<noteq> [0, 0, 0, 0] then n5\<lparr>dns_server := dhcp_dns a\<rparr> else n5))))))"

subsection \<open>Deferred segments\<close>

partial_function (option) flush :: "NetHooks \<Rightarrow> Net \<Rightarrow> Net outcome" where
  "flush h n =
     (case deferred n of
        [] \<Rightarrow> ret n
      | ev # rest \<Rightarrow>
          (case handle_tcp_segment h (ev_mac ev) (ev_iph ev) (ev_raw ev) (n\<lparr>deferred := rest\<rparr>) of
             Inl p \<Rightarrow> Some (Inl p)
           | Inr r \<Rightarrow>
               (case fst r of
                  None \<Rightarrow> flush h (snd r)
                | Some reply \<Rightarrow> flush h (if n_nic (snd r) then (snd r)\<lparr>n_sent := n_sent (snd r) @ [reply]\<rparr> else snd r))))"

declare connect_wait.simps [simp del] ping_wait.simps [simp del] dns_wait.simps [simp del]

end
