(* ===== verification/Net_Packets.thy ===== *)
theory Net_Packets
  imports Net_Wire
begin

section \<open>Properties of the packet formats\<close>

text \<open>
  The Internet checksum of every packet the stack builds verifies, the parsers read back what the
  builders wrote, and the parsers of DNS and DHCP replies return on every input without a panic.
\<close>

subsection \<open>The checksum\<close>

text \<open>The sum modulo 65535, in the range from 1 to 65535 unless it is zero.\<close>

definition carry :: "nat \<Rightarrow> nat" where
  "carry n = (if n = 0 then 0 else (n - 1) mod 65535 + 1)"

lemma carry_small: "n < 65536 \<Longrightarrow> carry n = n"
  by (auto simp: carry_def)

lemma carry_step: "65536 \<le> n \<Longrightarrow> carry (n mod 65536 + n div 65536) = carry n"
proof -
  assume n: "65536 \<le> n"
  then have q: "0 < n div 65536" by (simp add: div_greater_zero_iff)
  have "n = 65536 * (n div 65536) + n mod 65536" by simp
  then have "n - 1 = 65535 * (n div 65536) + (n mod 65536 + n div 65536 - 1)" using q by linarith
  then have "(n - 1) mod 65535 = (n mod 65536 + n div 65536 - 1) mod 65535" by (metis mod_mult_self4)
  then show ?thesis using n q by (simp add: carry_def)
qed

lemma unat_fold_carry: "unat (fold_carry s) = carry (unat s)"
proof (induction s rule: fold_carry.induct)
  case (1 s)
  show ?case
  proof (cases "drop_bit 16 s = 0")
    case True
    then show ?thesis by (subst fold_carry.simps) (simp add: drop_bit_16_zero carry_small)
  next
    case False
    then have "65536 \<le> unat s" by (simp add: drop_bit_16_zero)
    moreover have "unat (fold_carry s) = carry (unat ((s AND 0xFFFF) + drop_bit 16 s))"
      using 1 False by (subst fold_carry.simps) simp
    ultimately show ?thesis by (simp only: carry_unat carry_step)
  qed
qed

definition word_sum :: "bytes \<Rightarrow> nat" where
  "word_sum d = sum_list (map unat (words d))"

lemma length_words: "length (words d) = (length d + 1) div 2"
  by (induction d rule: words.induct) auto

lemma word_sum_bound: "length d \<le> 131070 \<Longrightarrow> word_sum d < 2 ^ 32"
proof -
  assume d: "length d \<le> 131070"
  have "sum_list (map unat ws) \<le> 65535 * length ws" for ws :: "u16 list"
  proof (induction ws)
    case (Cons w ws)
    have "unat w < 65536" using unsigned_less [of w, where ?'a = nat] by simp
    then show ?case using Cons by simp
  qed simp
  from this [of "words d"] d show ?thesis unfolding word_sum_def length_words by simp
qed

lemma unat_sum_fold:
  "unat acc + sum_list (map unat ws) < 2 ^ 32 \<Longrightarrow>
   unat (fold (\<lambda>w sum. sum + ucast w) ws (acc :: u32)) = unat acc + sum_list (map unat (ws :: u16 list))"
proof (induction ws arbitrary: acc)
  case (Cons w ws)
  have "unat (acc + ucast w) = unat acc + unat w"
    using Cons.prems by (simp add: unat_word_ariths unsigned_ucast_eq take_bit_nat_eq_self)
  then show ?case using Cons by simp
qed simp

lemma unat_complement: "unat (NOT (x :: u16)) = 65535 - unat x"
proof -
  have "NOT x = - 1 - x" by (simp add: not_eq_complement)
  moreover have "unat (- 1 - x) = unat (- 1 :: u16) - unat x" by (rule unat_sub) (rule word_n1_ge)
  moreover have "unat (- 1 :: u16) = 65535" by (simp add: unsigned_minus_1_eq_mask mask_eq_exp_minus_1)
  ultimately show ?thesis by (simp only:)
qed

lemma unat_checksum: "length d \<le> 131070 \<Longrightarrow> unat (ipv4_checksum d) = 65535 - carry (word_sum d)"
proof -
  assume d: "length d \<le> 131070"
  let ?f = "fold_carry (fold (\<lambda>w sum. sum + ucast w) (words d) 0)"
  have "unat ?f = carry (word_sum d)"
    using unat_sum_fold [of 0 "words d"] word_sum_bound [OF d] by (simp add: unat_fold_carry word_sum_def)
  moreover have "carry (word_sum d) < 65536" by (auto simp: carry_def less_Suc_eq_le Suc_leI)
  ultimately have "unat (ucast ?f :: u16) = carry (word_sum d)" by (simp add: unsigned_ucast_eq take_bit_nat_eq_self_iff )
  then show ?thesis by (simp add: ipv4_checksum_def unat_complement)
qed

lemma words_append: "even (length a) \<Longrightarrow> words (a @ b) = words a @ words b"
  by (induction a rule: words.induct) auto

lemma word_sum_append: "even (length a) \<Longrightarrow> word_sum (a @ b) = word_sum a + word_sum b"
  by (simp add: word_sum_def words_append)

lemma be16_bytes: "[ucast (drop_bit 8 v), ucast (v AND 0xFF)] = to_be 2 (v :: u16)"
proof -
  have "ucast (v AND 0xFF) = (ucast v :: u8)" 
  proof -
    have "v AND 0xFF = take_bit 8 v" by (simp add: take_bit_eq_mask mask_eq_exp_minus_1)
    then show ?thesis by (auto simp: word_eq_bits bit_simps)
  qed
  then show ?thesis by (simp add: to_be_def upt_rec numeral_2_eq_2)
qed

lemma word_sum_be16: "word_sum (to_be 2 v) = unat (v :: u16)"
proof -
  obtain x y where xy: "to_be 2 v = [x, y]" using be16_bytes [of v] by metis
  then have "words (to_be 2 v) = [from_be (to_be 2 v)]" by simp
  then have "words (to_be 2 v) = [v]" by (simp only: be16.dec_enc)
  then show ?thesis by (simp add: word_sum_def)
qed

lemma put16_at: "length a = i \<Longrightarrow> put16 i v (a @ x # y # b) = a @ to_be 2 v @ b"
  by (simp add: put16_def list_update_append be16_bytes [symmetric])

lemma checksum_filled:
  assumes "even (length a)" and "length a + 2 + length b \<le> 131070"
  shows "ipv4_checksum (a @ to_be 2 (ipv4_checksum (a @ 0 # 0 # b)) @ b) = 0"
proof -
  let ?d = "a @ 0 # 0 # b" and ?s = "word_sum a + word_sum b"
  have "word_sum ?d = ?s"
    using assms(1) word_sum_append [of a "0 # 0 # b"] by (simp add: word_sum_def from_be_def)
  then have c: "unat (ipv4_checksum ?d) = 65535 - carry ?s" using unat_checksum [of ?d] assms(2) by simp
  have "word_sum (a @ to_be 2 (ipv4_checksum ?d) @ b) = ?s + (65535 - carry ?s)"
    using assms(1) by (simp add: word_sum_append word_sum_be16 c)
  moreover have "carry (n + (65535 - carry n)) = 65535" for n
  proof (cases "n = 0")
    case False
    let ?r = "(n - 1) mod 65535"
    have "n + (65535 - carry n) - 1 = 65535 * ((n - 1) div 65535) + 65534"
    proof -
      have "65535 * ((n - 1) div 65535) + ?r = n - 1" "?r < 65535" by simp_all
      then show ?thesis using False unfolding carry_def by (simp only: if_False) linarith
    qed
    then have "(n + (65535 - carry n) - 1) mod 65535 = 65534" by simp
    then show ?thesis using False by (simp add: carry_def)
  qed (simp add: carry_def)
  ultimately have "unat (ipv4_checksum (a @ to_be 2 (ipv4_checksum ?d) @ b)) = 0"
    using unat_checksum [of "a @ to_be 2 (ipv4_checksum ?d) @ b"] assms(2) by simp
  then show ?thesis by (simp only: unat_eq_0)
qed

lemma checksum_filled_at:
  assumes "d = a @ 0 # 0 # b" and "length a = i" and "even i" and "length d \<le> 131070"
  shows "ipv4_checksum (put16 i (ipv4_checksum d) d) = 0"
  using checksum_filled [of a b] assms by (simp add: put16_at)

text \<open>The headers the builders make, with the checksum in place.\<close>

lemma ipv4_build_eq:
  "\<exists>c :: u16. ipv4_build p src dst n = [0x45, 0] @ to_be 2 (of_nat (20 + n) :: u16) @ [0, 1, 0x40, 0, 64, p] @ to_be 2 c @ src @ dst"
proof -
  let ?a = "[0x45, 0] @ to_be 2 (of_nat (20 + n) :: u16) @ [0, 1, 0x40, 0, 64, p]"
  have "ipv4_build p src dst n = put16 10 (ipv4_checksum (?a @ 0 # 0 # src @ dst)) (?a @ 0 # 0 # src @ dst)"
    by (simp add: ipv4_build_def Let_def)
  then have "ipv4_build p src dst n = ?a @ to_be 2 (ipv4_checksum (?a @ 0 # 0 # src @ dst)) @ src @ dst"
    by (simp only: put16_at [of ?a 10] length_append length_to_be list.size)
  then show ?thesis by (simp only: append_assoc) blast
qed

lemma tcp_build_eq:
  "\<exists>c :: u16. tcp_build sp dp seq ack fl wnd src dst payload =
     to_be 2 sp @ to_be 2 dp @ to_be 4 seq @ to_be 4 ack @ [0x50, fl] @ to_be 2 wnd @ to_be 2 c @ [0, 0] @ payload"
proof -
  let ?a = "to_be 2 sp @ to_be 2 dp @ to_be 4 seq @ to_be 4 ack @ [0x50, fl] @ to_be 2 wnd"
  let ?s = "?a @ 0 # 0 # [0, 0] @ payload"
  have "tcp_build sp dp seq ack fl wnd src dst payload = put16 16 (tcp_checksum src dst ?s) ?s"
    by (simp add: tcp_build_def Let_def)
  then have "tcp_build sp dp seq ack fl wnd src dst payload = ?a @ to_be 2 (tcp_checksum src dst ?s) @ [0, 0] @ payload"
    by (simp only: put16_at [of ?a 16] length_append length_to_be list.size)
  then show ?thesis by (simp only: append_assoc) blast
qed

lemma length_ipv4_build [simp]: "length (ipv4_build p src dst n) = 12 + length src + length dst"
proof -
  obtain c :: u16 where c: "ipv4_build p src dst n =
      [0x45, 0] @ to_be 2 (of_nat (20 + n) :: u16) @ [0, 1, 0x40, 0, 64, p] @ to_be 2 c @ src @ dst"
    using ipv4_build_eq by blast
  show ?thesis unfolding c by simp
qed

lemma length_tcp_build [simp]: "length (tcp_build sp dp seq ack fl wnd src dst payload) = 20 + length payload"
proof -
  obtain c :: u16 where c: "tcp_build sp dp seq ack fl wnd src dst payload =
      to_be 2 sp @ to_be 2 dp @ to_be 4 seq @ to_be 4 ack @ [0x50, fl] @ to_be 2 wnd @ to_be 2 c @ [0, 0] @ payload"
    using tcp_build_eq by blast
  show ?thesis unfolding c by simp
qed

lemma tcp_build_verifies:
  assumes "length src = 4" and "length dst = 4" and "length payload \<le> 65000"
  shows "tcp_checksum src dst (tcp_build sp dp seq ack fl wnd src dst payload) = 0"
proof -
  let ?a = "to_be 2 sp @ to_be 2 dp @ to_be 4 seq @ to_be 4 ack @ [0x50, fl] @ to_be 2 wnd"
  let ?s = "?a @ 0 # 0 # [0, 0] @ payload"
  let ?ph = "src @ dst @ [0, 6] @ to_be 2 (of_nat (20 + length payload) :: u16)"
  have c: "tcp_checksum src dst ?s = ipv4_checksum ((?ph @ ?a) @ 0 # 0 # [0, 0] @ payload)"
    by (simp add: tcp_checksum_def)
  have "tcp_build sp dp seq ack fl wnd src dst payload = put16 16 (tcp_checksum src dst ?s) ?s"
    by (simp add: tcp_build_def Let_def)
  then have "tcp_build sp dp seq ack fl wnd src dst payload = ?a @ to_be 2 (tcp_checksum src dst ?s) @ [0, 0] @ payload"
    using put16_at [of ?a 16] by simp
  then have "tcp_checksum src dst (tcp_build sp dp seq ack fl wnd src dst payload) =
      ipv4_checksum ((?ph @ ?a) @ to_be 2 (tcp_checksum src dst ?s) @ [0, 0] @ payload)"
    by (simp add: tcp_checksum_def)
  also have "\<dots> = 0" unfolding c using assms by (intro checksum_filled) simp_all
  finally show ?thesis .
qed

text \<open>C36: the checksum of every packet the stack builds verifies at a receiver: the IPv4 header, ICMP echo requests
  and replies, and TCP segments with their pseudo header.\<close>

theorem built_packets_verify:
  assumes "length src = 4" and "length dst = 4" and "length payload \<le> 65000"
  shows "ipv4_checksum (ipv4_build p src dst n) = 0 \<and>
    ipv4_checksum (build_icmp_echo_request ident sq payload) = 0 \<and>
    ipv4_checksum (build_icmp_echo_reply ident sq payload) = 0 \<and>
    tcp_checksum src dst (tcp_build sp dp seq ack fl wnd src dst payload) = 0"
proof -
  have "ipv4_checksum (ipv4_build p src dst n) = 0" unfolding ipv4_build_def Let_def
    by (rule checksum_filled_at [where a = "[0x45, 0] @ to_be 2 (of_nat (20 + n) :: u16) @ [0, 1, 0x40, 0, 64, p]"
          and b = "src @ dst"]) (use assms in simp_all)
  moreover have "ipv4_checksum (build_icmp_echo_request ident sq payload) = 0" unfolding build_icmp_echo_request_def Let_def
    by (rule checksum_filled_at [where a = "[8, 0]" and b = "to_be 2 ident @ to_be 2 sq @ payload"]) (use assms in simp_all)
  moreover have "ipv4_checksum (build_icmp_echo_reply ident sq payload) = 0" unfolding build_icmp_echo_reply_def Let_def
    by (rule checksum_filled_at [where a = "[0, 0]" and b = "to_be 2 ident @ to_be 2 sq @ payload"]) (use assms in simp_all)
  ultimately show ?thesis using tcp_build_verifies [OF assms] by simp
qed

theorem built_packets_verify_witness:
  "ipv4_checksum (ipv4_build 6 [10, 0, 2, 15] [10, 0, 2, 2] 20) = 0 \<and>
   tcp_checksum [10, 0, 2, 15] [10, 0, 2, 2] (tcp_build 80 4000 1 2 0x10 100 [10, 0, 2, 15] [10, 0, 2, 2] [1, 2, 3]) = 0"
  using built_packets_verify [of "[10, 0, 2, 15]" "[10, 0, 2, 2]" "[1, 2, 3]"] by simp

subsection \<open>Reading back what was built\<close>

lemma field_append [simp]: "length a \<le> off \<Longrightarrow> field n (a @ b) off = field n b (off - length a)"
  by (simp add: field_def)

lemma field_here [simp]: "length a = n \<Longrightarrow> field n (a @ b) 0 = a"
  by (simp add: field_def)

lemma field_all [simp]: "length a = n \<Longrightarrow> field n a 0 = a"
  by (simp add: field_def)

lemma field_Cons [simp]: "0 < off \<Longrightarrow> field n (x # b) off = field n b (off - 1)"
  by (cases off) (simp_all add: field_def)

lemma eth_parse_build:
  "length d = 6 \<Longrightarrow> length s = 6 \<Longrightarrow>
   eth_parse (eth_build d s t p) = Some \<lparr>dst_mac = d, src_mac = s, ethertype = t, eth_payload = p\<rparr>"
  by (simp add: eth_parse_def eth_build_def be16_at_def be16.dec_enc)

lemma arp_parse_build:
  assumes "length m = 6" "length i = 4" "length m' = 6" "length i' = 4"
  shows "arp_parse (build_reply m i m' i') = Some \<lparr>arp_op = 2, sha = m, spa = i, tha = m', tpa = i'\<rparr>"
    and "arp_parse (build_request m i i') = Some \<lparr>arp_op = 1, sha = m, spa = i, tha = BROADCAST_MAC, tpa = i'\<rparr>"
  using assms by (simp_all add: arp_parse_def build_reply_def build_request_def be16_at_def be16.dec_enc field_def)

lemma unat_length16: "k + n \<le> 65535 \<Longrightarrow> unat (of_nat k + of_nat n :: u16) = k + n"
  using unat_of_nat [where ?'a = 16, of "k + n"] by simp

lemma ipv4_parse_build:
  assumes "length src = 4" and "length dst = 4" and "n \<le> 65515"
  shows "\<exists>h. ipv4_parse (ipv4_build p src dst n @ rest) = Some h \<and> proto h = p \<and> ip_src h = src \<and> ip_dst h = dst \<and>
    ip_header_len h = 20 \<and> unat (total_len h) = 20 + n"
proof -
  obtain c :: u16 where c: "ipv4_build p src dst n =
      [0x45, 0] @ to_be 2 (of_nat (20 + n) :: u16) @ [0, 1, 0x40, 0, 64, p] @ to_be 2 c @ src @ dst"
    using ipv4_build_eq by blast
  show ?thesis unfolding c using assms unat_length16 [of 20 n]
    by (simp add: ipv4_parse_def be16_at_def be16.dec_enc nth_append ip_header_len_def)
qed

lemma tcp_parse_build:
  "\<exists>h. tcp_parse (tcp_build sp dp seq ack fl wnd src dst payload) = Some h \<and> src_port h = sp \<and> dst_port h = dp \<and>
     th_seq h = seq \<and> th_ack h = ack \<and> th_flags h = fl \<and> window h = wnd \<and> tcp_header_len h = 20 \<and>
     drop 20 (tcp_build sp dp seq ack fl wnd src dst payload) = payload"
proof -
  obtain c :: u16 where c: "tcp_build sp dp seq ack fl wnd src dst payload =
      to_be 2 sp @ to_be 2 dp @ to_be 4 seq @ to_be 4 ack @ [0x50, fl] @ to_be 2 wnd @ to_be 2 c @ [0, 0] @ payload"
    using tcp_build_eq by blast
  show ?thesis unfolding c
    by (simp add: tcp_parse_def be16_at_def be32_at_def be16.dec_enc be32.dec_enc nth_append tcp_header_len_def)
qed

lemma udp_parse_build:
  "length payload \<le> 65527 \<Longrightarrow>
   udp_parse (udp_build sp dp payload @ pad) = Inr (Some \<lparr>udp_src_port = sp, udp_dst_port = dp, udp_payload = payload\<rparr>)"
  using unat_length16 [of 8 "length payload"]
  by (simp add: udp_parse_def udp_build_def be16_at_def be16.dec_enc range_of_def Let_def)

text \<open>C37: a TCP segment built by the stack and wrapped in IPv4 and Ethernet is taken apart by the stack's own
  receive path into the same addresses, ports, numbers, flags, window and data, whatever padding follows it.\<close>

theorem tcp_frame_roundtrip:
  assumes "length dm = 6" and "length sm = 6" and "length src = 4" and "length dst = 4" and "length payload \<le> 65000"
    and seg: "seg = tcp_build sp dp seq ack fl wnd src dst payload"
    and frame: "frame = eth_build dm sm 0x0800 (ipv4_build 6 src dst (length seg) @ seg @ pad)"
  shows "\<exists>eth iph tcph. eth_parse frame = Some eth \<and> dst_mac eth = dm \<and> src_mac eth = sm \<and> ethertype eth = 0x0800 \<and>
     ipv4_parse (eth_payload eth) = Some iph \<and> proto iph = 6 \<and> ip_src iph = src \<and> ip_dst iph = dst \<and>
     range_of (eth_payload eth) (ip_header_len iph) (unat (total_len iph)) = Inr seg \<and>
     tcp_parse seg = Some tcph \<and> src_port tcph = sp \<and> dst_port tcph = dp \<and> th_seq tcph = seq \<and> th_ack tcph = ack \<and>
     th_flags tcph = fl \<and> window tcph = wnd \<and> drop (tcp_header_len tcph) seg = payload"
proof -
  have n: "length seg = 20 + length payload" by (simp add: seg)
  obtain iph where i: "ipv4_parse (ipv4_build 6 src dst (length seg) @ seg @ pad) = Some iph" "proto iph = 6"
      "ip_src iph = src" "ip_dst iph = dst" "ip_header_len iph = 20" "unat (total_len iph) = 20 + length seg"
    using ipv4_parse_build [of src dst "length seg" 6 "seg @ pad"] assms(3-5) n by auto
  obtain h where t: "tcp_parse seg = Some h" "src_port h = sp" "dst_port h = dp" "th_seq h = seq" "th_ack h = ack"
      "th_flags h = fl" "window h = wnd" "tcp_header_len h = 20" "drop 20 seg = payload"
    using tcp_parse_build [of sp dp seq ack fl wnd src dst payload] by (auto simp: seg)
  show ?thesis using i t assms(1-4) by (simp add: frame eth_parse_build range_of_def)
qed

theorem tcp_frame_roundtrip_witness:
  "\<exists>eth. eth_parse (eth_build [1, 2, 3, 4, 5, 6] [6, 5, 4, 3, 2, 1] 0x0800
     (ipv4_build 6 [10, 0, 2, 15] [10, 0, 2, 2] (length (tcp_build 80 4000 7 8 0x18 100 [10, 0, 2, 15] [10, 0, 2, 2] [65, 66])) @
      tcp_build 80 4000 7 8 0x18 100 [10, 0, 2, 15] [10, 0, 2, 2] [65, 66] @ [0, 0])) = Some eth \<and> ethertype eth = 0x0800"
proof -
  have "length [1, 2, 3, 4, 5, 6 :: u8] = 6" "length [6, 5, 4, 3, 2, 1 :: u8] = 6" "length [10, 0, 2, 15 :: u8] = 4"
    "length [10, 0, 2, 2 :: u8] = 4" "length [65, 66 :: u8] \<le> 65000" by simp_all
  from tcp_frame_roundtrip [where sp = 80 and dp = 4000 and seq = 7 and ack = 8 and fl = 24 and wnd = 100 and
      pad = "[0, 0]", OF this refl refl] show ?thesis by blast
qed

subsection \<open>Replies from the network\<close>

lemma skip_qname_total: "\<exists>p. skip_qname d pos = Inr p"
  by (induction d pos rule: skip_qname.induct) (subst skip_qname.simps, auto simp: idx_def)

lemma skip_name_total: "\<exists>p. skip_name d pos = Inr p"
  by (induction d pos rule: skip_name.induct) (subst skip_name.simps, auto simp: idx_def)

lemma dns_answers_total: "\<exists>r. dns_answers d n pos = Inr r"
proof (induction n arbitrary: pos)
  case (Suc n)
  obtain p where "skip_name d pos = Inr p" using skip_name_total by blast
  then show ?case using Suc by (auto simp: idx_def range_of_def Let_def)
qed simp

lemma parse_dns_reply_total: "\<exists>r. parse_dns_reply d = Inr r"
proof -
  obtain p where p: "skip_qname d 12 = Inr p" using skip_qname_total by blast
  then show ?thesis using dns_answers_total [of d _ "p + 4"] by (auto simp: parse_dns_reply_def Let_def)
qed

lemma dhcp_options_total: "\<exists>r. dhcp_options d pos acc = Inr r"
proof (induction d pos acc rule: dhcp_options.induct)
  case (1 d pos acc)
  then show ?case by (subst dhcp_options.simps) (auto simp: idx_def range_of_def)
qed

lemma parse_dhcp_options_total: "\<exists>r. parse_dhcp_options d = Inr r"
  using dhcp_options_total [of d 240] by (auto simp: parse_dhcp_options_def split: sum.splits) (metis Inr_Inl_False)

lemma udp_parse_total: "\<exists>r. udp_parse d = Inr r"
  by (auto simp: udp_parse_def range_of_def Let_def)

end
