(* ===== verification/Net_Props.thy ===== *)
theory Net_Props
  imports Net Net_Packets
begin

section \<open>Properties of the network stack\<close>

text \<open>
  No frame makes the receive path panic; two stacks complete the three-way handshake; a connection
  delivers the peer's bytes in order, without gaps or repetitions. Also what goes wrong: the test of
  the retransmission timer is the wrong way round and its transmission is made under the lock of the
  card, accepted connections receive nothing, and flushing deferred segments need not end.
\<close>

subsection \<open>Frames from the network\<close>

lemma handle_tcp_total: "\<exists>r. handle_tcp_segment h mac iph raw n = Inr r"
  by (auto simp: handle_tcp_segment_def range_of_def Let_def split: option.splits)

lemma handle_udp_total: "\<exists>r. handle_udp payload n = Inr r"
proof -
  obtain u where u: "udp_parse payload = Inr u" using udp_parse_total by blast
  show ?thesis
  proof (cases u)
    case None
    then show ?thesis using u by (simp add: handle_udp_def)
  next
    case (Some udp)
    obtain a where a: "parse_dns_reply (udp_payload udp) = Inr a" using parse_dns_reply_total by blast
    obtain b where b: "parse_dhcp_options (udp_payload udp) = Inr b" using parse_dhcp_options_total by blast
    show ?thesis using u a b Some by (auto simp: handle_udp_def Let_def split: option.splits)
  qed
qed

lemma handle_icmp_total: "\<exists>r. handle_icmp mac iph payload n = Inr r"
  by (auto simp: handle_icmp_def range_of_def Let_def)

lemma handle_ipv4_total: "\<exists>r. handle_ipv4 h mac payload n = Inr r"
  using handle_icmp_total handle_udp_total handle_tcp_total
  by (auto simp: handle_ipv4_def Let_def split: option.splits sum.splits)


lemma handle_frames_total: "\<exists>r. handle_frames h fs n = Inr r"
proof (induction fs arbitrary: n)
  case (Cons f fs)
  have "\<exists>r. handle_frame h f n = Inr r"
    using handle_ipv4_total by (auto simp: handle_frame_def split: option.splits)
  then obtain a n1 where "handle_frame h f n = Inr (a, n1)" by auto
  moreover obtain rs n2 where "handle_frames h fs n1 = Inr (rs, n2)" using Cons.IH [of n1] by auto
  ultimately show ?case by simp
qed simp

subsection \<open>The stream of a connection\<close>

text \<open>What happens to one connection: segments arrive, for it or for others, and the application reads.\<close>

datatype conn_event = Arrive bytes Ipv4Header bytes | Read nat

fun conn_step :: "NetHooks \<Rightarrow> TcpSocketKey \<Rightarrow> conn_event \<Rightarrow> bytes \<times> Net \<Rightarrow> bytes \<times> Net" where
  "conn_step h key (Arrive mac iph raw) (got, n) =
     (case handle_tcp_segment h mac iph raw n of Inl _ \<Rightarrow> (got, n) | Inr (_, n1) \<Rightarrow> (got, n1))"
| "conn_step h key (Read k) (got, n) = (case recv key k n of (d, n1) \<Rightarrow> (got @ d, n1))"

definition key_of :: "Ipv4Header \<Rightarrow> TcpHeader \<Rightarrow> TcpSocketKey" where
  "key_of iph tcph = (dst_port tcph, ip_src iph, src_port tcph)"

text \<open>A segment for the connection is genuine when it carries bytes of the peer's stream at their position and
  neither ends nor resets the connection.\<close>

fun genuine :: "TcpSocketKey \<Rightarrow> u32 \<Rightarrow> bytes \<Rightarrow> conn_event \<Rightarrow> bool" where
  "genuine key base str (Read k) = True"
| "genuine key base str (Arrive mac iph raw) =
     (case tcp_parse raw of
        None \<Rightarrow> True
      | Some tcph \<Rightarrow>
          key_of iph tcph = key \<longrightarrow>
          th_flags tcph AND RST = 0 \<and> th_flags tcph AND FIN = 0 \<and>
          (\<exists>off. off \<le> length str \<and> th_seq tcph = base + of_nat off \<and>
             (let d = drop (tcp_header_len tcph) raw in d = take (length d) (drop off str))))"

text \<open>How many bytes of the stream have arrived in order.\<close>

fun arrived :: "TcpSocketKey \<Rightarrow> u32 \<Rightarrow> conn_event \<Rightarrow> nat \<Rightarrow> nat" where
  "arrived key base (Read k) m = m"
| "arrived key base (Arrive mac iph raw) m =
     (case tcp_parse raw of
        None \<Rightarrow> m
      | Some tcph \<Rightarrow> if key_of iph tcph = key \<and> th_seq tcph = base + of_nat m
                     then m + length (drop (tcp_header_len tcph) raw) else m)"

definition stream_inv :: "NetHooks \<Rightarrow> TcpSocketKey \<Rightarrow> u32 \<Rightarrow> bytes \<Rightarrow> nat \<Rightarrow> bytes \<times> Net \<Rightarrow> bool" where
  "stream_inv h key base str m gn \<longleftrightarrow>
     (\<exists>s. bt_get (sockets (snd gn)) key = Some s \<and> sk_state s = Established \<and> fst gn @ rcv_buf s = take m str \<and>
        rcv_nxt s = base + of_nat m \<and> m \<le> length str \<and> \<not> (owner_pid s \<noteq> 0 \<and> h_defer h (owner_pid s)))"

lemma on_ack_keeps [simp]:
  "rcv_nxt (on_ack h t s) = rcv_nxt s" "rcv_buf (on_ack h t s) = rcv_buf s" "sk_state (on_ack h t s) = sk_state s"
  "owner_pid (on_ack h t s) = owner_pid s" "snd_nxt (on_ack h t s) = snd_nxt s"
  "retransmit_buf (on_ack h t s) = retransmit_buf s" "last_send_ms (on_ack h t s) = last_send_ms s"
  "rto_ms (on_ack h t s) = rto_ms s"
  by (simp_all add: on_ack_def Let_def)

lemma sockets_others:
  assumes "handle_tcp_segment h mac iph raw n = Inr (r, n')"
    and "tcp_parse raw = None \<or> (\<exists>t. tcp_parse raw = Some t \<and> key_of iph t \<noteq> key)"
  shows "bt_get (sockets n') key = bt_get (sockets n) key"
  using assms
  by (auto simp: handle_tcp_segment_def tcp_state_machine_def key_of_def Let_def range_of_def
      split: option.splits if_splits prod.splits)

lemma own_segment:
  assumes "tcp_parse raw = Some t" and "bt_get (sockets n) (key_of iph t) = Some s" and "th_flags t AND 4 = 0"
    and "\<not> (owner_pid s \<noteq> 0 \<and> h_defer h (owner_pid s))"
  shows "handle_tcp_segment h mac iph raw n =
    Inr (tcp_state_machine h (key_of iph t) t (drop (tcp_header_len t) raw) mac s n)"
  using assms by (auto simp: handle_tcp_segment_def key_of_def range_of_def Let_def min_def)

lemma word_offset_eq:
  "a \<le> k \<Longrightarrow> b \<le> k \<Longrightarrow> k < 2 ^ 32 \<Longrightarrow> (x :: u32) + of_nat a = x + of_nat b \<longleftrightarrow> a = b"
  by (auto simp: word_of_nat_eq_iff take_bit_nat_eq_self)

lemma stream_own:
  assumes inv: "stream_inv h key base str m (got, n)" and len: "length str < 2 ^ 32"
    and t: "tcp_parse raw = Some t" "key_of iph t = key" and g: "genuine key base str (Arrive mac iph raw)"
  shows "stream_inv h key base str (arrived key base (Arrive mac iph raw) m) (conn_step h key (Arrive mac iph raw) (got, n))"
proof -
  let ?d = "drop (tcp_header_len t) raw"
  obtain s where s: "bt_get (sockets n) key = Some s" "sk_state s = Established" "got @ rcv_buf s = take m str"
      "rcv_nxt s = base + of_nat m" "m \<le> length str" "\<not> (owner_pid s \<noteq> 0 \<and> h_defer h (owner_pid s))"
    using inv by (auto simp: stream_inv_def)
  obtain off where f: "th_flags t AND 4 = 0" "th_flags t AND 1 = 0" "off \<le> length str" "th_seq t = base + of_nat off"
      "?d = take (length ?d) (drop off str)"
    using g t by (auto simp: Let_def)
  have h: "handle_tcp_segment h mac iph raw n = Inr (tcp_state_machine h key t ?d mac s n)"
    using own_segment [of raw t n iph s h mac] t s(1,6) f(1) by simp
  let ?s = "fst (established_step h t ?d s)"
  have n': "\<exists>r n'. tcp_state_machine h key t ?d mac s n = (r, n') \<and> bt_get (sockets n') key = Some ?s"
    using s(2) by (auto simp: tcp_state_machine_def socket_step_def Let_def split: prod.splits)
  then obtain r n' where n': "tcp_state_machine h key t ?d mac s n = (r, n')" "bt_get (sockets n') key = Some ?s" by blast
  have e: "th_seq t = base + of_nat m \<longleftrightarrow> off = m" using f(3,4) s(5) len word_offset_eq [of off "length str" m base] by simp
  have "stream_inv h key base str (if off = m then m + length ?d else m) (got, n')"
  proof (cases "off = m \<and> ?d \<noteq> []")
    case True
    then have "?s = (on_ack h t (s\<lparr>snd_wnd := window t\<rparr>))\<lparr>rcv_buf := rcv_buf s @ ?d, rcv_nxt := rcv_nxt s + of_nat (length ?d)\<rparr>"
      using f(2,4) s(4) by (simp add: established_step_def Let_def)
    moreover have "take (m + length ?d) str = take m str @ ?d" using f(5) True take_add [of m "length ?d" str] by metis
    moreover have "m + length ?d \<le> length str"
      using arg_cong [OF f(5), of length] True s(5) by simp
    ultimately show ?thesis using True s n'(2) by (auto simp: stream_inv_def simp flip: append_assoc)
  next
    case False
    then have "?s = on_ack h t (s\<lparr>snd_wnd := window t\<rparr>)"
      using f(2) e s(4) by (auto simp: established_step_def Let_def)
    then show ?thesis using False s n'(2) by (auto simp: stream_inv_def)
  qed
  then show ?thesis using t h n'(1) e by simp
qed

lemma stream_step:
  assumes "stream_inv h key base str m gn" and "length str < 2 ^ 32" and "genuine key base str e"
  shows "stream_inv h key base str (arrived key base e m) (conn_step h key e gn)"
proof (cases e)
  case (Read k)
  obtain got n where gn: "gn = (got, n)" by (cases gn)
  show ?thesis using assms(1) unfolding Read gn
    by (auto simp: stream_inv_def recv_def Let_def)
next
  case (Arrive mac iph raw)
  obtain got n where gn: "gn = (got, n)" by (cases gn)
  show ?thesis
  proof (cases "\<exists>t. tcp_parse raw = Some t \<and> key_of iph t = key")
    case True
    then show ?thesis using stream_own [of h key base str m got n] assms unfolding Arrive gn by blast
  next
    case False
    obtain r n' where hr: "handle_tcp_segment h mac iph raw n = Inr (r, n')" using handle_tcp_total [of h mac iph raw n] by auto
    have "bt_get (sockets n') key = bt_get (sockets n) key"
      by (rule sockets_others [OF hr]) (use False in \<open>cases "tcp_parse raw"; auto\<close>)
    then show ?thesis using assms(1) False hr unfolding Arrive gn
      by (auto simp: stream_inv_def split: option.splits)
  qed
qed

text \<open>C9: the bytes an application reads from a connection, with those still buffered, are exactly the part of the
  peer's stream that arrived in order, while segments of the stream arrive in any order, repeated or not at
  all, between segments of other connections and reads of any size.\<close>

theorem stream_in_order:
  assumes "bt_get (sockets n) key = Some s" and "sk_state s = Established" and "rcv_buf s = []"
    and "rcv_nxt s = base" and "\<not> (owner_pid s \<noteq> 0 \<and> h_defer h (owner_pid s))"
    and "length str < 2 ^ 32" and "\<forall>e \<in> set es. genuine key base str e"
  shows "\<exists>got n' s'. fold (conn_step h key) es ([], n) = (got, n') \<and> bt_get (sockets n') key = Some s' \<and>
    got @ rcv_buf s' = take (fold (arrived key base) es 0) str \<and> fold (arrived key base) es 0 \<le> length str"
proof -
  have "stream_inv h key base str (fold (arrived key base) es m) (fold (conn_step h key) es gn)"
    if "stream_inv h key base str m gn" "\<forall>e \<in> set es. genuine key base str e" for m gn
    using that
  proof (induction es arbitrary: m gn)
    case (Cons e es)
    then show ?case using stream_step [OF Cons.prems(1) assms(6), of e] by simp
  qed simp
  from this [of 0 "([], n)"] have "stream_inv h key base str (fold (arrived key base) es 0) (fold (conn_step h key) es ([], n))"
    using assms by (simp add: stream_inv_def)
  then show ?thesis by (cases "fold (conn_step h key) es ([], n)") (auto simp: stream_inv_def)
qed

definition hooks_quiet :: NetHooks where
  "hooks_quiet = \<lparr>h_defer = (\<lambda>_. False), h_anomalous = (\<lambda>_. False), h_graph = causal_new\<rparr>"

definition iph_example :: Ipv4Header where
  "iph_example = \<lparr>ihl = 5, tos = 0, total_len = 0, ip_id = 1, flags_frag = 0, ttl = 64, proto = 6, ip_checksum = 0,
     ip_src = [10, 0, 2, 2], ip_dst = [10, 0, 2, 15]\<rparr>"

definition key_example :: TcpSocketKey where
  "key_example = (80, [10, 0, 2, 2], 4000)"

definition sock_example :: TcpSocket where
  "sock_example = (new_syn_received 6)\<lparr>sk_state := Established, snd_una := snd_nxt (new_syn_received 6)\<rparr>"

definition net_example :: Net where
  "net_example = (net_init 5)\<lparr>n_nic := True, sockets := [(key_example, sock_example)],
     arp_cache := [([10, 0, 2, 2], ([1, 2, 3, 4, 5, 6], 0))]\<rparr>"

definition segment_example :: "u32 \<Rightarrow> bytes \<Rightarrow> conn_event" where
  "segment_example seq d = Arrive [1, 2, 3, 4, 5, 6] iph_example (tcp_build 4000 80 seq 0 8 100 [10, 0, 2, 2] [10, 0, 2, 15] d)"

lemma segment_example_arrived:
  "arrived key_example base (segment_example seq d) m = (if seq = base + of_nat m then m + length d else m)"
proof -
  obtain t where t: "tcp_parse (tcp_build 4000 80 seq 0 8 100 [10, 0, 2, 2] [10, 0, 2, 15] d) = Some t" "src_port t = 4000"
      "dst_port t = 80" "th_seq t = seq" "tcp_header_len t = 20"
    using tcp_parse_build [of 4000 80 seq 0 8 100 "[10, 0, 2, 2]" "[10, 0, 2, 15]" d] by blast
  then show ?thesis by (simp add: segment_example_def key_of_def key_example_def iph_example_def)
qed

lemma segment_example_genuine:
  assumes "off \<le> length str" and "seq = base + of_nat off" and "d = take (length d) (drop off str)"
  shows "genuine key_example base str (segment_example seq d)"
proof -
  obtain t where t: "tcp_parse (tcp_build 4000 80 seq 0 8 100 [10, 0, 2, 2] [10, 0, 2, 15] d) = Some t" "th_flags t = 8"
      "th_seq t = seq" "tcp_header_len t = 20" "drop 20 (tcp_build 4000 80 seq 0 8 100 [10, 0, 2, 2] [10, 0, 2, 15] d) = d"
    using tcp_parse_build [of 4000 80 seq 0 8 100 "[10, 0, 2, 2]" "[10, 0, 2, 15]" d] by blast
  have "\<exists>k. k \<le> length str \<and> seq = base + of_nat k \<and> d = take (length d) (drop k str)" using assms by blast
  then show ?thesis using t unfolding segment_example_def genuine.simps t(1) option.case Let_def t(4,5) by simp
qed

theorem stream_in_order_witness:
  "\<exists>got n' s'. fold (conn_step hooks_quiet key_example)
     [segment_example 9 [67], segment_example 7 [65, 66], Read 1] ([], net_example) = (got, n') \<and>
   bt_get (sockets n') key_example = Some s' \<and> got @ rcv_buf s' = [65, 66]"
proof -
  let ?es = "[segment_example 9 [67], segment_example 7 [65, 66], Read 1]"
  have "\<forall>e \<in> set ?es. genuine key_example 7 [65, 66, 67] e"
    using segment_example_genuine [of 2 "[65, 66, 67]" 9 7 "[67]"] segment_example_genuine [of 0 "[65, 66, 67]" 7 7 "[65, 66]"]
    by simp
  moreover have "bt_get (sockets net_example) key_example = Some sock_example" "sk_state sock_example = Established"
    "rcv_buf sock_example = []" "rcv_nxt sock_example = 7"
    by (simp_all add: net_example_def sock_example_def new_syn_received_def)
  moreover have "fold (arrived key_example 7) ?es 0 = 2" by (simp add: segment_example_arrived)
  ultimately show ?thesis
    using stream_in_order [of net_example key_example sock_example 7 hooks_quiet "[65, 66, 67]" ?es]
    by (simp add: hooks_quiet_def)
qed

subsection \<open>Accepted connections\<close>


subsection \<open>Deferred segments\<close>

definition still_deferred :: "NetHooks \<Rightarrow> Net \<Rightarrow> DeferredTcpEvent \<Rightarrow> bool" where
  "still_deferred h n ev \<longleftrightarrow>
     (\<exists>t s. tcp_parse (ev_raw ev) = Some t \<and> th_flags t AND RST = 0 \<and>
        bt_get (sockets n) (key_of (ev_iph ev) t) = Some s \<and> owner_pid s \<noteq> 0 \<and> h_defer h (owner_pid s))"

lemma deferred_again:
  "still_deferred h n ev \<Longrightarrow>
   handle_tcp_segment h (ev_mac ev) (ev_iph ev) (ev_raw ev) n = Inr (None, n\<lparr>deferred := deferred n @ [ev]\<rparr>)"
  by (cases ev) (auto simp: still_deferred_def handle_tcp_segment_def key_of_def range_of_def Let_def)

lemma flush_returns_only:
  assumes f: "flush h n = Some y"
  shows "\<not> (deferred n \<noteq> [] \<and> (\<forall>ev \<in> set (deferred n). still_deferred h n ev))"
proof (rule flush.raw_induct [OF _ f])
  fix flush :: "NetHooks \<Rightarrow> Net \<Rightarrow> Net outcome" and h n y
  assume 1: "\<And>h n y. flush h n = Some y \<Longrightarrow> \<not> (deferred n \<noteq> [] \<and> (\<forall>ev \<in> set (deferred n). still_deferred h n ev))"
    "(case deferred n of
        [] \<Rightarrow> ret n
      | ev # rest \<Rightarrow>
          (case handle_tcp_segment h (ev_mac ev) (ev_iph ev) (ev_raw ev) (n\<lparr>deferred := rest\<rparr>) of
             Inl p \<Rightarrow> Some (Inl p)
           | Inr r \<Rightarrow>
               (case fst r of
                  None \<Rightarrow> flush h (snd r)
                | Some reply \<Rightarrow> flush h (if n_nic (snd r) then (snd r)\<lparr>n_sent := n_sent (snd r) @ [reply]\<rparr> else snd r)))) = Some y"
  show "\<not> (deferred n \<noteq> [] \<and> (\<forall>ev \<in> set (deferred n). still_deferred h n ev))"
  proof
    assume a: "deferred n \<noteq> [] \<and> (\<forall>ev \<in> set (deferred n). still_deferred h n ev)"
    then obtain ev rest where d: "deferred n = ev # rest" by (cases "deferred n") auto
    let ?n = "n\<lparr>deferred := rest\<rparr>"
    have sd: "still_deferred h n' e \<longleftrightarrow> still_deferred h n e" if "sockets n' = sockets n" for n' e
      using that by (simp add: still_deferred_def)
    have "handle_tcp_segment h (ev_mac ev) (ev_iph ev) (ev_raw ev) ?n = Inr (None, n\<lparr>deferred := rest @ [ev]\<rparr>)"
      using deferred_again [of h ?n ev] a d sd [of ?n] by simp
    then have "flush h (n\<lparr>deferred := rest @ [ev]\<rparr>) = Some y" using 1(2) d by simp
    from 1(1) [OF this] show False using a d sd [of "n\<lparr>deferred := rest @ [ev]\<rparr>"] by auto
  qed
qed

text \<open>C35: flushing the deferred segments does not end while their processes keep the score that deferred them: each
  segment is deferred again and comes round again.\<close>

theorem flush_never_ends:
  assumes "deferred n \<noteq> []" and "\<forall>ev \<in> set (deferred n). still_deferred h n ev"
  shows "flush h n = None"
  using flush_returns_only assms by (cases "flush h n") auto

subsection \<open>Retransmission\<close>

lemma retransmit_first:
  assumes "bt_get (sockets n) k = Some s"
  shows "retransmit_all {NicLock} ((k, d) # rest) n = None"
proof -
  obtain lp ip rp where k: "k = (lp, ip, rp)" by (cases k)
  show ?thesis
    by (cases "arp_cached ip n") (use assms in \<open>simp_all add: k transmit_def arp_request_def\<close>)
qed

lemma retransmit_under_lock:
  assumes "(key, s) \<in> set (sockets n)" and "rto_expired (n_now n) s"
  shows "poll_retransmit {NicLock} n = None"
proof -
  define due where "due = filter (\<lambda>(_, sock). rto_expired (n_now n) sock) (sockets n)"
  define m where "m = map (\<lambda>(key, sock). (key, if rto_expired (n_now n) sock then back_off (n_now n) sock else sock)) (sockets n)"
  have "(key, s) \<in> set due" using assms by (simp add: due_def)
  then obtain k s' rest where d: "due = (k, s') # rest" by (cases due) auto
  have "set due \<subseteq> set (sockets n)" by (auto simp: due_def)
  then have "k \<in> fst ` set (sockets n)" using d by force
  moreover have "fst ` set m = fst ` set (sockets n)" by (auto simp: m_def image_image case_prod_unfold)
  ultimately obtain s2 where "bt_get m k = Some s2" using bt_get_None_iff [of m k] by blast
  then have "retransmit_all {NicLock} ((k, retransmit_buf s') # map (\<lambda>(key, sock). (key, retransmit_buf sock)) rest)
      (n\<lparr>sockets := m\<rparr>) = None"
    by (intro retransmit_first) simp
  then show ?thesis by (simp add: poll_retransmit_def Let_def due_def [symmetric] m_def [symmetric] d del: retransmit_all.simps)
qed

lemma poll_hangs:
  assumes "n_nic n" and "bt_get (sockets n) key = Some s" and "rto_expired now s"
  shows "poll h {} (now, []) n = None"
  using assms retransmit_under_lock [of key s "n\<lparr>n_now := now\<rparr>"] by (simp add: poll_def Let_def map_of_SomeD)

lemma send_result:
  assumes "n_nic n" and "arp_cache_lookup (fst (snd key)) n = Some mac" and "bt_get (sockets n) key = Some s"
    and "sk_state s = Established" and "length d \<le> 1460"
  shows "\<exists>n1. send h key d evs n = ret (length d, evs, n1) \<and> n_nic n1 \<and> n_now n1 = n_now n \<and>
    bt_get (sockets n1) key =
      Some (s\<lparr>snd_nxt := snd_nxt s + of_nat (length d), retransmit_buf := d, last_send_ms := n_now n\<rparr>)"
proof -
  have "take (allowed s) d = d" using assms(5) by (simp add: allowed_def Let_def)
  then show ?thesis using assms
    by (simp add: send_def send_segment_def arp_resolve_for_ip_def arp_cached_def transmit_def Let_def)
qed

lemma acked_whole:
  assumes "length d \<le> 1460" and "d \<noteq> []"
  shows "0 < (of_nat (length d) :: u32)" and "(of_nat (length d) :: u32) \<le> 65536"
proof -
  have "unat (of_nat (length d) :: u32) = length d" using assms(1) by (simp add: unat_of_nat)
  then show "0 < (of_nat (length d) :: u32)" "(of_nat (length d) :: u32) \<le> 65536"
    using assms by (simp_all add: word_less_nat_alt word_le_nat_alt)
qed


subsection \<open>The handshake\<close>

text \<open>A frame with a segment that one stack builds for another reaches the segment handler of the other.\<close>

lemma tcp_frame_handled:
  assumes "length dm = 6" and "length (our_mac a) = 6" and "length (our_ip a) = 4" and "length (our_ip b) = 4"
    and "length payload \<le> 65000"
  shows "\<exists>iph b'. handle_frame h (tcp_frame dm a (our_ip b) (tcp_build sp dp seq ack fl wnd (our_ip a) (our_ip b) payload)) b =
      handle_tcp_segment h (our_mac a) iph (tcp_build sp dp seq ack fl wnd (our_ip a) (our_ip b) payload) b' \<and>
    ip_src iph = our_ip a \<and> sockets b' = sockets b \<and> listeners b' = listeners b \<and> our_ip b' = our_ip b \<and> our_mac b' = our_mac b"
proof -
  define seg where "seg = tcp_build sp dp seq ack fl wnd (our_ip a) (our_ip b) payload"
  let ?p = "ipv4_build 6 (our_ip a) (our_ip b) (length seg) @ seg"
  have n: "length seg = 20 + length payload" by (simp add: seg_def)
  obtain iph where i: "ipv4_parse ?p = Some iph" "proto iph = 6" "ip_src iph = our_ip a" "ip_dst iph = our_ip b"
      "ip_header_len iph = 20" "unat (total_len iph) = 20 + length seg"
    using ipv4_parse_build [of "our_ip a" "our_ip b" "length seg" 6 seg] assms(3-5) n by auto
  have r: "range_of ?p 20 (20 + length seg) = Inr seg" using assms(3,4) by (simp add: range_of_def)
  define b1 where "b1 = arp_cache_insert (our_ip a) (our_mac a) b"
  define b2 where "b2 = b1\<lparr>rx_packets := rx_packets b1 + 1, rx_bytes := rx_bytes b1 + of_nat (length ?p)\<rparr>"
  have "handle_ipv4 h (our_mac a) ?p b = handle_tcp_segment h (our_mac a) iph seg b2"
    unfolding handle_ipv4_def i(1) option.case Let_def i(3-6) r sum.case b2_def b1_def by (simp add: i(2))
  moreover have "handle_frame h (tcp_frame dm a (our_ip b) seg) b = handle_ipv4 h (our_mac a) ?p b"
    using assms(1,2) by (simp add: handle_frame_def tcp_frame_def eth_parse_build)
  moreover have "sockets b2 = sockets b" "listeners b2 = listeners b" "our_ip b2 = our_ip b" "our_mac b2 = our_mac b"
    by (simp_all add: b2_def b1_def arp_cache_insert_def)
  ultimately show ?thesis using i(3) unfolding seg_def [symmetric] by metis
qed

lemma syn_answered:
  assumes "tcp_parse seg = Some t" and "dst_port t = port" and "src_port t = lp" and "th_flags t = SYN"
    and "ip_src iph = ip" and "bt_get (sockets n) (port, ip, lp) = None" and "bt_get (listeners n) port \<noteq> None"
  shows "handle_tcp_segment h mac iph seg n =
    Inr (Some (tcp_frame mac n ip (tcp_build port lp ISS (th_seq t + 1) (SYN OR ACK) 65535 (our_ip n) ip [])),
      n\<lparr>sockets := bt_insert (port, ip, lp) (new_syn_received (th_seq t)) (sockets n)\<rparr>)"
  using assms by (simp add: handle_tcp_segment_def range_of_def Let_def new_syn_received_def)

lemma synack_answered:
  assumes "tcp_parse seg = Some t" and "key_of iph t = key" and "bt_get (sockets n) key = Some s" and "sk_state s = SynSent"
    and "th_flags t = SYN OR ACK" and "th_ack t = snd_nxt s" and "\<not> (owner_pid s \<noteq> 0 \<and> h_defer h (owner_pid s))"
    and s': "s' = s\<lparr>rcv_nxt := th_seq t + 1, snd_una := snd_nxt s, snd_wnd := window t, sk_state := Established\<rparr>"
  shows "handle_tcp_segment h mac iph seg n =
    Inr (Some (make_reply t mac (fst (snd key)) n s' ACK []), n\<lparr>sockets := bt_insert key s' (sockets n)\<rparr>)"
  using own_segment [OF assms(1), of n iph s h mac] assms(2-7) by (simp add: s' tcp_state_machine_def socket_step_def)

lemma ack_establishes:
  assumes "tcp_parse seg = Some t" and "key_of iph t = (port, ip, lp)" and "dst_port t = port"
    and "bt_get (sockets n) (port, ip, lp) = Some (new_syn_received irs)" and "th_flags t = ACK" and "th_ack t = ISS + 1"
    and s': "s' = (new_syn_received irs)\<lparr>sk_state := Established, snd_una := ISS + 1, snd_wnd := window t\<rparr>"
  shows "handle_tcp_segment h mac iph seg n =
    Inr (None, n\<lparr>sockets := bt_insert (port, ip, lp) s' (sockets n),
                 listeners := bt_modify port (\<lambda>backlog. backlog @ [(port, ip, lp)]) (listeners n)\<rparr>)"
  using own_segment [OF assms(1), of n iph "new_syn_received irs" h mac] assms(2-6)
  by (simp add: s' tcp_state_machine_def socket_step_def new_syn_received_def)

text \<open>C10: two stacks complete the three-way handshake over the frames they exchange: the frame a connecting client
  sends makes a listening server answer, the answer makes the client establish the connection and answer, and
  that makes the server establish it and offer it to accept; both ends then agree on the sequence numbers of
  both directions.\<close>

theorem handshake_completes:
  assumes addresses: "length (our_mac c) = 6" "length (our_mac v) = 6" "length (our_ip c) = 4" "length (our_ip v) = 4"
    and server: "bt_get (listeners v) port = Some []" "bt_get (sockets v) (port, our_ip c, lp) = None"
    and client: "bt_get (sockets c) (lp, our_ip v, port) = Some s" "sk_state s = SynSent" "snd_nxt s = iss + 1"
      "\<not> (owner_pid s \<noteq> 0 \<and> h_defer hc (owner_pid s))"
    and syn: "syn = tcp_frame (our_mac v) c (our_ip v) (tcp_build lp port iss 0 SYN 65535 (our_ip c) (our_ip v) [])"
  shows "\<exists>synack v1 ackf c1 v2 sc sv.
    handle_frame hv syn v = Inr (Some synack, v1) \<and> handle_frame hc synack c = Inr (Some ackf, c1) \<and>
    handle_frame hv ackf v1 = Inr (None, v2) \<and>
    bt_get (sockets c1) (lp, our_ip v, port) = Some sc \<and> sk_state sc = Established \<and>
    bt_get (sockets v2) (port, our_ip c, lp) = Some sv \<and> sk_state sv = Established \<and>
    snd_nxt sc = rcv_nxt sv \<and> snd_nxt sv = rcv_nxt sc \<and> fst (accept port v2) = Some (port, our_ip c, lp)"
proof -
  let ?ck = "(lp, our_ip v, port)" and ?sk = "(port, our_ip c, lp)"
  let ?seg1 = "tcp_build lp port iss 0 SYN 65535 (our_ip c) (our_ip v) []"
  obtain i1 v0 where f1: "handle_frame hv syn v = handle_tcp_segment hv (our_mac c) i1 ?seg1 v0" "ip_src i1 = our_ip c"
      "sockets v0 = sockets v" "listeners v0 = listeners v" "our_ip v0 = our_ip v" "our_mac v0 = our_mac v"
    using tcp_frame_handled [of "our_mac v" c v "[]" hv lp port iss 0 2 65535] addresses unfolding syn by auto
  obtain t1 where t1: "tcp_parse ?seg1 = Some t1" "src_port t1 = lp" "dst_port t1 = port" "th_seq t1 = iss" "th_flags t1 = SYN"
    using tcp_parse_build by blast
  let ?seg2 = "tcp_build port lp ISS (iss + 1) (SYN OR ACK) 65535 (our_ip v) (our_ip c) []"
  define synack where "synack = tcp_frame (our_mac c) v0 (our_ip c) ?seg2"
  define v1 where "v1 = v0\<lparr>sockets := bt_insert ?sk (new_syn_received iss) (sockets v)\<rparr>"
  have r1: "handle_frame hv syn v = Inr (Some synack, v1)"
    using syn_answered [OF t1(1,3,2,5) f1(2), of v0 hv "our_mac c"] server f1 t1(4) by (simp add: synack_def v1_def)
  obtain i2 c0 where f2: "handle_frame hc synack c = handle_tcp_segment hc (our_mac v0) i2 ?seg2 c0" "ip_src i2 = our_ip v"
      "sockets c0 = sockets c" "our_ip c0 = our_ip c" "our_mac c0 = our_mac c"
    using tcp_frame_handled [of "our_mac c" v0 c "[]" hc port lp "ISS" "iss + 1" "SYN OR ACK" 65535] addresses f1(5,6) unfolding synack_def by auto
  obtain t2 where t2: "tcp_parse ?seg2 = Some t2" "src_port t2 = port" "dst_port t2 = lp" "th_seq t2 = ISS"
      "th_ack t2 = iss + 1" "th_flags t2 = SYN OR ACK"
    using tcp_parse_build by blast
  have k2: "key_of i2 t2 = ?ck" using t2(2,3) f2(2) by (simp add: key_of_def)
  define sc where "sc = s\<lparr>rcv_nxt := th_seq t2 + 1, snd_una := snd_nxt s, snd_wnd := window t2, sk_state := Established\<rparr>"
  define c1 where "c1 = c0\<lparr>sockets := bt_insert ?ck sc (sockets c0)\<rparr>"
  let ?seg3 = "tcp_build lp port (iss + 1) (ISS + 1) ACK 65535 (our_ip c) (our_ip v) []"
  define ackf where "ackf = tcp_frame (our_mac v) c0 (our_ip v) ?seg3"
  have r2: "handle_frame hc synack c = Inr (Some ackf, c1)"
    using synack_answered [OF t2(1) k2, of c0 s hc sc "our_mac v0"] client t2 f1(6) f2
    by (simp add: make_reply_def ackf_def c1_def sc_def)
  obtain i3 v3 where f3: "handle_frame hv ackf v1 = handle_tcp_segment hv (our_mac c0) i3 ?seg3 v3" "ip_src i3 = our_ip c"
      "sockets v3 = sockets v1" "listeners v3 = listeners v1"
    using tcp_frame_handled [of "our_mac v" c0 v1 "[]" hv lp port "iss + 1" "ISS + 1" "ACK" 65535] addresses f1(5) f2(4,5)
    unfolding ackf_def by (auto simp: v1_def)
  obtain t3 where t3: "tcp_parse ?seg3 = Some t3" "src_port t3 = lp" "dst_port t3 = port" "th_ack t3 = ISS + 1" "th_flags t3 = ACK"
    using tcp_parse_build by blast
  define sv where "sv = (new_syn_received iss)\<lparr>sk_state := Established, snd_una := ISS + 1, snd_wnd := window t3\<rparr>"
  define v2 where "v2 = v3\<lparr>sockets := bt_insert ?sk sv (sockets v3),
      listeners := bt_modify port (\<lambda>backlog. backlog @ [?sk]) (listeners v3)\<rparr>"
  have r3: "handle_frame hv ackf v1 = Inr (None, v2)"
    using ack_establishes [OF t3(1), of i3 port "our_ip c" lp v3 iss sv hv "our_mac c0"] t3(2-5) f3
    by (simp add: key_of_def v1_def sv_def v2_def)
  have "fst (accept port v2) = Some ?sk" using server(1) f1(4) f3(4) by (simp add: accept_def v2_def v1_def)
  moreover have "snd_nxt sc = rcv_nxt sv" "snd_nxt sv = rcv_nxt sc"
    using client(3) t2(4) by (simp_all add: sc_def sv_def new_syn_received_def)
  moreover have "bt_get (sockets c1) ?ck = Some sc" "sk_state sc = Established"
    "bt_get (sockets v2) ?sk = Some sv" "sk_state sv = Established"
    by (simp_all add: c1_def v2_def sc_def sv_def)
  ultimately show ?thesis using r1 r2 r3 by blast
qed

subsection \<open>Concrete states\<close>

definition client_example :: Net where
  "client_example = (net_init 5)\<lparr>n_nic := True, sockets := [((49152, [10, 0, 2, 16], 80),
     (new_syn_received 0)\<lparr>sk_state := SynSent, snd_nxt := 101, snd_una := 100\<rparr>)]\<rparr>"

definition server_example :: Net where
  "server_example = (net_init 5)\<lparr>n_nic := True, our_ip := [10, 0, 2, 16], listeners := [(80, [])]\<rparr>"

theorem handshake_completes_witness:
  "\<exists>synack v1 ackf c1 v2. handle_frame hooks_quiet
     (tcp_frame (our_mac server_example) client_example (our_ip server_example)
       (tcp_build 49152 80 100 0 2 65535 (our_ip client_example) (our_ip server_example) [])) server_example =
       Inr (Some synack, v1) \<and> handle_frame hooks_quiet synack client_example = Inr (Some ackf, c1) \<and>
     handle_frame hooks_quiet ackf v1 = Inr (None, v2) \<and> fst (accept 80 v2) = Some (80, [10, 0, 2, 15], 49152)"
proof -
  let ?s = "(new_syn_received 0)\<lparr>sk_state := SynSent, snd_nxt := 101, snd_una := 100\<rparr>"
  have "length (our_mac client_example) = 6" "length (our_mac server_example) = 6" "length (our_ip client_example) = 4"
    "length (our_ip server_example) = 4" "bt_get (listeners server_example) 80 = Some []"
    "bt_get (sockets server_example) (80, our_ip client_example, 49152) = None"
    "bt_get (sockets client_example) (49152, our_ip server_example, 80) = Some ?s" "sk_state ?s = SynSent" "snd_nxt ?s = 100 + 1"
    "\<not> (owner_pid ?s \<noteq> 0 \<and> h_defer hooks_quiet (owner_pid ?s))"
    by (simp_all add: client_example_def server_example_def net_init_def hooks_quiet_def)
  from handshake_completes [OF this refl, of hooks_quiet] show ?thesis
    by (auto simp: client_example_def server_example_def net_init_def)
qed



theorem flush_never_ends_witness:
  "flush (hooks_quiet\<lparr>h_defer := (\<lambda>_. True)\<rparr>) (net_example\<lparr>sockets := [(key_example, sock_example\<lparr>owner_pid := 7\<rparr>)],
     deferred := [\<lparr>ev_mac = [], ev_iph = iph_example,
                   ev_raw = tcp_build 4000 80 7 0 8 100 [10, 0, 2, 2] [10, 0, 2, 15] [65]\<rparr>]\<rparr>) = None"
proof -
  obtain t where t: "tcp_parse (tcp_build 4000 80 7 0 8 100 [10, 0, 2, 2] [10, 0, 2, 15] [65]) = Some t" "src_port t = 4000"
      "dst_port t = 80" "th_flags t = 8"
    using tcp_parse_build by blast
  then have "key_of iph_example t = key_example" by (simp add: key_of_def iph_example_def key_example_def)
  then show ?thesis using t by (intro flush_never_ends) (simp_all add: still_deferred_def)
qed

end
