(* ===== verification/Spec2Isabelle.thy ===== *)
theory Spec2Isabelle
  imports Kring Vmm Causal Lifecycle Wifi Users Elf_Props Job_Control Net_Props
begin

text \<open>
  Verification development for the NodeAI kernel, the Rust sources under \<^verbatim>\<open>src/kernel/src\<close>.

  \<^bold>\<open>Conventions.\<close> Machine integers the code shifts, masks, compares as addresses or lets wrap are words
  of their width; \<^verbatim>\<open>usize\<close> counters of kernel objects are natural numbers, with the wrap-around written
  out where code adds them unchecked. The release profile wraps. Panics are values of \<open>panic\<close>; a function
  that can panic returns \<open>panic + 'a\<close>, and one that may also not return (a spin lock taken twice, a
  wait without an event) returns an option of that. \<^verbatim>\<open>BTreeMap\<close> is an ascending association list.
  Code outside \<^verbatim>\<open>src\<close>, device registers and the floating-point modules are arguments of the definitions
  that use them: hooks of the scheduler (\<open>Hooks\<close>), devices of the file system (\<open>Devices\<close>), comparisons of
  scores in the network stack (\<open>NetHooks\<close>). Theory Prelude has the shared vocabulary, the lemma collections
  \<open>kinv\<close> and \<open>kframe\<close>, and the contracts \<open>bounded_log\<close> and \<open>frame_source\<close>; Bytes has the contract
  \<open>fixed_codec\<close> of fixed-size integer encodings; Hot_Lock has \<open>map_like\<close>. Each contract is interpreted on
  the definitions of the component that provides it.

  \<^bold>\<open>Kernel log.\<close> Kring models \<^verbatim>\<open>kring.rs\<close>: the ring keeps the last 256 messages in order.

  \<^bold>\<open>Memory.\<close> Pmm models the buddy allocator of \<^verbatim>\<open>memory/pmm.rs\<close> with its intrusive free lists in a memory of
  64-bit cells: allocation and release keep the blocks disjoint, and a released block is allocatable
  again. Kmem and Self_Model add the allocator as a frame source and the reserves of
  \<^verbatim>\<open>memory/self_model.rs\<close>, which lose no frame. Vmm models the page-table code of \<^verbatim>\<open>memory/vmm.rs\<close>: copy-on-write
  faults, sharing at fork, protection changes, reclamation. Frame_Bytes views frames as bytes, and
  Page_Cache models \<^verbatim>\<open>page_cache.rs\<close> on top: a cached read returns what the file holds.

  \<^bold>\<open>Processes.\<close> Runqueue, Task, Rlimit, Job_Groups, Causal, Security and Crash_Recovery model
  \<^verbatim>\<open>scheduler/runqueue.rs\<close>, \<^verbatim>\<open>scheduler/task.rs\<close>, \<^verbatim>\<open>rlimit.rs\<close>, the tables of \<^verbatim>\<open>job_control.rs\<close>, \<^verbatim>\<open>causal.rs\<close>,
  \<^verbatim>\<open>security.rs\<close> and \<^verbatim>\<open>causal_recovery.rs\<close>. Scheduler composes them into the state of \<^verbatim>\<open>scheduler/mod.rs\<close>: creating,
  switching, sleeping, waking, signalling, ending and reaping processes. Scheduler_Inv has the invariant
  and that every operation keeps it; Scheduler_Props has the step relation, reachability and that the
  run queue holds exactly the runnable processes; Lifecycle follows a thread from its start to its
  end. Job_Control has the foreground group with its priority bonus.

  \<^bold>\<open>Files and users.\<close> Hot_Lock models the sharded map of \<^verbatim>\<open>hot_lock.rs\<close>. Users_Db models the accounts, modes
  and permission checks of \<^verbatim>\<open>users.rs\<close>; Vnodes the nodes and handles of \<^verbatim>\<open>vfs/ramfs.rs\<close>, \<^verbatim>\<open>vfs/devfs.rs\<close> and
  \<^verbatim>\<open>vfs/blockdev.rs\<close> as references into one list of nodes; Vfs the mounts, paths and whole-file operations of
  \<^verbatim>\<open>vfs/mod.rs\<close> and \<^verbatim>\<open>vfs/path.rs\<close>. Vfs_Inv and Vfs_Props have the invariant, that directories are maps, that
  nodes keep their type and what reading and writing a file do. Users has account management with the files it
  writes under \<^verbatim>\<open>/etc\<close>. Elf and Elf_Props model \<^verbatim>\<open>elf.rs\<close>: parsing never reads outside the file, a loaded
  program is in memory, relocations store the values their types prescribe. Format has the text
  formatting these use.

  \<^bold>\<open>Networks.\<close> Net_Wire has the packet formats of \<^verbatim>\<open>net.rs\<close> and Net_Packets their properties: checksums verify
  and parsers read back what builders wrote. Net has the stack with ARP, ICMP, DNS, DHCP and TCP, and the
  deferred segments of \<^verbatim>\<open>causal_deferral.rs\<close>; Net_Props shows that no frame causes a panic, that the handshake
  completes, that a connection delivers the stream in order, and three defects of retransmission, accepting and
  flushing. Wpa_Hash, Wpa_Aes and Wpa_Ccmp model \<^verbatim>\<open>wifi/crypto.rs\<close>, Wifi_Frames and Wifi the frames, the four-way
  handshake and the interface of \<^verbatim>\<open>wifi/ar9271.rs\<close> and \<^verbatim>\<open>wifi/mod.rs\<close>.

  \<^bold>\<open>Bounds and fuel.\<close> Loops are structural recursion or functions with a termination proof. Waiting loops
  recurse over the list of events the environment delivers and have no result when it ends too soon;
  waiting for an ARP reply makes the 3000 or 5000 polls the code makes. Flushing deferred segments is a
  partial function because it need not end, which is one of the theorems. Checksums are stated for packets of
  at most 65000 bytes of data, below the limit of the IPv4 length field, where the 32-bit sum of the code does not
  wrap. Streams are shorter than the sequence number space.

  \<^bold>\<open>Not modelled.\<close> System-call entry and its descriptor tables, the slab heap, namespaces, containers and
  tracing, packages and persistence: not covered. Drivers, interrupts, ACPI and boot: device registers and
  assembly. Language models, learned schedulers, sensors, anomaly scores and the consciousness,
  swarm and quantum modules: floating-point code whose answers are arguments where a modelled component uses
  them. Shell, desktop, \<^verbatim>\<open>/proc\<close> and other reports: text and drawing. Of the network stack: DHCP over WiFi,
  its configuration file, and the HTTP and SSH servers.
\<close>

end
